(* ===== verification/Prelude.thy ===== *)
theory Prelude
  imports Main "HOL-Library.Word" "HOL-Library.Sublist"
begin

text \<open>
  Shared vocabulary of the development: Go strings and byte slices as lists of 8-bit
  characters, the fixed-width integer types of the program, the outcome of an
  operation that may block or panic, and generic lemmas on lists, characters and maps
  that several components use.  The collection of preservation lemmas declared here is
  filled by the component theories, one lemma per operation.
\<close>

section \<open>Theorem collection\<close>

named_theorems inv_intros \<open>operations that preserve a component's invariant\<close>

section \<open>Types of the program\<close>

text \<open>A Go \<open>string\<close> or \<open>[]byte\<close> is a sequence of bytes; a \<open>char\<close> is one byte.\<close>

type_synonym gostring = "char list"

text \<open>The program is built for amd64 and arm64, where \<open>int\<close> has 64 bits.\<close>

type_synonym u8 = "8 word"
type_synonym u16 = "16 word"
type_synonym u32 = "32 word"
type_synonym i64 = "64 word"

abbreviation code :: "char \<Rightarrow> nat" where
  "code c \<equiv> of_char c"

abbreviation byte :: "nat \<Rightarrow> char" where
  "byte n \<equiv> char_of n"

text \<open>
  What one operation of a goroutine does in a given state: it returns, it panics, or it
  cannot proceed yet.
\<close>

datatype 'a outcome = Returns 'a | Panics | Blocks

section \<open>Characters and bytes\<close>

lemma code_less_256 [simp]: "code c < 256"
  by (metis of_char_mod_256 mod_less_divisor zero_less_numeral)

lemma code_byte [simp]: "n < 256 \<Longrightarrow> code (byte n) = n"
  by (simp add: of_char_of)

lemma code_inj [simp]: "code c = code d \<longleftrightarrow> c = d"
  by (metis char_of_char)

lemma byte_eq_iff: "m < 256 \<Longrightarrow> n < 256 \<Longrightarrow> byte m = byte n \<longleftrightarrow> m = n"
  by (metis code_byte)

section \<open>Lists\<close>

lemma prefix_take_drop: "prefix p s \<Longrightarrow> p @ drop (length p) s = s"
  by (auto simp: prefix_def)

lemma take_append_exact [simp]: "length xs = n \<Longrightarrow> take n (xs @ ys) = xs"
  by simp

lemma drop_append_exact [simp]: "length xs = n \<Longrightarrow> drop n (xs @ ys) = ys"
  by simp

lemma list_all_filter: "list_all P xs \<Longrightarrow> list_all P (filter Q xs)"
  by (induction xs) auto

section \<open>Maps\<close>

text \<open>
  Go leaves the iteration order of a map open.  Where the code ranges over a map, the
  order is an argument of the model: a list that enumerates the keys.
\<close>

definition enumerates :: "'k list \<Rightarrow> ('k \<rightharpoonup> 'v) \<Rightarrow> bool" where
  "enumerates ks m \<longleftrightarrow> distinct ks \<and> set ks = dom m"

definition range_map :: "'k list \<Rightarrow> ('k \<rightharpoonup> 'v) \<Rightarrow> 'v list" where
  "range_map ks m = List.map_filter m ks"

lemma range_map_Nil [simp]: "range_map [] m = []"
  by (simp add: range_map_def List.map_filter_def)

lemma range_map_Cons [simp]:
  "range_map (k # ks) m = (case m k of None \<Rightarrow> range_map ks m | Some v \<Rightarrow> v # range_map ks m)"
  by (simp add: range_map_def List.map_filter_def split: option.splits)

lemma set_range_map: "set (range_map ks m) = {v. \<exists>k\<in>set ks. m k = Some v}"
  by (induction ks) (auto split: option.splits)

lemma enumerates_ran: "enumerates ks m \<Longrightarrow> set (range_map ks m) = ran m"
  by (auto simp: enumerates_def set_range_map ran_def)

end
