(* ===== verification/GoChan.thy ===== *)
theory GoChan
  imports Prelude
begin

text \<open>
  Buffered Go channels: send, the non-blocking send of \<open>select\<close> with \<open>default\<close>,
  receive and close, with their panics and blocking.  A queue interface states what a
  client of a channel relies on; the channel model interprets it.
\<close>

record 'a chan =
  ch_buf :: "'a list"
  ch_cap :: nat
  ch_closed :: bool

definition make_chan :: "nat \<Rightarrow> 'a chan" where
  "make_chan n = \<lparr>ch_buf = [], ch_cap = n, ch_closed = False\<rparr>"

definition chan_send :: "'a chan \<Rightarrow> 'a \<Rightarrow> 'a chan outcome" where
  "chan_send c x =
     (if ch_closed c then Panics
      else if length (ch_buf c) < ch_cap c then Returns (c\<lparr>ch_buf := ch_buf c @ [x]\<rparr>)
      else Blocks)"

text \<open>\<open>select { case c <- x: ... default: ... }\<close>: \<open>None\<close> is the default branch.\<close>

definition chan_try_send :: "'a chan \<Rightarrow> 'a \<Rightarrow> 'a chan option outcome" where
  "chan_try_send c x =
     (case chan_send c x of Returns c' \<Rightarrow> Returns (Some c') | Blocks \<Rightarrow> Returns None | Panics \<Rightarrow> Panics)"

text \<open>\<open>v, ok := <-c\<close>: the value is \<open>None\<close> once the channel is closed and drained.\<close>

definition chan_recv :: "'a chan \<Rightarrow> ('a option \<times> 'a chan) outcome" where
  "chan_recv c =
     (case ch_buf c of
        x # xs \<Rightarrow> Returns (Some x, c\<lparr>ch_buf := xs\<rparr>)
      | [] \<Rightarrow> if ch_closed c then Returns (None, c) else Blocks)"

definition chan_close :: "'a chan \<Rightarrow> 'a chan outcome" where
  "chan_close c = (if ch_closed c then Panics else Returns (c\<lparr>ch_closed := True\<rparr>))"

definition chan_ok :: "'a chan \<Rightarrow> bool" where
  "chan_ok c \<longleftrightarrow> length (ch_buf c) \<le> ch_cap c"

lemma chan_ok_make [simp]: "chan_ok (make_chan n)"
  by (simp add: chan_ok_def make_chan_def)

lemma chan_send_ok: "chan_send c x = Returns c' \<Longrightarrow> chan_ok c'"
  by (auto simp: chan_send_def chan_ok_def split: if_splits)

lemma chan_recv_ok: "chan_recv c = Returns (v, c') \<Longrightarrow> chan_ok c \<Longrightarrow> chan_ok c'"
  by (auto simp: chan_recv_def chan_ok_def split: list.splits if_splits)

lemma chan_send_Panics [simp]: "chan_send c x = Panics \<longleftrightarrow> ch_closed c"
  by (simp add: chan_send_def)

lemma chan_close_Panics [simp]: "chan_close c = Panics \<longleftrightarrow> ch_closed c"
  by (simp add: chan_close_def)

section \<open>The queue interface\<close>

locale bounded_queue =
  fixes items :: "'q \<Rightarrow> 'a list"
    and capacity :: "'q \<Rightarrow> nat"
    and put :: "'q \<Rightarrow> 'a \<Rightarrow> 'q outcome"
    and get :: "'q \<Rightarrow> ('a option \<times> 'q) outcome"
  assumes put_items: "put q x = Returns q' \<Longrightarrow>
      items q' = items q @ [x] \<and> capacity q' = capacity q \<and> length (items q) < capacity q"
    and get_item: "get q = Returns (Some x, q') \<Longrightarrow> items q = x # items q' \<and> capacity q' = capacity q"
    and get_none: "get q = Returns (None, q') \<Longrightarrow> items q = [] \<and> q' = q"
    and get_blocks: "get q = Blocks \<Longrightarrow> items q = []"
    and get_panics: "get q \<noteq> Panics"
begin

text \<open>A run of puts and gets; \<open>None\<close> when an operation does not return.\<close>

fun run :: "'q \<Rightarrow> 'a option list \<Rightarrow> ('a list \<times> 'q) option" where
  "run q [] = Some ([], q)"
| "run q (Some x # ops) = (case put q x of Returns q' \<Rightarrow> run q' ops | _ \<Rightarrow> None)"
| "run q (None # ops) =
     (case get q of
        Returns (Some x, q') \<Rightarrow> map_option (apfst ((#) x)) (run q' ops)
      | Returns (None, q') \<Rightarrow> run q' ops
      | _ \<Rightarrow> None)"

text \<open>First in, first out: what was got, then what is left, is what was there plus what was put.\<close>

lemma run_fifo:
  "run q ops = Some (got, q') \<Longrightarrow> got @ items q' = items q @ List.map_filter id ops"
proof (induction q ops arbitrary: got rule: run.induct)
  case (1 q)
  then show ?case by simp
next
  case (2 q x ops)
  then obtain q1 where q1: "put q x = Returns q1" "run q1 ops = Some (got, q')"
    by (auto split: outcome.splits)
  with "2.IH" put_items [OF q1(1)] show ?case by auto
next
  case (3 q ops)
  note IH1 = "3.IH"(2) and IH2 = "3.IH"(1)
  consider (item) x q1 got' where "get q = Returns (Some x, q1)" "run q1 ops = Some (got', q')" "got = x # got'"
    | (none) q1 where "get q = Returns (None, q1)" "run q1 ops = Some (got, q')"
    using "3.prems" by (auto split: outcome.splits option.splits)
  then show ?case
  proof cases
    case item
    with IH1 [OF item(1) refl refl item(2)] get_item [OF item(1)] show ?thesis by simp
  next
    case none
    with IH2 [OF none(1) refl refl none(2)] get_none [OF none(1)] show ?thesis by simp
  qed
qed

lemma run_bounded:
  "run q ops = Some (got, q') \<Longrightarrow> length (items q) \<le> capacity q \<Longrightarrow>
   length (items q') \<le> capacity q' \<and> capacity q' = capacity q"
proof (induction q ops arbitrary: got rule: run.induct)
  case (1 q)
  then show ?case by simp
next
  case (2 q x ops)
  then obtain q1 where q1: "put q x = Returns q1" "run q1 ops = Some (got, q')"
    by (auto split: outcome.splits)
  with "2.IH" [OF q1] put_items [OF q1(1)] show ?case by simp
next
  case (3 q ops)
  note IH1 = "3.IH"(2) and IH2 = "3.IH"(1)
  consider (item) x q1 got' where "get q = Returns (Some x, q1)" "run q1 ops = Some (got', q')"
    | (none) q1 where "get q = Returns (None, q1)" "run q1 ops = Some (got, q')"
    using "3.prems"(1) by (auto split: outcome.splits option.splits)
  then show ?case
  proof cases
    case item
    from get_item [OF item(1)] "3.prems"(2) IH1 [OF item(1) refl refl item(2)] show ?thesis by simp
  next
    case none
    from get_none [OF none(1)] "3.prems"(2) IH2 [OF none(1) refl refl none(2)] show ?thesis by simp
  qed
qed

end

interpretation chan_queue: bounded_queue ch_buf ch_cap chan_send chan_recv
  by unfold_locales (auto simp: chan_send_def chan_recv_def split: if_splits list.splits)

text \<open>
  A buffered channel is first in, first out and never holds more than its capacity: over any
  run of sends and receives, what was received followed by what is left is what was there
  followed by what was sent.
\<close>

lemma chan_fifo:
  assumes "chan_queue.run c ops = Some (got, c')" "chan_ok c"
  shows "got @ ch_buf c' = ch_buf c @ List.map_filter id ops \<and> chan_ok c' \<and> ch_cap c' = ch_cap c"
  using chan_queue.run_fifo [OF assms(1)] chan_queue.run_bounded [OF assms(1)] assms(2)
  by (simp add: chan_ok_def)

end
