(* ===== verification/GoIO.thy ===== *)
theory GoIO
  imports Prelude
begin

text \<open>
  Go's \<open>io.Reader\<close> on a connection, \<open>io.ReadFull\<close> and the big-endian integers of
  \<open>encoding/binary\<close>.  A connection delivers its bytes in chunks of the network's
  choosing: one \<open>Read\<close> returns at most the bytes of the first chunk, and when no chunk
  is left it returns the final error (end of file, a deadline, a reset).
\<close>

datatype ioerr = EOF | UnexpectedEOF | IOFailure

record reader =
  chunks :: "gostring list"
  final_err :: ioerr

definition content :: "reader \<Rightarrow> gostring" where
  "content r = concat (chunks r)"

definition conn_Read :: "nat \<Rightarrow> reader \<Rightarrow> (gostring \<times> ioerr option) \<times> reader" where
  "conn_Read n r =
     (case chunks r of
        [] \<Rightarrow> (([], Some (final_err r)), r)
      | c # cs \<Rightarrow> ((take n c, None), r\<lparr>chunks := (if length c \<le> n then cs else drop n c # cs)\<rparr>))"

lemma conn_Read_None:
  "conn_Read n r = ((x, None), r') \<Longrightarrow>
   x @ content r' = content r \<and> final_err r' = final_err r \<and> length x \<le> n \<and>
   (n = length x \<or> length (chunks r') < length (chunks r))"
  by (auto simp: conn_Read_def content_def split: list.splits if_splits)

lemma conn_Read_Some:
  "conn_Read n r = ((x, Some e), r') \<Longrightarrow> x = [] \<and> e = final_err r \<and> r' = r \<and> chunks r = []"
  by (auto simp: conn_Read_def split: list.splits)

text \<open>The loop of \<open>io.ReadAtLeast\<close>: read until the buffer is full or a read fails.\<close>

function read_loop :: "nat \<Rightarrow> reader \<Rightarrow> (gostring \<times> ioerr option) \<times> reader" where
  "read_loop n r =
     (if n = 0 then (([], None), r)
      else case conn_Read n r of
        ((x, Some e), r') \<Rightarrow> ((x, Some e), r')
      | ((x, None), r') \<Rightarrow>
          (case read_loop (n - length x) r' of ((y, e), r'') \<Rightarrow> ((x @ y, e), r'')))"
  by pat_completeness auto
termination
proof (relation "measure (\<lambda>(n, r). n + length (chunks r))")
  show "wf (measure (\<lambda>(n, r). n + length (chunks r)))" by simp
next
  fix n :: nat and r :: reader and p :: "gostring \<times> ioerr option" and r' x o'
  assume n: "n \<noteq> 0" and "(p, r') = conn_Read n r" and "(x, o') = p" and "o' = None"
  then have "conn_Read n r = ((x, None), r')" by simp
  then have "length x \<le> n" "n = length x \<and> length (chunks r') \<le> length (chunks r)
      \<or> length (chunks r') < length (chunks r)"
    by (auto simp: conn_Read_def split: list.splits if_splits)
  with n show "((n - length x, r'), n, r) \<in> measure (\<lambda>(n, r). n + length (chunks r))"
    by (auto simp del: length_greater_0_conv simp: length_greater_0_conv [symmetric])
qed

declare read_loop.simps [simp del]

definition io_ReadFull :: "nat \<Rightarrow> reader \<Rightarrow> (gostring \<times> ioerr option) \<times> reader" where
  "io_ReadFull n r =
     (case read_loop n r of ((x, e), r') \<Rightarrow>
        ((x, if n \<le> length x then None
             else if x \<noteq> [] \<and> e = Some EOF then Some UnexpectedEOF else e), r'))"

lemma read_loop_enough:
  "n \<le> length (content r) \<Longrightarrow>
   \<exists>r'. read_loop n r = ((take n (content r), None), r') \<and> content r' = drop n (content r) \<and>
        final_err r' = final_err r"
proof (induction n r rule: read_loop.induct)
  case (1 n r)
  show ?case
  proof (cases "n = 0")
    case True
    then show ?thesis by (simp add: read_loop.simps [of 0 r])
  next
    case False
    obtain x e r1 where rd: "conn_Read n r = ((x, e), r1)"
      by (metis surj_pair)
    have e: "e = None"
    proof (rule ccontr)
      assume "e \<noteq> None"
      with rd have "chunks r = []" using conn_Read_Some by blast
      with "1.prems" False show False by (simp add: content_def)
    qed
    with rd have c: "x @ content r1 = content r" "final_err r1 = final_err r" "length x \<le> n"
      using conn_Read_None by blast+
    have l: "n - length x \<le> length (content r1)"
      using "1.prems" c(1,3) by (metis diff_le_mono length_append add_diff_cancel_left')
    obtain r2 where r2: "read_loop (n - length x) r1 = ((take (n - length x) (content r1), None), r2)"
      "content r2 = drop (n - length x) (content r1)" "final_err r2 = final_err r1"
      using "1.IH" [OF False rd [symmetric] refl e l] by blast
    have "take n (content r) = x @ take (n - length x) (content r1)"
      "drop n (content r) = drop (n - length x) (content r1)"
      unfolding c(1) [symmetric] using c(3) by simp_all
    with False rd e r2 c(2) show ?thesis by (simp add: read_loop.simps [of n r])
  qed
qed

lemma read_loop_short:
  "length (content r) < n \<Longrightarrow>
   read_loop n r = ((content r, Some (final_err r)), r\<lparr>chunks := []\<rparr>)"
proof (induction n r rule: read_loop.induct)
  case (1 n r)
  then have n: "n \<noteq> 0" by simp
  obtain x e r1 where rd: "conn_Read n r = ((x, e), r1)"
    by (metis surj_pair)
  show ?case
  proof (cases e)
    case (Some e')
    with rd have "x = []" "e' = final_err r" "r1 = r" "chunks r = []"
      using conn_Read_Some by blast+
    with n rd Some show ?thesis by (simp add: read_loop.simps [of n r] content_def)
  next
    case None
    with rd have c: "x @ content r1 = content r" "final_err r1 = final_err r"
      using conn_Read_None by blast+
    have "length (content r1) < n - length x"
      using "1.prems" by (simp add: c(1) [symmetric])
    then have "read_loop (n - length x) r1 = ((content r1, Some (final_err r1)), r1\<lparr>chunks := []\<rparr>)"
      using "1.IH" [OF n rd [symmetric] refl None] by blast
    moreover have "r1\<lparr>chunks := []\<rparr> = r\<lparr>chunks := []\<rparr>"
      using rd None by (auto simp: conn_Read_def split: list.splits)
    ultimately show ?thesis using n rd None c by (simp add: read_loop.simps [of n r])
  qed
qed

lemma ReadFull_enough:
  assumes "n \<le> length (content r)"
  shows "\<exists>r'. io_ReadFull n r = ((take n (content r), None), r') \<and>
    content r' = drop n (content r) \<and> final_err r' = final_err r"
  using read_loop_enough [OF assms] assms by (auto simp: io_ReadFull_def)

lemma ReadFull_short:
  "length (content r) < n \<Longrightarrow>
   io_ReadFull n r = ((content r,
     Some (if content r \<noteq> [] \<and> final_err r = EOF then UnexpectedEOF else final_err r)),
     r\<lparr>chunks := []\<rparr>)"
  by (auto simp: io_ReadFull_def read_loop_short)

lemma ReadFull_length: "io_ReadFull n r = ((x, None), r') \<Longrightarrow> length x = n"
  using ReadFull_enough [of n r] ReadFull_short [of r n] by (cases "n \<le> length (content r)") auto

text \<open>A read that lies within the first chunk leaves the other chunks alone.\<close>

lemma ReadFull_within:
  assumes "chunks r = (x @ y) # cs" "length x = n" "y \<noteq> []"
  shows "io_ReadFull n r = ((x, None), r\<lparr>chunks := y # cs\<rparr>)"
proof (cases "n = 0")
  case True
  with assms show ?thesis by (simp add: io_ReadFull_def read_loop.simps)
next
  case False
  with assms show ?thesis by (simp add: io_ReadFull_def read_loop.simps [of n] read_loop.simps [of 0] conn_Read_def)
qed

lemma ReadFull_exact:
  assumes "chunks r = x # cs" "length x = n" "x \<noteq> []"
  shows "io_ReadFull n r = ((x, None), r\<lparr>chunks := cs\<rparr>)"
proof -
  have "n \<noteq> 0" using assms by auto
  with assms show ?thesis
    by (simp add: io_ReadFull_def read_loop.simps [of n] read_loop.simps [of 0] conn_Read_def)
qed

section \<open>Big-endian 32-bit integers\<close>

definition be32 :: "u32 \<Rightarrow> gostring" where
  "be32 w = (let n = unat w in
     [byte (n div 16777216), byte (n div 65536 mod 256), byte (n div 256 mod 256), byte (n mod 256)])"

fun be32_value :: "gostring \<Rightarrow> nat" where
  "be32_value [a, b, c, d] = ((code a * 256 + code b) * 256 + code c) * 256 + code d"
| "be32_value _ = 0"

definition be32_int32 :: "gostring \<Rightarrow> int" where
  "be32_int32 bs = sint (word_of_nat (be32_value bs) :: u32)"

lemma length_be32 [simp]: "length (be32 w) = 4"
  by (simp add: be32_def Let_def)

lemma be32_nonempty [simp]: "be32 w \<noteq> []"
  by (simp add: be32_def Let_def)

lemma be32_value_be32: "be32_value (be32 w) = unat w"
proof -
  define n where "n = unat w"
  have n: "n < 4294967296" using unsigned_less [of w, where ?'a = nat] by (simp add: n_def)
  have "n div 16777216 < 256" using n by auto
  moreover have "((n div 16777216 * 256 + n div 65536 mod 256) * 256 + n div 256 mod 256) * 256 + n mod 256 = n"
  proof -
    have 1: "n div 256 * 256 + n mod 256 = n" by simp
    have "n div 65536 = n div 256 div 256" by (simp only: div_mult2_eq [symmetric]) simp
    then have 2: "n div 65536 * 256 + n div 256 mod 256 = n div 256" by simp
    have "n div 16777216 = n div 65536 div 256" by (simp only: div_mult2_eq [symmetric]) simp
    then have 3: "n div 16777216 * 256 + n div 65536 mod 256 = n div 65536" by simp
    show ?thesis by (simp only: 3 2 1)
  qed
  ultimately show ?thesis by (simp add: be32_def Let_def n_def [symmetric])
qed

lemma be32_int32_be32: "be32_int32 (be32 w) = sint w"
  by (simp add: be32_int32_def be32_value_be32)

lemma sint_small32: "n < 2 ^ 31 \<Longrightarrow> sint (word_of_nat n :: u32) = int n"
  by (simp add: signed_of_nat signed_take_bit_int_eq_self)

lemma sint_large32:
  assumes "2 ^ 31 \<le> n" "n < 2 ^ 32"
  shows "sint (word_of_nat n :: u32) < 0"
proof -
  have "n div 2147483648 = 1" using assms by (intro div_nat_eqI) simp_all
  then have "int n div 2147483648 = 1" by (metis int_ops(2) of_nat_numeral zdiv_int)
  then have "bit (int n) 31" by (simp add: bit_iff_odd)
  then show ?thesis by (simp add: signed_of_nat)
qed

end
