(* ===== verification/GoStrings.thy ===== *)
theory GoStrings
  imports Prelude
begin

text \<open>
  The parts of Go's \<open>strings\<close> and \<open>strconv\<close> packages the program calls: splitting and
  joining, prefixes and suffixes, decimal printing and parsing of integers, and the
  laws that connect them.
\<close>

section \<open>Package strings\<close>

text \<open>
  \<open>strings.Split(s, sep)\<close> for a non-empty separator: cut at every leftmost,
  non-overlapping occurrence.  The accumulator holds the current piece, reversed.
\<close>

function split_acc :: "gostring \<Rightarrow> gostring \<Rightarrow> gostring \<Rightarrow> gostring list" where
  "split_acc sep cur [] = [rev cur]"
| "split_acc sep cur (c # s) =
     (if prefix sep (c # s) then rev cur # split_acc sep [] (drop (length sep - 1) s)
      else split_acc sep (c # cur) s)"
  by pat_completeness auto
termination
  by (relation "measure (\<lambda>(sep, cur, s). length s)") auto

definition strings_Split :: "gostring \<Rightarrow> gostring \<Rightarrow> gostring list" where
  "strings_Split s sep = split_acc sep [] s"

text \<open>\<open>strings.Join(elems, sep)\<close>.\<close>

fun strings_Join :: "gostring list \<Rightarrow> gostring \<Rightarrow> gostring" where
  "strings_Join [] sep = []"
| "strings_Join [x] sep = x"
| "strings_Join (x # y # zs) sep = x @ sep @ strings_Join (y # zs) sep"

definition strings_HasPrefix :: "gostring \<Rightarrow> gostring \<Rightarrow> bool" where
  "strings_HasPrefix s p = prefix p s"

definition strings_HasSuffix :: "gostring \<Rightarrow> gostring \<Rightarrow> bool" where
  "strings_HasSuffix s p = suffix p s"

definition strings_TrimPrefix :: "gostring \<Rightarrow> gostring \<Rightarrow> gostring" where
  "strings_TrimPrefix s p = (if prefix p s then drop (length p) s else s)"

definition strings_TrimSuffix :: "gostring \<Rightarrow> gostring \<Rightarrow> gostring" where
  "strings_TrimSuffix s p = (if suffix p s then take (length s - length p) s else s)"

lemma TrimSuffix_append [simp]: "strings_TrimSuffix (s @ p) p = s"
  by (simp add: strings_TrimSuffix_def suffix_def)

lemma HasSuffix_append [simp]: "strings_HasSuffix (s @ p) p"
  by (simp add: strings_HasSuffix_def suffix_def)

lemma TrimPrefix_append [simp]: "strings_TrimPrefix (p @ s) p = s"
  by (simp add: strings_TrimPrefix_def)

lemma split_acc_nonempty [simp]: "split_acc sep cur s \<noteq> []"
  by (induction sep cur s rule: split_acc.induct) auto

lemma Split_nonempty [simp]: "strings_Split s sep \<noteq> []"
  by (simp add: strings_Split_def)

lemma Join_Cons: "ys \<noteq> [] \<Longrightarrow> strings_Join (x # ys) sep = x @ sep @ strings_Join ys sep"
  by (cases ys) auto

lemma Join_append:
  "xs \<noteq> [] \<Longrightarrow> ys \<noteq> [] \<Longrightarrow>
   strings_Join (xs @ ys) sep = strings_Join xs sep @ sep @ strings_Join ys sep"
  by (induction xs sep rule: strings_Join.induct) (auto simp: Join_Cons)

lemma Join_split_acc: "sep \<noteq> [] \<Longrightarrow> strings_Join (split_acc sep cur s) sep = rev cur @ s"
proof (induction sep cur s rule: split_acc.induct)
  case (1 sep cur)
  then show ?case by simp
next
  case (2 sep cur c s)
  show ?case
  proof (cases "prefix sep (c # s)")
    case True
    with "2.prems" obtain t where t: "c # s = sep @ t" "s = tl sep @ t" "sep = c # tl sep"
      by (cases sep) (auto simp: prefix_def)
    have d: "drop (length sep - 1) s = t"
      using t by (metis append_eq_conv_conj length_tl)
    have "strings_Join (split_acc sep [] t) sep = t"
      using "2.IH"(1) True "2.prems" d by simp
    moreover have "split_acc sep cur (c # s) = rev cur # split_acc sep [] t"
      using True d by simp
    ultimately show ?thesis using t(1) by (simp add: Join_Cons)
  next
    case False
    then show ?thesis using "2.IH"(2) "2.prems" by simp
  qed
qed

lemma Join_Split: "sep \<noteq> [] \<Longrightarrow> strings_Join (strings_Split s sep) sep = s"
  by (simp add: strings_Split_def Join_split_acc)

text \<open>Splitting on a single byte: the form every call of the program has.\<close>

lemma split_acc_char_absent:
  "c \<notin> set s \<Longrightarrow> split_acc [c] cur s = [rev cur @ s]"
  by (induction s arbitrary: cur) (auto simp: prefix_def)

lemma split_acc_char_step:
  "c \<notin> set a \<Longrightarrow> split_acc [c] cur (a @ c # s) = (rev cur @ a) # split_acc [c] [] s"
  by (induction a arbitrary: cur) (auto simp: prefix_def)

lemma Split_char_absent: "c \<notin> set s \<Longrightarrow> strings_Split s [c] = [s]"
  by (simp add: strings_Split_def split_acc_char_absent)

lemma Split_char_step:
  "c \<notin> set a \<Longrightarrow> strings_Split (a @ c # s) [c] = a # strings_Split s [c]"
  by (simp add: strings_Split_def split_acc_char_step)

lemma split_acc_char_pieces:
  "c \<notin> set cur \<Longrightarrow> x \<in> set (split_acc [c] cur s) \<Longrightarrow> c \<notin> set x"
proof (induction s arbitrary: cur)
  case Nil
  then show ?case by simp
next
  case (Cons b s)
  show ?case
  proof (cases "b = c")
    case True
    with Cons.prems have "x = rev cur \<or> x \<in> set (split_acc [c] [] s)" by simp
    then show ?thesis using Cons.IH [of "[]"] Cons.prems(1) by auto
  next
    case False
    with Cons.prems have "x \<in> set (split_acc [c] (b # cur) s)" by auto
    with False Cons.prems(1) Cons.IH [of "b # cur"] show ?thesis by auto
  qed
qed

lemma Split_char_pieces: "x \<in> set (strings_Split s [c]) \<Longrightarrow> c \<notin> set x"
  by (rule split_acc_char_pieces [of c "[]"]) (simp_all add: strings_Split_def)

lemma Split_Join_char:
  "xs \<noteq> [] \<Longrightarrow> (\<And>x. x \<in> set xs \<Longrightarrow> c \<notin> set x) \<Longrightarrow> strings_Split (strings_Join xs [c]) [c] = xs"
proof (induction xs)
  case Nil
  then show ?case by simp
next
  case (Cons x xs)
  show ?case
  proof (cases xs)
    case Nil
    with Cons.prems show ?thesis by (simp add: Split_char_absent)
  next
    case (Cons y ys)
    have "strings_Split (strings_Join xs [c]) [c] = xs"
      using Cons.IH Cons.prems Cons by auto
    with Cons Cons.prems show ?thesis by (simp add: Join_Cons Split_char_step)
  qed
qed

section \<open>Package strconv\<close>

definition digit_char :: "nat \<Rightarrow> char" where
  "digit_char d = byte (48 + d)"

definition is_digit :: "char \<Rightarrow> bool" where
  "is_digit c \<longleftrightarrow> 48 \<le> code c \<and> code c \<le> 57"

text \<open>The value of a digit in bases up to 36: decimal digits, then letters of either case.\<close>

definition digit_val :: "char \<Rightarrow> nat option" where
  "digit_val c = (if 48 \<le> code c \<and> code c \<le> 57 then Some (code c - 48)
     else if 97 \<le> code c \<and> code c \<le> 122 then Some (code c - 97 + 10)
     else if 65 \<le> code c \<and> code c \<le> 90 then Some (code c - 65 + 10)
     else None)"

fun parse_digits :: "nat \<Rightarrow> nat \<Rightarrow> gostring \<Rightarrow> nat option" where
  "parse_digits base n [] = Some n"
| "parse_digits base n (c # s) =
     (case digit_val c of None \<Rightarrow> None
      | Some d \<Rightarrow> if base \<le> d then None else parse_digits base (n * base + d) s)"

text \<open>\<open>strconv.ParseUint(s, base, bits)\<close>; \<open>None\<close> stands for its syntax and range errors.\<close>

definition strconv_ParseUint :: "gostring \<Rightarrow> nat \<Rightarrow> nat \<Rightarrow> nat option" where
  "strconv_ParseUint s base bits =
     (if s = [] then None
      else case parse_digits base 0 s of None \<Rightarrow> None
           | Some n \<Rightarrow> if n < 2 ^ bits then Some n else None)"

text \<open>\<open>strconv.ParseInt(s, 10, 64)\<close> and \<open>strconv.Atoi\<close>: an optional sign, then digits.\<close>

definition strconv_ParseInt :: "gostring \<Rightarrow> int option" where
  "strconv_ParseInt s =
     (let neg = (s \<noteq> [] \<and> hd s = CHR ''-'');
          ds = (if s \<noteq> [] \<and> (hd s = CHR ''-'' \<or> hd s = CHR ''+'') then tl s else s)
      in if ds = [] then None
         else case parse_digits 10 0 ds of None \<Rightarrow> None
           | Some n \<Rightarrow> (if neg then (if n \<le> 2 ^ 63 then Some (- int n) else None)
                       else if n < 2 ^ 63 then Some (int n) else None))"

definition strconv_Atoi :: "gostring \<Rightarrow> int option" where
  "strconv_Atoi s = strconv_ParseInt s"

fun show_nat :: "nat \<Rightarrow> gostring" where
  "show_nat n = (if n < 10 then [digit_char n] else show_nat (n div 10) @ [digit_char (n mod 10)])"

declare show_nat.simps [simp del]

definition strconv_Itoa :: "int \<Rightarrow> gostring" where
  "strconv_Itoa i = (if i < 0 then CHR ''-'' # show_nat (nat (- i)) else show_nat (nat i))"

lemma code_digit_char [simp]: "d < 10 \<Longrightarrow> code (digit_char d) = 48 + d"
  by (simp add: digit_char_def)

lemma digit_val_digit_char [simp]: "d < 10 \<Longrightarrow> digit_val (digit_char d) = Some d"
  by (simp add: digit_val_def)

lemma is_digit_digit_char [simp]: "d < 10 \<Longrightarrow> is_digit (digit_char d)"
  by (simp add: is_digit_def)

lemma show_nat_nonempty [simp]: "show_nat n \<noteq> []"
  by (subst show_nat.simps) simp

lemma show_nat_digits: "c \<in> set (show_nat n) \<Longrightarrow> is_digit c"
proof (induction n rule: show_nat.induct)
  case (1 n)
  show ?case
  proof (cases "n < 10")
    case True
    with "1.prems" show ?thesis by (simp add: show_nat.simps [of n])
  next
    case False
    with "1.prems" have "c \<in> set (show_nat (n div 10)) \<or> c = digit_char (n mod 10)"
      by (auto simp: show_nat.simps [of n])
    then show ?thesis using "1.IH" False by auto
  qed
qed

lemma parse_digits_append:
  "parse_digits b n (s @ t) = Option.bind (parse_digits b n s) (\<lambda>m. parse_digits b m t)"
  by (induction s arbitrary: n) (auto split: option.splits)

lemma parse_digits_show_nat: "parse_digits 10 0 (show_nat n) = Some n"
proof (induction n rule: show_nat.induct)
  case (1 n)
  show ?case
  proof (cases "n < 10")
    case True
    then show ?thesis by (simp add: show_nat.simps [of n])
  next
    case False
    then have "parse_digits 10 0 (show_nat (n div 10)) = Some (n div 10)" by (rule "1.IH")
    with False show ?thesis by (simp add: show_nat.simps [of n] parse_digits_append)
  qed
qed

lemma show_nat_leading_zero:
  "hd (show_nat n) = CHR ''0'' \<Longrightarrow> n = 0"
proof (induction n rule: show_nat.induct)
  case (1 n)
  show ?case
  proof (cases "n < 10")
    case True
    then have "hd (show_nat n) = digit_char n" by (simp add: show_nat.simps [of n])
    with "1.prems" have "code (digit_char n) = 48" by simp
    with True show ?thesis by simp
  next
    case False
    then have "hd (show_nat n) = hd (show_nat (n div 10))"
      by (simp add: show_nat.simps [of n])
    with "1.IH" "1.prems" False have "n div 10 = 0" by simp
    with False show ?thesis by simp
  qed
qed

lemma ParseUint_show_nat: "n < 2 ^ bits \<Longrightarrow> strconv_ParseUint (show_nat n) 10 bits = Some n"
  by (simp add: strconv_ParseUint_def parse_digits_show_nat)

lemma ParseInt_Itoa:
  assumes "- (2 ^ 63) \<le> i" and "i < 2 ^ 63"
  shows "strconv_ParseInt (strconv_Itoa i) = Some i"
proof (cases "i < 0")
  case True
  then show ?thesis using assms
    by (simp add: strconv_ParseInt_def strconv_Itoa_def parse_digits_show_nat)
next
  case False
  have d: "is_digit (hd (show_nat (nat i)))"
    by (rule show_nat_digits [OF hd_in_set]) simp
  then have "hd (show_nat (nat i)) \<noteq> CHR ''-''" "hd (show_nat (nat i)) \<noteq> CHR ''+''"
    by (auto simp: is_digit_def)
  then show ?thesis using False assms
    by (simp add: strconv_ParseInt_def strconv_Itoa_def parse_digits_show_nat)
qed

lemma Atoi_Itoa:
  "- (2 ^ 63) \<le> i \<Longrightarrow> i < 2 ^ 63 \<Longrightarrow> strconv_Atoi (strconv_Itoa i) = Some i"
  by (simp add: strconv_Atoi_def ParseInt_Itoa)

lemma parse_digits_acc_le: "0 < b \<Longrightarrow> parse_digits b n s = Some m \<Longrightarrow> n \<le> m"
proof (induction s arbitrary: n)
  case Nil
  then show ?case by simp
next
  case (Cons c s)
  then obtain d where "parse_digits b (n * b + d) s = Some m"
    by (auto split: option.splits if_splits)
  then have "n * b + d \<le> m" using Cons by blast
  moreover have "n \<le> n * b" using Cons.prems(1) by simp
  ultimately show ?case by linarith
qed

end
