(* ===== verification/GoUtf8.thy ===== *)
theory GoUtf8
  imports Prelude
begin

text \<open>
  Go's \<open>unicode/utf8\<close>: decoding and encoding of one rune, the rune sequence a
  \<open>for range\<close> loop over a string visits, validity, and the replacement of malformed
  bytes by U+FFFD.  The laws: encoding a decoded rune gives its bytes back, and a
  string is unchanged by the replacement exactly when it is valid.
\<close>

definition RuneError :: nat where
  "RuneError = 65533"

definition is_cont :: "char \<Rightarrow> bool" where
  "is_cont c \<longleftrightarrow> 128 \<le> code c \<and> code c \<le> 191"

text \<open>The accepted range of the second byte, by the first (\<open>utf8.acceptRanges\<close>).\<close>

definition second_lo :: "nat \<Rightarrow> nat" where
  "second_lo x = (if x = 224 then 160 else if x = 240 then 144 else 128)"

definition second_hi :: "nat \<Rightarrow> nat" where
  "second_hi x = (if x = 237 then 159 else if x = 244 then 143 else 191)"

text \<open>\<open>utf8.DecodeRune\<close>: the rune and its width; a malformed sequence is (U+FFFD, 1).\<close>

fun DecodeRune :: "gostring \<Rightarrow> nat \<times> nat" where
  "DecodeRune [] = (RuneError, 0)"
| "DecodeRune (a # s) =
     (let x = code a in
      if x < 128 then (x, 1)
      else if 194 \<le> x \<and> x \<le> 223 then
        (case s of b # _ \<Rightarrow>
           if is_cont b then ((x - 192) * 64 + (code b - 128), 2) else (RuneError, 1)
         | _ \<Rightarrow> (RuneError, 1))
      else if 224 \<le> x \<and> x \<le> 239 then
        (case s of b # c # _ \<Rightarrow>
           if second_lo x \<le> code b \<and> code b \<le> second_hi x \<and> is_cont c
           then ((x - 224) * 4096 + (code b - 128) * 64 + (code c - 128), 3)
           else (RuneError, 1)
         | _ \<Rightarrow> (RuneError, 1))
      else if 240 \<le> x \<and> x \<le> 244 then
        (case s of b # c # d # _ \<Rightarrow>
           if second_lo x \<le> code b \<and> code b \<le> second_hi x \<and> is_cont c \<and> is_cont d
           then ((x - 240) * 262144 + (code b - 128) * 4096 + (code c - 128) * 64 + (code d - 128), 4)
           else (RuneError, 1)
         | _ \<Rightarrow> (RuneError, 1))
      else (RuneError, 1))"

text \<open>\<open>utf8.EncodeRune\<close>; a surrogate or a number beyond U+10FFFF encodes as U+FFFD.\<close>

definition EncodeRune :: "nat \<Rightarrow> gostring" where
  "EncodeRune r =
     (if r < 128 then [byte r]
      else if r < 2048 then [byte (192 + r div 64), byte (128 + r mod 64)]
      else if (55296 \<le> r \<and> r \<le> 57343) \<or> 1114111 < r then [byte 239, byte 191, byte 189]
      else if r < 65536 then
        [byte (224 + r div 4096), byte (128 + r div 64 mod 64), byte (128 + r mod 64)]
      else [byte (240 + r div 262144), byte (128 + r div 4096 mod 64),
            byte (128 + r div 64 mod 64), byte (128 + r mod 64)])"

definition malformed :: "gostring \<Rightarrow> bool" where
  "malformed s \<longleftrightarrow> DecodeRune s = (RuneError, 1)"

lemma DecodeRune_ascii [simp]: "code a < 128 \<Longrightarrow> DecodeRune (a # s) = (code a, 1)"
  by simp

lemma DecodeRune_width:
  "s \<noteq> [] \<Longrightarrow> 1 \<le> snd (DecodeRune s) \<and> snd (DecodeRune s) \<le> length s"
  by (cases s) (auto simp: Let_def split: list.splits)

lemma DecodeRune_nonascii: "128 \<le> code a \<Longrightarrow> 128 \<le> fst (DecodeRune (a # s))"
  by (auto simp: Let_def RuneError_def second_lo_def is_cont_def split: list.splits)

lemma is_contE:
  assumes "is_cont c"
  obtains n where "code c = 128 + n" and "n < 64"
proof (rule that [of "code c - 128"])
  from assms have "128 \<le> code c" and "code c \<le> 191" by (simp_all add: is_cont_def)
  then show "code c = 128 + (code c - 128)" and "code c - 128 < 64" by linarith+
qed

subsection \<open>Encoding a decoded rune\<close>

lemma EncodeRune_two:
  assumes "194 \<le> x" "x \<le> 223" "y < 64"
  shows "EncodeRune ((x - 192) * 64 + y) = [byte x, byte (128 + y)]"
proof -
  let ?r = "(x - 192) * 64 + y"
  have "128 \<le> ?r" "?r < 2048" "192 + ?r div 64 = x" "?r mod 64 = y"
    using assms by auto
  then show ?thesis by (simp add: EncodeRune_def)
qed

lemma base64_step:
  fixes q z :: nat
  assumes "z < 64"
  shows "(q * 64 + z) div 64 = q" and "(q * 64 + z) mod 64 = z"
  using assms by simp_all

lemma base64_digits3:
  fixes k y z :: nat
  assumes "y < 64" "z < 64"
  shows "(k * 4096 + y * 64 + z) div 4096 = k" "(k * 4096 + y * 64 + z) div 64 mod 64 = y"
    "(k * 4096 + y * 64 + z) mod 64 = z"
proof -
  have r: "k * 4096 + y * 64 + z = (k * 64 + y) * 64 + z" by simp
  have q: "(k * 4096 + y * 64 + z) div 64 = k * 64 + y"
    unfolding r using assms(2) by (rule base64_step)
  show "(k * 4096 + y * 64 + z) mod 64 = z"
    unfolding r using assms(2) by (rule base64_step)
  show "(k * 4096 + y * 64 + z) div 64 mod 64 = y"
    unfolding q using assms(1) by (rule base64_step)
  have "(k * 4096 + y * 64 + z) div 64 div 64 = k"
    unfolding q using assms(1) by (rule base64_step)
  then show "(k * 4096 + y * 64 + z) div 4096 = k"
    by (simp add: div_mult2_eq [symmetric])
qed

lemma base64_digits4:
  fixes k y z w :: nat
  assumes "y < 64" "z < 64" "w < 64"
  shows "(k * 262144 + y * 4096 + z * 64 + w) div 262144 = k"
    "(k * 262144 + y * 4096 + z * 64 + w) div 4096 mod 64 = y"
    "(k * 262144 + y * 4096 + z * 64 + w) div 64 mod 64 = z"
    "(k * 262144 + y * 4096 + z * 64 + w) mod 64 = w"
proof -
  let ?r = "k * 262144 + y * 4096 + z * 64 + w"
  have r: "?r = (k * 4096 + y * 64 + z) * 64 + w" by simp
  have q: "?r div 64 = k * 4096 + y * 64 + z"
    unfolding r using assms(3) by (rule base64_step)
  show "?r mod 64 = w" unfolding r using assms(3) by (rule base64_step)
  show "?r div 64 mod 64 = z" unfolding q using assms(1,2) by (rule base64_digits3)
  have "?r div 4096 = ?r div 64 div 64" by (simp only: div_mult2_eq [symmetric]) simp
  also have "\<dots> mod 64 = y" unfolding q using assms(1,2) by (rule base64_digits3)
  finally show "?r div 4096 mod 64 = y" .
  have "?r div 262144 = ?r div 64 div 4096" by (simp only: div_mult2_eq [symmetric]) simp
  also have "\<dots> = k" unfolding q using assms(1,2) by (rule base64_digits3)
  finally show "?r div 262144 = k" .
qed

lemma EncodeRune_three:
  assumes "224 \<le> x" "x \<le> 239" "y < 64" "z < 64" "x = 224 \<Longrightarrow> 32 \<le> y" "x = 237 \<Longrightarrow> y < 32"
  shows "EncodeRune ((x - 224) * 4096 + y * 64 + z) = [byte x, byte (128 + y), byte (128 + z)]"
proof -
  define k where "k = x - 224"
  have k: "x = 224 + k" "k < 16" using assms by (auto simp: k_def)
  let ?r = "k * 4096 + y * 64 + z"
  note d = base64_digits3 [OF assms(3,4), of k]
  have lo: "2048 \<le> ?r" using k assms(5) by (cases "k = 0") auto
  have hi: "?r < 65536" using k assms by linarith
  have sur: "\<not> (55296 \<le> ?r \<and> ?r \<le> 57343)"
  proof (cases "k = 13")
    case True
    with k assms(6) have "y < 32" by simp
    with True assms(4) show ?thesis by simp
  next
    case False
    then consider "k \<le> 12" | "14 \<le> k" by linarith
    then show ?thesis using assms(3,4) by cases linarith+
  qed
  from d lo hi sur have "EncodeRune ?r = [byte (224 + k), byte (128 + y), byte (128 + z)]"
    by (simp add: EncodeRune_def)
  then show ?thesis by (simp add: k)
qed

lemma EncodeRune_four:
  assumes "240 \<le> x" "x \<le> 244" "y < 64" "z < 64" "w < 64"
    and "x = 240 \<Longrightarrow> 16 \<le> y" "x = 244 \<Longrightarrow> y < 16"
  shows "EncodeRune ((x - 240) * 262144 + y * 4096 + z * 64 + w) =
    [byte x, byte (128 + y), byte (128 + z), byte (128 + w)]"
proof -
  define k where "k = x - 240"
  have k: "x = 240 + k" "k < 5" using assms by (auto simp: k_def)
  let ?r = "k * 262144 + y * 4096 + z * 64 + w"
  note d = base64_digits4 [OF assms(3-5), of k]
  have lo: "65536 \<le> ?r" using k assms(6) by (cases "k = 0") auto
  have hi: "?r \<le> 1114111"
  proof (cases "k = 4")
    case True
    with k assms(7) have "y < 16" by simp
    with True assms(4,5) show ?thesis by simp
  next
    case False
    with k have "k \<le> 3" by simp
    with assms(3-5) show ?thesis by linarith
  qed
  from d lo hi have "EncodeRune ?r = [byte (240 + k), byte (128 + y), byte (128 + z), byte (128 + w)]"
    by (simp add: EncodeRune_def)
  then show ?thesis by (simp add: k)
qed

lemma byte_code [simp]: "code c = n \<Longrightarrow> byte n = c"
  by auto

lemma second_contE:
  assumes "second_lo x \<le> code b" "code b \<le> second_hi x"
  obtains y where "code b = 128 + y" "y < 64"
    "x = 224 \<Longrightarrow> 32 \<le> y" "x = 237 \<Longrightarrow> y < 32" "x = 240 \<Longrightarrow> 16 \<le> y" "x = 244 \<Longrightarrow> y < 16"
proof (rule that [of "code b - 128"])
  have "128 \<le> second_lo x" "second_hi x \<le> 191" by (auto simp: second_lo_def second_hi_def)
  with assms have b: "128 \<le> code b" "code b \<le> 191" by linarith+
  then show "code b = 128 + (code b - 128)" "code b - 128 < 64" by linarith+
  show "x = 224 \<Longrightarrow> 32 \<le> code b - 128" "x = 237 \<Longrightarrow> code b - 128 < 32"
    "x = 240 \<Longrightarrow> 16 \<le> code b - 128" "x = 244 \<Longrightarrow> code b - 128 < 16"
    using assms b by (auto simp: second_lo_def second_hi_def)
qed

text \<open>The four shapes of a well-formed rune at the front of a string.\<close>

lemma wellformed_cases:
  assumes "s \<noteq> []" and "\<not> malformed s"
  obtains (one) a u where "s = a # u" "code a < 128"
  | (two) a b u where "s = a # b # u" "194 \<le> code a" "code a \<le> 223" "is_cont b"
  | (three) a b c u where "s = a # b # c # u" "224 \<le> code a" "code a \<le> 239"
      "second_lo (code a) \<le> code b" "code b \<le> second_hi (code a)" "is_cont c"
  | (four) a b c d u where "s = a # b # c # d # u" "240 \<le> code a" "code a \<le> 244"
      "second_lo (code a) \<le> code b" "code b \<le> second_hi (code a)" "is_cont c" "is_cont d"
proof -
  obtain a t where s: "s = a # t" using assms(1) by (cases s) auto
  let ?x = "code a"
  have ok: "DecodeRune (a # t) \<noteq> (RuneError, 1)" using assms s by (simp add: malformed_def)
  have "\<not> (128 \<le> ?x \<and> ?x \<le> 193 \<or> 245 \<le> ?x)"
  proof
    assume "128 \<le> ?x \<and> ?x \<le> 193 \<or> 245 \<le> ?x"
    then have "DecodeRune (a # t) = (RuneError, 1)" by (auto simp: Let_def)
    with ok show False ..
  qed
  then consider "?x < 128" | "194 \<le> ?x" "?x \<le> 223" | "224 \<le> ?x" "?x \<le> 239" | "240 \<le> ?x" "?x \<le> 244"
    by linarith
  then show thesis
  proof cases
    case 1
    with s show thesis by (rule one)
  next
    case 2
    with ok obtain b u where "t = b # u" "is_cont b"
      by (auto simp: Let_def split: list.splits if_splits)
    with 2 s show thesis using two by blast
  next
    case 3
    with ok obtain b c u where "t = b # c # u" "second_lo ?x \<le> code b" "code b \<le> second_hi ?x" "is_cont c"
      by (auto simp: Let_def split: list.splits if_splits)
    with 3 s show thesis using three by blast
  next
    case 4
    with ok obtain b c d u where "t = b # c # d # u" "second_lo ?x \<le> code b" "code b \<le> second_hi ?x"
      "is_cont c" "is_cont d"
      by (auto simp: Let_def split: list.splits if_splits)
    with 4 s show thesis using four by blast
  qed
qed

lemma DecodeRune_take:
  assumes "s \<noteq> []" "\<not> malformed s"
  shows "DecodeRune (take (snd (DecodeRune s)) s @ t) = DecodeRune s"
  using assms by (cases rule: wellformed_cases) simp_all

lemma EncodeRune_DecodeRune:
  assumes "s \<noteq> []" and "\<not> malformed s"
  shows "EncodeRune (fst (DecodeRune s)) = take (snd (DecodeRune s)) s"
  using assms
proof (cases rule: wellformed_cases)
  case (one a u)
  then show ?thesis by (simp add: EncodeRune_def)
next
  case (two a b u)
  from two(4) obtain y where y: "code b = 128 + y" "y < 64" by (rule is_contE)
  with two show ?thesis using EncodeRune_two [OF two(2,3) y(2)] by simp
next
  case (three a b c u)
  from three(4,5) obtain y where y: "code b = 128 + y" "y < 64"
    "code a = 224 \<Longrightarrow> 32 \<le> y" "code a = 237 \<Longrightarrow> y < 32"
    by (rule second_contE) auto
  from three(6) obtain z where z: "code c = 128 + z" "z < 64" by (rule is_contE)
  have "DecodeRune s = ((code a - 224) * 4096 + y * 64 + z, 3)" using three y z by simp
  then show ?thesis using EncodeRune_three [OF three(2,3) y(2) z(2) y(3,4)] y z three(1) by simp
next
  case (four a b c d u)
  from four(4,5) obtain y where y: "code b = 128 + y" "y < 64"
    "code a = 240 \<Longrightarrow> 16 \<le> y" "code a = 244 \<Longrightarrow> y < 16"
    by (rule second_contE) auto
  from four(6) obtain z where z: "code c = 128 + z" "z < 64" by (rule is_contE)
  from four(7) obtain w where w: "code d = 128 + w" "w < 64" by (rule is_contE)
  have "DecodeRune s = ((code a - 240) * 262144 + y * 4096 + z * 64 + w, 4)"
    using four y z w by simp
  then show ?thesis using EncodeRune_four [OF four(2,3) y(2) z(2) w(2) y(3,4)] y z w four(1) by simp
qed

section \<open>Rune sequences, validity, replacement\<close>

text \<open>The runes a \<open>for _, r := range s\<close> loop visits.\<close>

function runes :: "gostring \<Rightarrow> nat list" where
  "runes [] = []"
| "runes (a # s) =
     fst (DecodeRune (a # s)) # runes (drop (snd (DecodeRune (a # s)) - 1) s)"
  by pat_completeness auto
termination
  by (relation "measure length") auto

text \<open>\<open>utf8.ValidString\<close>.\<close>

function ValidString :: "gostring \<Rightarrow> bool" where
  "ValidString [] = True"
| "ValidString (a # s) =
     (\<not> malformed (a # s) \<and> ValidString (drop (snd (DecodeRune (a # s)) - 1) s))"
  by pat_completeness auto
termination
  by (relation "measure length") auto

text \<open>Every malformed byte replaced by the three bytes of U+FFFD.\<close>

definition sanitize :: "gostring \<Rightarrow> gostring" where
  "sanitize s = concat (map EncodeRune (runes s))"

lemma sanitize_Nil [simp]: "sanitize [] = []"
  by (simp add: sanitize_def)

lemma sanitize_Cons:
  "sanitize (a # s) = EncodeRune (fst (DecodeRune (a # s))) @
     sanitize (drop (snd (DecodeRune (a # s)) - 1) s)"
  by (simp add: sanitize_def del: DecodeRune.simps)

lemma drop_width:
  "s \<noteq> [] \<Longrightarrow> drop (snd (DecodeRune s)) s = drop (snd (DecodeRune s) - 1) (tl s)"
  using DecodeRune_width [of s] by (cases s) (auto simp: drop_Cons' simp del: DecodeRune.simps)

lemma sanitize_valid: "ValidString s \<Longrightarrow> sanitize s = s"
proof (induction s rule: ValidString.induct)
  case 1
  show ?case by simp
next
  case (2 a s)
  let ?n = "snd (DecodeRune (a # s))"
  have "EncodeRune (fst (DecodeRune (a # s))) = take ?n (a # s)"
    using 2 by (intro EncodeRune_DecodeRune) (auto simp del: DecodeRune.simps)
  moreover have "sanitize (drop (?n - 1) s) = drop (?n - 1) s"
    using 2 by (auto simp del: DecodeRune.simps)
  moreover have "drop (?n - 1) s = drop ?n (a # s)"
    using drop_width [of "a # s"] by (simp del: DecodeRune.simps)
  ultimately show ?case by (simp only: sanitize_Cons append_take_drop_id)
qed

lemma sanitize_empty_iff [simp]: "sanitize s = [] \<longleftrightarrow> s = []"
  by (cases s) (auto simp: sanitize_Cons EncodeRune_def simp del: DecodeRune.simps)

lemma ValidString_ascii: "(\<And>c. c \<in> set s \<Longrightarrow> code c < 128) \<Longrightarrow> ValidString s"
proof (induction s)
  case Nil
  show ?case by simp
next
  case (Cons a s)
  then have a: "code a < 128" by simp
  then have "code a \<noteq> RuneError" by (simp add: RuneError_def)
  with a Cons show ?case by (simp add: malformed_def)
qed

lemma runes_ascii: "(\<And>c. c \<in> set s \<Longrightarrow> code c < 128) \<Longrightarrow> runes s = map code s"
  by (induction s) auto

text \<open>A test on runes that rejects every rune from 128 on is a test on bytes.\<close>

lemma runes_ascii_test:
  assumes "\<And>r. P r \<Longrightarrow> r < 128"
  shows "list_all P (runes s) \<longleftrightarrow> list_all (\<lambda>c. P (code c)) s"
proof (induction s rule: runes.induct)
  case 1
  show ?case by simp
next
  case (2 a s)
  show ?case
  proof (cases "code a < 128")
    case True
    then show ?thesis using 2 by simp
  next
    case False
    then have "\<not> P (code a)" "\<not> P (fst (DecodeRune (a # s)))"
      using assms [of "code a"] assms [of "fst (DecodeRune (a # s))"] DecodeRune_nonascii [of a s]
      by (auto simp del: DecodeRune.simps)
    then show ?thesis by (simp del: DecodeRune.simps)
  qed
qed

declare DecodeRune.simps(2) [simp del]

lemma DecodeRune_ascii' [simp]: "code a < 128 \<Longrightarrow> DecodeRune (a # s) = (code a, Suc 0)"
  by (simp add: DecodeRune.simps)

end
