(* ===== verification/GoJson.thy ===== *)
theory GoJson
  imports GoStrings GoUtf8
begin

text \<open>
  Go's \<open>encoding/json\<close> as far as the program uses it: flat structs whose fields are
  strings, 64-bit integers, bytes and booleans, each tagged \<open>omitempty\<close>.  A struct is
  what reflection sees of it, a table of tagged fields.  \<open>Marshal\<close> prints a table;
  \<open>Unmarshal\<close> parses a whole document first and then stores its members in the
  table: by exact name, else by case-folded name, unknown members ignored, \<open>null\<close> a
  no-op, a value of the wrong type an error.  The main law: what \<open>Marshal\<close> prints,
  \<open>Unmarshal\<close> reads back, up to the replacement of malformed UTF-8.
\<close>

section \<open>Field tables\<close>

datatype fval = FStr gostring | FI64 i64 | FU8 u8 | FBool bool

type_synonym field_table = "(gostring \<times> fval) list"

fun zero_val :: "fval \<Rightarrow> fval" where
  "zero_val (FStr _) = FStr []"
| "zero_val (FI64 _) = FI64 0"
| "zero_val (FU8 _) = FU8 0"
| "zero_val (FBool _) = FBool False"

definition is_empty_val :: "fval \<Rightarrow> bool" where
  "is_empty_val v \<longleftrightarrow> v = zero_val v"

definition zero_table :: "field_table \<Rightarrow> field_table" where
  "zero_table t = map (\<lambda>(n, v). (n, zero_val v)) t"

fun sanitize_val :: "fval \<Rightarrow> fval" where
  "sanitize_val (FStr s) = FStr (sanitize s)"
| "sanitize_val v = v"

definition sanitize_table :: "field_table \<Rightarrow> field_table" where
  "sanitize_table t = map (\<lambda>(n, v). (n, sanitize_val v)) t"

section \<open>Marshal\<close>

definition quote :: char where "quote = CHR 0x22"
definition backslash :: char where "backslash = CHR 0x5C"

definition hex_digit :: "nat \<Rightarrow> char" where
  "hex_digit d = (if d < 10 then byte (48 + d) else byte (87 + d))"

text \<open>One byte below 0x80, with the HTML-safe escaping that \<open>Marshal\<close> applies.\<close>

definition escape_ascii :: "char \<Rightarrow> gostring" where
  "escape_ascii c =
     (if c = backslash \<or> c = quote then [backslash, c]
      else if c = CHR 0x0A then [backslash, CHR ''n'']
      else if c = CHR 0x0D then [backslash, CHR ''r'']
      else if c = CHR 0x09 then [backslash, CHR ''t'']
      else if code c < 32 \<or> c = CHR ''<'' \<or> c = CHR ''>'' \<or> c = CHR ''&'' then
        [backslash, CHR ''u'', CHR ''0'', CHR ''0'', hex_digit (code c div 16), hex_digit (code c mod 16)]
      else [c])"

definition escape_rune :: "gostring \<Rightarrow> gostring" where
  "escape_rune s =
     (let (r, n) = DecodeRune s in
      if r = RuneError \<and> n = 1 then backslash # ''ufffd''
      else if r = 8232 \<or> r = 8233 then backslash # ''u202'' @ [hex_digit (r mod 16)]
      else take n s)"

function escape :: "gostring \<Rightarrow> gostring" where
  "escape [] = []"
| "escape (a # s) =
     (if code a < 128 then escape_ascii a @ escape s
      else escape_rune (a # s) @ escape (drop (snd (DecodeRune (a # s)) - 1) s))"
  by pat_completeness auto
termination
  by (relation "measure length") auto

definition json_string :: "gostring \<Rightarrow> gostring" where
  "json_string s = quote # escape s @ [quote]"

fun json_value :: "fval \<Rightarrow> gostring" where
  "json_value (FStr s) = json_string s"
| "json_value (FI64 i) = strconv_Itoa (sint i)"
| "json_value (FU8 n) = strconv_Itoa (int (unat n))"
| "json_value (FBool b) = (if b then ''true'' else ''false'')"

fun json_member :: "gostring \<times> fval \<Rightarrow> gostring" where
  "json_member (n, v) = json_string n @ CHR '':'' # json_value v"

definition json_Marshal :: "field_table \<Rightarrow> gostring" where
  "json_Marshal t =
     ''{'' @ strings_Join (map json_member (filter (\<lambda>(n, v). \<not> is_empty_val v) t)) '','' @ ''}''"

section \<open>Scanning a document\<close>

datatype json =
    JNull
  | JBool bool
  | JNum gostring
  | JStr gostring
  | JArr "json list"
  | JObj "(gostring \<times> json) list"

definition is_space :: "char \<Rightarrow> bool" where
  "is_space c \<longleftrightarrow> c = CHR '' '' \<or> c = CHR 0x09 \<or> c = CHR 0x0D \<or> c = CHR 0x0A"

definition skip_space :: "gostring \<Rightarrow> gostring" where
  "skip_space s = dropWhile is_space s"

definition hex_val :: "char \<Rightarrow> nat option" where
  "hex_val c = (case digit_val c of None \<Rightarrow> None | Some d \<Rightarrow> if d < 16 then Some d else None)"

definition hex4 :: "gostring \<Rightarrow> nat option" where
  "hex4 s = (if length s < 4 then None else parse_digits 16 0 (take 4 s))"

definition simple_escape :: "char \<Rightarrow> char option" where
  "simple_escape e =
     (if e = quote \<or> e = backslash \<or> e = CHR ''/'' then Some e
      else if e = CHR ''b'' then Some (CHR 0x08)
      else if e = CHR ''f'' then Some (CHR 0x0C)
      else if e = CHR ''n'' then Some (CHR 0x0A)
      else if e = CHR ''r'' then Some (CHR 0x0D)
      else if e = CHR ''t'' then Some (CHR 0x09)
      else None)"

definition is_surrogate :: "nat \<Rightarrow> bool" where
  "is_surrogate r \<longleftrightarrow> 55296 \<le> r \<and> r < 57344"

text \<open>A second escape that completes a surrogate pair; it takes six bytes.\<close>

definition low_surrogate :: "nat \<Rightarrow> gostring \<Rightarrow> nat option" where
  "low_surrogate hi s =
     (if hi < 56320 \<and> take 2 s = [backslash, CHR ''u'']
      then case hex4 (drop 2 s) of None \<Rightarrow> None
        | Some lo \<Rightarrow> if 56320 \<le> lo \<and> lo < 57344
            then Some ((hi - 55296) * 1024 + (lo - 56320) + 65536) else None
      else None)"

definition prepend :: "gostring \<Rightarrow> (gostring \<times> gostring) option \<Rightarrow> (gostring \<times> gostring) option" where
  "prepend p r = (case r of None \<Rightarrow> None | Some (s, rest) \<Rightarrow> Some (p @ s, rest))"

text \<open>
  The rest of a string literal after its opening quote: its value and what follows the
  closing quote.
\<close>

function scan_string :: "gostring \<Rightarrow> (gostring \<times> gostring) option" where
  "scan_string [] = None"
| "scan_string (a # s) =
     (if a = quote then Some ([], s)
      else if a = backslash then
        (case s of [] \<Rightarrow> None
         | e # t \<Rightarrow>
           if e = CHR ''u'' then
             (case hex4 t of None \<Rightarrow> None
              | Some r \<Rightarrow>
                if is_surrogate r then
                  (case low_surrogate r (drop 4 t) of
                     Some p \<Rightarrow> prepend (EncodeRune p) (scan_string (drop 10 t))
                   | None \<Rightarrow> prepend (EncodeRune RuneError) (scan_string (drop 4 t)))
                else prepend (EncodeRune r) (scan_string (drop 4 t)))
           else (case simple_escape e of None \<Rightarrow> None
                 | Some c \<Rightarrow> prepend [c] (scan_string t)))
      else if code a < 32 then None
      else if code a < 128 then prepend [a] (scan_string s)
      else prepend (EncodeRune (fst (DecodeRune (a # s))))
             (scan_string (drop (snd (DecodeRune (a # s)) - 1) s)))"
  by pat_completeness auto
termination
  by (relation "measure length") auto

text \<open>A number literal: sign, integer part without leading zeros, fraction, exponent.\<close>

definition scan_int_part :: "gostring \<Rightarrow> (gostring \<times> gostring) option" where
  "scan_int_part s =
     (let ds = takeWhile is_digit s in
      if ds = [] then None
      else let ip = (if hd ds = CHR ''0'' then [hd ds] else ds)
           in Some (ip, drop (length ip) s))"

definition scan_fraction :: "gostring \<Rightarrow> (gostring \<times> gostring) option" where
  "scan_fraction s =
     (if s \<noteq> [] \<and> hd s = CHR ''.'' then
        (let ds = takeWhile is_digit (tl s) in
         if ds = [] then None else Some (CHR ''.'' # ds, drop (length ds) (tl s)))
      else Some ([], s))"

definition scan_exponent :: "gostring \<Rightarrow> (gostring \<times> gostring) option" where
  "scan_exponent s =
     (if s \<noteq> [] \<and> (hd s = CHR ''e'' \<or> hd s = CHR ''E'') then
        (let t = tl s;
             sg = (if t \<noteq> [] \<and> (hd t = CHR ''+'' \<or> hd t = CHR ''-'') then [hd t] else []);
             u = drop (length sg) t;
             ds = takeWhile is_digit u
         in if ds = [] then None else Some (hd s # sg @ ds, drop (length ds) u))
      else Some ([], s))"

definition scan_number :: "gostring \<Rightarrow> (gostring \<times> gostring) option" where
  "scan_number s =
     (let sg = (if s \<noteq> [] \<and> hd s = CHR ''-'' then ''-'' else []) in
      case scan_int_part (drop (length sg) s) of None \<Rightarrow> None
      | Some (ip, s1) \<Rightarrow>
        (case scan_fraction s1 of None \<Rightarrow> None
         | Some (fp, s2) \<Rightarrow>
           (case scan_exponent s2 of None \<Rightarrow> None
            | Some (ep, s3) \<Rightarrow> Some (sg @ ip @ fp @ ep, s3))))"

text \<open>
  Values, with the scanner's nesting limit of 10000.  The first argument is fuel: every
  two units are paid for by a byte of input, so twice the length of the document is
  enough (\<open>scan_fuel_enough\<close> in \<open>GoJsonLaws\<close>).
\<close>

definition max_nesting :: nat where
  "max_nesting = 10000"

fun scan_value :: "nat \<Rightarrow> nat \<Rightarrow> gostring \<Rightarrow> (json \<times> gostring) option"
and scan_elems :: "nat \<Rightarrow> nat \<Rightarrow> gostring \<Rightarrow> (json list \<times> gostring) option"
and scan_members :: "nat \<Rightarrow> nat \<Rightarrow> gostring \<Rightarrow> ((gostring \<times> json) list \<times> gostring) option" where
  "scan_value 0 d s = None"
| "scan_value (Suc f) d s =
     (case skip_space s of [] \<Rightarrow> None
      | c # t \<Rightarrow>
        if c = CHR ''{'' then
          (if max_nesting \<le> d then None
           else case skip_space t of [] \<Rightarrow> None
             | b # u \<Rightarrow> if b = CHR ''}'' then Some (JObj [], u)
                 else map_option (apfst JObj) (scan_members f (Suc d) (b # u)))
        else if c = CHR ''['' then
          (if max_nesting \<le> d then None
           else case skip_space t of [] \<Rightarrow> None
             | b # u \<Rightarrow> if b = CHR '']'' then Some (JArr [], u)
                 else map_option (apfst JArr) (scan_elems f (Suc d) (b # u)))
        else if c = quote then map_option (apfst JStr) (scan_string t)
        else if c = CHR ''t'' then (if take 3 t = ''rue'' then Some (JBool True, drop 3 t) else None)
        else if c = CHR ''f'' then (if take 4 t = ''alse'' then Some (JBool False, drop 4 t) else None)
        else if c = CHR ''n'' then (if take 3 t = ''ull'' then Some (JNull, drop 3 t) else None)
        else map_option (apfst JNum) (scan_number (c # t)))"
| "scan_elems 0 d s = None"
| "scan_elems (Suc f) d s =
     (case scan_value f d s of None \<Rightarrow> None
      | Some (v, t) \<Rightarrow>
        (case skip_space t of [] \<Rightarrow> None
         | c # u \<Rightarrow>
           if c = CHR '','' then map_option (apfst ((#) v)) (scan_elems f d u)
           else if c = CHR '']'' then Some ([v], u)
           else None))"
| "scan_members 0 d s = None"
| "scan_members (Suc f) d s =
     (case skip_space s of [] \<Rightarrow> None
      | q # t \<Rightarrow>
        if q \<noteq> quote then None
        else case scan_string t of None \<Rightarrow> None
          | Some (k, t1) \<Rightarrow>
            (case skip_space t1 of [] \<Rightarrow> None
             | c # t2 \<Rightarrow>
               if c \<noteq> CHR '':'' then None
               else case scan_value f d t2 of None \<Rightarrow> None
                 | Some (v, t3) \<Rightarrow>
                   (case skip_space t3 of [] \<Rightarrow> None
                    | e # t4 \<Rightarrow>
                      if e = CHR '','' then map_option (apfst ((#) (k, v))) (scan_members f d t4)
                      else if e = CHR ''}'' then Some ([(k, v)], t4)
                      else None)))"

definition json_scan :: "gostring \<Rightarrow> json option" where
  "json_scan s =
     (case scan_value (Suc (2 * length s)) 0 s of None \<Rightarrow> None
      | Some (v, t) \<Rightarrow> if skip_space t = [] then Some v else None)"

section \<open>Unmarshal\<close>

text \<open>The simple case folding of a member name against the ASCII field names.\<close>

fun fold_name :: "gostring \<Rightarrow> gostring" where
  "fold_name [] = []"
| "fold_name (a # s) =
     (if code a < 128 then
        (if 97 \<le> code a \<and> code a \<le> 122 then byte (code a - 32) else a) # fold_name s
      else if take 2 (a # s) = [byte 197, byte 191] then CHR ''S'' # fold_name (drop 1 s)
      else if take 3 (a # s) = [byte 226, byte 132, byte 170] then CHR ''K'' # fold_name (drop 2 s)
      else a # fold_name s)"

definition find_field :: "field_table \<Rightarrow> gostring \<Rightarrow> gostring option" where
  "find_field t k =
     (if k \<in> set (map fst t) then Some k
      else map_option fst (List.find (\<lambda>(n, v). fold_name n = fold_name k) t))"

text \<open>Storing one value in a field; \<open>None\<close> is an \<open>UnmarshalTypeError\<close>.\<close>

fun store_val :: "fval \<Rightarrow> json \<Rightarrow> fval option" where
  "store_val v JNull = Some v"
| "store_val (FStr _) (JStr s) = Some (FStr s)"
| "store_val (FI64 _) (JNum l) = map_option (\<lambda>i. FI64 (word_of_int i)) (strconv_ParseInt l)"
| "store_val (FU8 _) (JNum l) =
     (case strconv_ParseUint l 10 64 of None \<Rightarrow> None
      | Some n \<Rightarrow> if n < 256 then Some (FU8 (word_of_nat n)) else None)"
| "store_val (FBool _) (JBool b) = Some (FBool b)"
| "store_val _ _ = None"

fun store_member :: "field_table \<Rightarrow> gostring \<Rightarrow> json \<Rightarrow> field_table option" where
  "store_member [] k j = Some []"
| "store_member ((n, v) # t) k j =
     (if n = k then map_option (\<lambda>w. (n, w) # t) (store_val v j)
      else map_option ((#) (n, v)) (store_member t k j))"

fun store_members :: "field_table \<Rightarrow> (gostring \<times> json) list \<Rightarrow> field_table option" where
  "store_members t [] = Some t"
| "store_members t ((k, j) # ms) =
     (case find_field t k of None \<Rightarrow> store_members t ms
      | Some n \<Rightarrow> (case store_member t n j of None \<Rightarrow> None
                   | Some t' \<Rightarrow> store_members t' ms))"

definition json_Unmarshal :: "gostring \<Rightarrow> field_table \<Rightarrow> field_table option" where
  "json_Unmarshal s t =
     (case json_scan s of
        Some (JObj ms) \<Rightarrow> store_members t ms
      | Some JNull \<Rightarrow> Some t
      | _ \<Rightarrow> None)"

end
