(* ===== verification/GoJsonLaws.thy ===== *)
theory GoJsonLaws
  imports GoJson
begin

text \<open>
  Laws of the \<open>encoding/json\<close> model: a printed string, number, boolean, member and
  document scan back to what was printed; the scanner's fuel is paid for by the input;
  and the store phase puts every printed member in its field.
\<close>

declare scan_string.simps [simp del] escape.simps [simp del]

section \<open>Strings\<close>

lemma quote_backslash [simp]: "quote \<noteq> backslash" "backslash \<noteq> quote"
  by (simp_all add: quote_def backslash_def)

lemma code_quote [simp]: "code quote = 34" and code_backslash [simp]: "code backslash = 92"
  by (simp_all add: quote_def backslash_def)

lemma prepend_Some [simp]: "prepend p (Some (s, r)) = Some (p @ s, r)"
  by (simp add: prepend_def)

lemma digit_val_hex_digit: "d < 16 \<Longrightarrow> digit_val (hex_digit d) = Some d"
  by (auto simp: hex_digit_def digit_val_def)

lemma EncodeRune_ascii: "code a < 128 \<Longrightarrow> EncodeRune (code a) = [a]"
  by (simp add: EncodeRune_def)

lemma sanitize_ascii_Cons: "code a < 128 \<Longrightarrow> sanitize (a # s) = a # sanitize s"
  by (simp add: sanitize_Cons EncodeRune_ascii)

lemma hex4_low:
  assumes "n < 256"
  shows "hex4 (CHR ''0'' # CHR ''0'' # hex_digit (n div 16) # hex_digit (n mod 16) # t) = Some n"
proof -
  have z: "digit_val CHR ''0'' = Some 0" by (simp add: digit_val_def)
  have "n div 16 < 16" "n mod 16 < 16" using assms by auto
  then show ?thesis by (simp add: hex4_def z digit_val_hex_digit)
qed

lemma scan_string_unicode:
  assumes "hex4 t = Some r" "\<not> is_surrogate r"
  shows "scan_string (backslash # CHR ''u'' # t) = prepend (EncodeRune r) (scan_string (drop 4 t))"
  using assms by (subst scan_string.simps) simp

lemma scan_string_simple:
  assumes "simple_escape e = Some c" "e \<noteq> CHR ''u''"
  shows "scan_string (backslash # e # t) = prepend [c] (scan_string t)"
  using assms by (subst scan_string.simps) simp

lemma scan_string_plain:
  assumes "a \<noteq> quote" "a \<noteq> backslash" "32 \<le> code a" "code a < 128"
  shows "scan_string (a # t) = prepend [a] (scan_string t)"
  using assms by (subst scan_string.simps) simp

lemma scan_string_high:
  assumes "128 \<le> code a"
  shows "scan_string (a # t) = prepend (EncodeRune (fst (DecodeRune (a # t))))
     (scan_string (drop (snd (DecodeRune (a # t)) - 1) t))"
proof -
  have "a \<noteq> quote" "a \<noteq> backslash" using assms by auto
  with assms show ?thesis by (subst scan_string.simps) simp
qed

lemma scan_escape_ascii:
  assumes "code a < 128"
  shows "scan_string (escape_ascii a @ t) = prepend [a] (scan_string t)"
proof -
  consider (bq) "a = backslash \<or> a = quote" | (n) "a = CHR 0x0A" | (r) "a = CHR 0x0D" | (t) "a = CHR 0x09"
    | (u) "\<not> (a = backslash \<or> a = quote)" "a \<noteq> CHR 0x0A" "a \<noteq> CHR 0x0D" "a \<noteq> CHR 0x09"
        "code a < 32 \<or> a = CHR ''<'' \<or> a = CHR ''>'' \<or> a = CHR ''&''"
    | (p) "\<not> (a = backslash \<or> a = quote)" "\<not> code a < 32" "a \<noteq> CHR ''<''" "a \<noteq> CHR ''>''" "a \<noteq> CHR ''&''"
    by auto
  then show ?thesis
  proof cases
    case bq
    then have "escape_ascii a = [backslash, a]" by (auto simp: escape_ascii_def)
    moreover have "simple_escape a = Some a" "a \<noteq> CHR ''u''"
      using bq by (auto simp: simple_escape_def quote_def backslash_def)
    ultimately show ?thesis by (simp add: scan_string_simple)
  next
    case n
    have "escape_ascii a = [backslash, CHR ''n'']"
      by (simp add: n escape_ascii_def quote_def backslash_def)
    moreover have "simple_escape CHR ''n'' = Some a"
      by (simp add: n simple_escape_def quote_def backslash_def)
    ultimately show ?thesis by (simp add: scan_string_simple)
  next
    case r
    have "escape_ascii a = [backslash, CHR ''r'']"
      by (simp add: r escape_ascii_def quote_def backslash_def)
    moreover have "simple_escape CHR ''r'' = Some a"
      by (simp add: r simple_escape_def quote_def backslash_def)
    ultimately show ?thesis by (simp add: scan_string_simple)
  next
    case t
    have "escape_ascii a = [backslash, CHR ''t'']"
      by (simp add: t escape_ascii_def quote_def backslash_def)
    moreover have "simple_escape CHR ''t'' = Some a"
      by (simp add: t simple_escape_def quote_def backslash_def)
    ultimately show ?thesis by (simp add: scan_string_simple)
  next
    case u
    then have e: "escape_ascii a = [backslash, CHR ''u'', CHR ''0'', CHR ''0'',
        hex_digit (code a div 16), hex_digit (code a mod 16)]"
      by (simp add: escape_ascii_def)
    have "\<not> is_surrogate (code a)" using assms by (simp add: is_surrogate_def)
    then show ?thesis
      by (simp add: e scan_string_unicode hex4_low EncodeRune_ascii assms)
  next
    case p
    then have "a \<noteq> CHR 0x0A" "a \<noteq> CHR 0x0D" "a \<noteq> CHR 0x09" by auto
    with p have "escape_ascii a = [a]" by (simp add: escape_ascii_def)
    with p assms show ?thesis by (simp add: scan_string_plain)
  qed
qed

lemma scan_escape_rune:
  assumes a: "128 \<le> code a"
  shows "scan_string (escape_rune (a # s) @ t) =
    prepend (EncodeRune (fst (DecodeRune (a # s)))) (scan_string t)"
proof -
  obtain r n where rn: "DecodeRune (a # s) = (r, n)" by (cases "DecodeRune (a # s)") auto
  consider (bad) "r = RuneError" "n = 1" | (sep) "\<not> (r = RuneError \<and> n = 1)" "r = 8232 \<or> r = 8233"
    | (plain) "\<not> (r = RuneError \<and> n = 1)" "\<not> (r = 8232 \<or> r = 8233)" by blast
  then show ?thesis
  proof cases
    case bad
    have h: "hex4 (CHR ''f'' # CHR ''f'' # CHR ''f'' # CHR ''d'' # t) = Some RuneError"
      by (simp add: hex4_def digit_val_def RuneError_def)
    have "\<not> is_surrogate RuneError" by (simp add: is_surrogate_def RuneError_def)
    with bad rn h show ?thesis by (simp add: escape_rune_def scan_string_unicode)
  next
    case sep
    have h: "hex4 (CHR ''2'' # CHR ''0'' # CHR ''2'' # hex_digit (r mod 16) # t) = Some r"
      using sep(2) by (auto simp: hex4_def digit_val_def hex_digit_def)
    have "\<not> is_surrogate r" using sep(2) by (auto simp: is_surrogate_def)
    moreover have "escape_rune (a # s) = backslash # ''u202'' @ [hex_digit (r mod 16)]"
      using sep rn by (auto simp: escape_rune_def)
    ultimately show ?thesis using h rn by (simp add: scan_string_unicode)
  next
    case plain
    then have ok: "\<not> malformed (a # s)" by (simp add: malformed_def rn)
    have n: "1 \<le> n" using DecodeRune_width [of "a # s"] rn by simp
    have e: "escape_rune (a # s) = take n (a # s)" using plain rn by (simp add: escape_rune_def)
    have tk: "take n (a # s) = a # take (n - 1) s" using n by (simp add: take_Cons')
    have d: "DecodeRune (a # take (n - 1) s @ t) = (r, n)"
      using DecodeRune_take [OF _ ok, of t] rn tk by simp
    have len: "length (take (n - 1) s) = n - 1"
      using DecodeRune_width [of "a # s"] rn by (auto simp: min_def)
    have "escape_rune (a # s) @ t = a # take (n - 1) s @ t" using e tk by simp
    then show ?thesis using a d len rn by (simp add: scan_string_high)
  qed
qed

theorem scan_string_escape: "scan_string (escape s @ quote # t) = Some (sanitize s, t)"
proof (induction s rule: escape.induct)
  case 1
  show ?case by (simp add: escape.simps scan_string.simps)
next
  case (2 a s)
  show ?case
  proof (cases "code a < 128")
    case True
    with "2.IH"(1) show ?thesis
      by (simp add: escape.simps scan_escape_ascii sanitize_ascii_Cons)
  next
    case False
    with "2.IH"(2) show ?thesis
      by (simp add: escape.simps scan_escape_rune sanitize_Cons)
  qed
qed

section \<open>Numbers\<close>

definition ends_number :: "char \<Rightarrow> bool" where
  "ends_number c \<longleftrightarrow> \<not> is_digit c \<and> c \<noteq> CHR ''.'' \<and> c \<noteq> CHR ''e'' \<and> c \<noteq> CHR ''E''"

lemma takeWhile_show_nat:
  "ends_number c \<Longrightarrow> takeWhile is_digit (show_nat n @ c # t) = show_nat n"
  by (simp add: ends_number_def show_nat_digits takeWhile_append2)

lemma show_nat_zero: "show_nat 0 = ''0''"
  by (simp add: show_nat.simps digit_char_def)

lemma scan_int_part_show_nat:
  assumes "ends_number c"
  shows "scan_int_part (show_nat n @ c # t) = Some (show_nat n, c # t)"
proof -
  have "hd (show_nat n) = CHR ''0'' \<Longrightarrow> [hd (show_nat n)] = show_nat n"
    using show_nat_leading_zero show_nat_zero by fastforce
  then show ?thesis
    by (auto simp: scan_int_part_def takeWhile_show_nat [OF assms] Let_def)
qed

lemma hd_show_nat_not_minus: "hd (show_nat n) \<noteq> CHR ''-''"
proof -
  have "is_digit (hd (show_nat n))" by (rule show_nat_digits [OF hd_in_set]) simp
  then show ?thesis by (auto simp: is_digit_def)
qed

lemma scan_number_Itoa:
  assumes "ends_number c"
  shows "scan_number (strconv_Itoa i @ c # t) = Some (strconv_Itoa i, c # t)"
proof -
  have f: "scan_fraction (c # t) = Some ([], c # t)" and e: "scan_exponent (c # t) = Some ([], c # t)"
    using assms by (simp_all add: ends_number_def scan_fraction_def scan_exponent_def)
  show ?thesis
    using hd_show_nat_not_minus [of "nat i"]
    by (auto simp: scan_number_def strconv_Itoa_def scan_int_part_show_nat [OF assms] f e hd_append)
qed

section \<open>Values, members, documents\<close>

fun json_of :: "fval \<Rightarrow> json" where
  "json_of (FStr s) = JStr (sanitize s)"
| "json_of (FI64 i) = JNum (strconv_Itoa (sint i))"
| "json_of (FU8 n) = JNum (strconv_Itoa (int (unat n)))"
| "json_of (FBool b) = JBool b"

lemma skip_space_stop: "\<not> is_space c \<Longrightarrow> skip_space (c # t) = c # t"
  by (simp add: skip_space_def)

lemma hd_Itoa: "strconv_Itoa i \<noteq> [] \<and> (is_digit (hd (strconv_Itoa i)) \<or> hd (strconv_Itoa i) = CHR ''-'')"
  by (auto simp: strconv_Itoa_def intro: show_nat_digits [OF hd_in_set])

lemma scan_value_number:
  assumes "ends_number c"
  shows "scan_value (Suc f) d (strconv_Itoa i @ c # t) = Some (JNum (strconv_Itoa i), c # t)"
proof -
  obtain x xs where x: "strconv_Itoa i = x # xs" "is_digit x \<or> x = CHR ''-''"
    using hd_Itoa [of i] by (cases "strconv_Itoa i") auto
  have ns: "\<not> is_space x" and ne: "x \<noteq> CHR ''{''" "x \<noteq> CHR ''[''" "x \<noteq> quote" "x \<noteq> CHR ''t''"
    "x \<noteq> CHR ''f''" "x \<noteq> CHR ''n''"
    using x(2) by (auto simp: is_space_def is_digit_def quote_def)
  have "scan_number (x # xs @ c # t) = Some (strconv_Itoa i, c # t)"
    using scan_number_Itoa [OF assms, of i t] x(1) by simp
  with x ns ne show ?thesis by (simp add: skip_space_stop)
qed

lemma scan_value_print:
  assumes "ends_number c"
  shows "scan_value (Suc f) d (json_value v @ c # t) = Some (json_of v, c # t)"
proof (cases v)
  case (FStr s)
  have "\<not> is_space quote" by (simp add: quote_def is_space_def)
  then show ?thesis
    by (simp add: FStr json_string_def skip_space_stop quote_def [symmetric] scan_string_escape)
       (simp add: quote_def)
next
  case (FBool b)
  have "\<not> is_space CHR ''t''" "\<not> is_space CHR ''f''" by (simp_all add: is_space_def)
  then show ?thesis by (simp add: FBool skip_space_stop quote_def)
qed (simp_all add: scan_value_number [OF assms] del: scan_value.simps)

lemma scan_members_step:
  assumes "e = CHR '','' \<or> e = CHR ''}''"
  shows "scan_members (Suc (Suc f)) d (json_member (n, v) @ e # t) =
    (if e = CHR '','' then map_option (apfst ((#) (sanitize n, json_of v))) (scan_members (Suc f) d t)
     else Some ([(sanitize n, json_of v)], t))"
proof -
  have sp: "\<not> is_space quote" "\<not> is_space CHR '':''" "\<not> is_space e"
    using assms by (auto simp: quote_def is_space_def)
  have en: "ends_number e" using assms by (auto simp: ends_number_def is_digit_def)
  show ?thesis
    using assms sp scan_value_print [OF en, of f d v t]
    by (auto simp: json_string_def skip_space_stop scan_string_escape simp del: scan_value.simps)
qed

lemma scan_members_print:
  "ms \<noteq> [] \<Longrightarrow> length ms < f \<Longrightarrow>
   scan_members f d (strings_Join (map json_member ms) '','' @ CHR ''}'' # t) =
     Some (map (\<lambda>(n, v). (sanitize n, json_of v)) ms, t)"
proof (induction ms arbitrary: f)
  case Nil
  then show ?case by simp
next
  case (Cons m ms)
  obtain n v where m: "m = (n, v)" by (cases m)
  obtain g where f: "f = Suc (Suc g)" and g: "length ms < Suc g"
    using Cons.prems by (cases f; cases "f - 1") auto
  show ?case
  proof (cases "ms = []")
    case True
    then show ?thesis by (simp add: m f scan_members_step del: json_member.simps scan_members.simps)
  next
    case False
    have "scan_members (Suc g) d (strings_Join (map json_member ms) '','' @ CHR ''}'' # t) =
       Some (map (\<lambda>(n, v). (sanitize n, json_of v)) ms, t)"
      using False g by (rule Cons.IH)
    with False show ?thesis
      by (simp add: m f Join_Cons scan_members_step del: json_member.simps scan_members.simps)
  qed
qed

lemma Join_length: "list_all (\<lambda>x. x \<noteq> []) xs \<Longrightarrow> length xs \<le> length (strings_Join xs sep)"
  by (induction xs sep rule: strings_Join.induct) (auto simp: Suc_le_eq less_Suc_eq_le neq_Nil_conv)

lemma json_member_nonempty: "json_member m \<noteq> []"
  by (cases m) (simp add: json_string_def)

lemma hd_json_member: "hd (json_member m) = quote"
  by (cases m) (simp add: json_string_def)

lemma hd_Join: "xs \<noteq> [] \<Longrightarrow> hd xs \<noteq> [] \<Longrightarrow> hd (strings_Join xs sep) = hd (hd xs)"
  by (cases xs; cases "tl xs") auto

lemma Join_members_head:
  assumes "ms \<noteq> []"
  obtains r where "strings_Join (map json_member ms) sep = quote # r"
proof -
  obtain m ms' where ms: "ms = m # ms'" using assms by (cases ms) auto
  have "hd (strings_Join (map json_member ms) sep) = quote"
    using hd_Join [of "map json_member ms" sep] by (simp add: ms json_member_nonempty hd_json_member)
  moreover have "strings_Join (map json_member ms) sep \<noteq> []"
    by (cases ms') (simp_all add: ms json_member_nonempty)
  ultimately show thesis using that by (metis list.collapse)
qed

theorem json_scan_Marshal:
  "json_scan (json_Marshal t) =
     Some (JObj (map (\<lambda>(n, v). (sanitize n, json_of v)) (filter (\<lambda>(n, v). \<not> is_empty_val v) t)))"
proof -
  let ?ms = "filter (\<lambda>(n, v). \<not> is_empty_val v) t"
  have sp: "\<not> is_space CHR ''{''" "\<not> is_space CHR ''}''" "\<not> is_space quote"
    by (simp_all add: is_space_def quote_def)
  show ?thesis
  proof (cases "?ms = []")
    case True
    then show ?thesis
      by (simp add: json_Marshal_def json_scan_def skip_space_stop sp max_nesting_def skip_space_def
          eval_nat_numeral)
  next
    case False
    let ?j = "strings_Join (map json_member ?ms) '',''"
    obtain r where r: "?j = quote # r" using False by (rule Join_members_head)
    have "list_all (\<lambda>x. x \<noteq> []) (map json_member ?ms)"
      by (simp add: list_all_iff json_member_nonempty del: json_member.simps)
    from Join_length [OF this, of "'',''"] have "length ?ms < 2 * length ?j + 4" by simp
    with False have "scan_members (2 * length ?j + 4) (Suc 0) (?j @ ''}'') =
        Some (map (\<lambda>(n, v). (sanitize n, json_of v)) ?ms, [])"
      by (rule scan_members_print)
    then have m: "scan_members (2 * length r + 6) (Suc 0) (quote # r @ ''}'') =
        Some (map (\<lambda>(n, v). (sanitize n, json_of v)) ?ms, [])"
      by (simp add: r add.commute)
    have "quote \<noteq> CHR ''}''" by (simp add: quote_def)
    then have v: "scan_value (Suc g) 0 (CHR ''{'' # quote # r @ ''}'') =
        map_option (apfst JObj) (scan_members g (Suc 0) (quote # r @ ''}''))" for g
      using sp by (simp add: skip_space_stop max_nesting_def del: scan_members.simps)
    have doc: "json_Marshal t = CHR ''{'' # quote # r @ ''}''"
      by (simp add: json_Marshal_def r)
    have "Suc (2 * length (json_Marshal t)) = Suc (2 * length r + 6)" by (simp add: doc)
    then show ?thesis
      by (simp only: json_scan_def doc v m) (simp add: skip_space_def)
  qed
qed

section \<open>Storing the members\<close>

lemma store_val_json_of: "store_val (zero_val v) (json_of v) = Some (sanitize_val v)"
proof (cases v)
  case (FI64 i)
  have "- (2 ^ 63) \<le> sint i" "sint i < 2 ^ 63"
    using sint_ge [of i] sint_lt [of i] by simp_all
  then show ?thesis by (simp add: FI64 ParseInt_Itoa)
next
  case (FU8 n)
  have n: "unat n < 256" using unsigned_less [of n, where ?'a = nat] by simp
  then have "strconv_ParseUint (show_nat (unat n)) 10 64 = Some (unat n)"
    by (intro ParseUint_show_nat) simp
  with n show ?thesis by (simp add: FU8 strconv_Itoa_def)
qed simp_all

lemma store_member_at:
  "n \<notin> fst ` set xs \<Longrightarrow>
   store_member (xs @ (n, v) # ys) n j = map_option (\<lambda>w. xs @ (n, w) # ys) (store_val v j)"
proof (induction xs)
  case Nil
  show ?case by simp
next
  case (Cons x xs)
  obtain a b where x: "x = (a, b)" by (cases x)
  have "n \<noteq> a" "n \<notin> fst ` set xs" using Cons.prems x by auto
  with Cons.IH show ?case by (simp add: x option.map_comp comp_def)
qed

lemma sanitize_val_empty: "is_empty_val v \<Longrightarrow> sanitize_val v = v \<and> zero_val v = v"
  by (cases v) (auto simp: is_empty_val_def)

lemma names_sanitize_table [simp]: "map fst (sanitize_table t) = map fst t"
  by (induction t) (auto simp: sanitize_table_def)

lemma names_zero_table [simp]: "map fst (zero_table t) = map fst t"
  by (induction t) (auto simp: zero_table_def)

lemma fst_set_table: "fst ` set t = set (map fst t)"
  by simp

lemma sanitize_table_append: "sanitize_table (xs @ ys) = sanitize_table xs @ sanitize_table ys"
  by (simp add: sanitize_table_def)

lemma store_members_print:
  assumes "distinct (map fst (xs @ ys))" and "\<And>n v. (n, v) \<in> set ys \<Longrightarrow> sanitize n = n"
  shows "store_members (sanitize_table xs @ zero_table ys)
      (map (\<lambda>(n, v). (sanitize n, json_of v)) (filter (\<lambda>(n, v). \<not> is_empty_val v) ys)) =
    Some (sanitize_table (xs @ ys))"
  using assms
proof (induction ys arbitrary: xs)
  case Nil
  show ?case by (simp add: zero_table_def)
next
  case (Cons y ys)
  obtain n v where y: "y = (n, v)" by (cases y)
  have n: "sanitize n = n" using Cons.prems(2) y by auto
  have fresh: "n \<notin> fst ` set (sanitize_table xs)"
    using Cons.prems(1) y unfolding fst_set_table names_sanitize_table by auto
  let ?t' = "sanitize_table (xs @ [y]) @ zero_table ys"
  have IH: "store_members ?t' (map (\<lambda>(n, v). (sanitize n, json_of v))
      (filter (\<lambda>(n, v). \<not> is_empty_val v) ys)) = Some (sanitize_table ((xs @ [y]) @ ys))"
    using Cons.prems by (intro Cons.IH) auto
  show ?case
  proof (cases "is_empty_val v")
    case True
    then have "sanitize_table xs @ zero_table (y # ys) = ?t'"
      using sanitize_val_empty [OF True] by (simp add: sanitize_table_def zero_table_def y)
    with True IH show ?thesis by (simp add: y)
  next
    case False
    let ?t = "sanitize_table xs @ zero_table (y # ys)"
    have ff: "find_field ?t n = Some n"
      by (simp add: find_field_def y zero_table_def)
    have "?t = sanitize_table xs @ (n, zero_val v) # zero_table ys"
      by (simp add: y zero_table_def)
    then have "store_member ?t n (json_of v) =
        Some (sanitize_table xs @ (n, sanitize_val v) # zero_table ys)"
      using store_member_at [OF fresh, of "zero_val v"] store_val_json_of [of v] by simp
    then have "store_member ?t n (json_of v) = Some ?t'"
      by (simp add: y sanitize_table_def)
    with False IH ff n show ?thesis by (simp add: y)
  qed
qed

theorem Unmarshal_Marshal:
  assumes "distinct (map fst t)" and "\<And>n. n \<in> set (map fst t) \<Longrightarrow> sanitize n = n"
  shows "json_Unmarshal (json_Marshal t) (zero_table t) = Some (sanitize_table t)"
proof -
  have "store_members (sanitize_table [] @ zero_table t)
      (map (\<lambda>(n, v). (sanitize n, json_of v)) (filter (\<lambda>(n, v). \<not> is_empty_val v) t)) =
    Some (sanitize_table ([] @ t))"
    using assms by (intro store_members_print) force+
  then show ?thesis
    by (simp add: json_Unmarshal_def json_scan_Marshal sanitize_table_def)
qed

section \<open>The scanner's fuel\<close>

text \<open>Every scanning function consumes input when it succeeds.\<close>

lemma length_skip_space: "length (skip_space s) \<le> length s"
  by (simp add: skip_space_def length_dropWhile_le)

lemma skip_space_Cons_length: "skip_space s = c # t \<Longrightarrow> length t < length s"
  using length_skip_space [of s] by simp

lemma prepend_SomeD: "prepend p r = Some (x, t) \<Longrightarrow> \<exists>y. r = Some (y, t) \<and> x = p @ y"
  by (auto simp: prepend_def split: option.splits)

lemma scan_string_length: "scan_string s = Some (x, r) \<Longrightarrow> length r < length s"
proof (induction s arbitrary: x rule: scan_string.induct)
  case 1
  then show ?case by (simp add: scan_string.simps)
next
  case (2 a s)
  note ret = "2.prems" [unfolded scan_string.simps]
  consider "a = quote" | "a \<noteq> quote" "a = backslash" | "a \<noteq> quote" "a \<noteq> backslash" by blast
  then show ?case
  proof cases
    case 1
    with ret show ?thesis by simp
  next
    case 2
    with ret obtain e t where s: "s = e # t" by (auto split: list.splits)
    show ?thesis
    proof (cases "e = CHR ''u''")
      case True
      with ret 2 s obtain r where r: "hex4 t = Some r" by (auto split: option.splits)
      show ?thesis
        using ret 2 s True r "2.IH"(1,2,3)
        by (fastforce split: if_splits option.splits dest!: prepend_SomeD)
    next
      case False
      with ret 2 s show ?thesis using "2.IH"(4)
        by (fastforce split: option.splits dest!: prepend_SomeD)
    qed
  next
    case 3
    with ret show ?thesis using "2.IH"(5,6)
      by (fastforce split: if_splits dest!: prepend_SomeD)
  qed
qed

lemma scan_int_part_length:
  assumes "scan_int_part s = Some (x, r)"
  shows "length r < length s"
proof -
  have "takeWhile is_digit s \<noteq> []" and r: "r = drop (length x) s" and x: "x \<noteq> []"
    using assms by (auto simp: scan_int_part_def Let_def split: if_splits)
  then have "s \<noteq> []" by auto
  with r x show ?thesis by simp
qed

lemma scan_number_length:
  assumes "scan_number s = Some (x, r)"
  shows "length r < length s"
proof -
  define sg where "sg = (if s \<noteq> [] \<and> hd s = CHR ''-'' then ''-'' else [])"
  obtain ip s1 fp s2 ep where 1: "scan_int_part (drop (length sg) s) = Some (ip, s1)"
    and 2: "scan_fraction s1 = Some (fp, s2)" and 3: "scan_exponent s2 = Some (ep, r)"
    using assms by (auto simp: scan_number_def sg_def Let_def split: option.splits)
  have "length s1 < length (drop (length sg) s)"
    using 1 by (rule scan_int_part_length)
  moreover have "length s2 \<le> length s1"
    using 2 by (auto simp: scan_fraction_def Let_def split: if_splits)
  moreover have "length r \<le> length s2"
    using 3 by (auto simp: scan_exponent_def Let_def split: if_splits)
  ultimately show ?thesis by simp
qed

text \<open>
  Twice the length of the input bounds the depth of the recursion: from that fuel on the
  result no longer depends on the fuel, so running out of it is never the reason of a
  rejection.
\<close>

lemma scan_lengths:
  "(\<forall>d s v r. scan_value f d s = Some (v, r) \<longrightarrow> length r < length s) \<and>
   (\<forall>d s v r. scan_elems f d s = Some (v, r) \<longrightarrow> length r < length s) \<and>
   (\<forall>d s v r. scan_members f d s = Some (v, r) \<longrightarrow> length r < length s)"
proof (induction f)
  case 0
  show ?case by simp
next
  case (Suc f)
  note V = Suc.IH [THEN conjunct1, rule_format]
    and E = Suc.IH [THEN conjunct2, THEN conjunct1, rule_format]
    and M = Suc.IH [THEN conjunct2, THEN conjunct2, rule_format]
  have "length r < length s" if a: "scan_value (Suc f) d s = Some (v, r)" for d s v r
  proof -
    from a obtain c t where s: "skip_space s = c # t" by (auto split: list.splits)
    then have t: "length t < length s" by (rule skip_space_Cons_length)
    from a s have "length r < length (c # t)"
      by (auto split: if_splits list.splits option.splits
          dest!: E M scan_string_length scan_number_length skip_space_Cons_length)
    with t show ?thesis by simp
  qed
  moreover have "length r < length s" if a: "scan_elems (Suc f) d s = Some (v, r)" for d s v r
    using a by (auto split: if_splits list.splits option.splits dest!: E V skip_space_Cons_length)
  moreover have "length r < length s" if a: "scan_members (Suc f) d s = Some (v, r)" for d s v r
    using a by (auto split: if_splits list.splits option.splits
        dest!: M V scan_string_length skip_space_Cons_length)
  ultimately show ?case by blast
qed

lemmas scan_value_length = scan_lengths [THEN conjunct1, rule_format]
lemmas scan_elems_length = scan_lengths [THEN conjunct2, THEN conjunct1, rule_format]
lemmas scan_members_length = scan_lengths [THEN conjunct2, THEN conjunct2, rule_format]

lemma scan_fuel_step:
  "(\<forall>d s. 2 * length s < f \<longrightarrow> scan_value (Suc f) d s = scan_value f d s) \<and>
   (\<forall>d s. 2 * length s + 1 < f \<longrightarrow> scan_elems (Suc f) d s = scan_elems f d s) \<and>
   (\<forall>d s. 2 * length s < f \<longrightarrow> scan_members (Suc f) d s = scan_members f d s)"
proof (induction f)
  case 0
  show ?case by simp
next
  case (Suc f)
  note V = Suc.IH [THEN conjunct1, rule_format]
    and E = Suc.IH [THEN conjunct2, THEN conjunct1, rule_format]
    and M = Suc.IH [THEN conjunct2, THEN conjunct2, rule_format]
  have "scan_value (Suc (Suc f)) d s = scan_value (Suc f) d s" if l: "2 * length s < Suc f" for d s
  proof (cases "skip_space s")
    case (Cons c t)
    then have t: "length t < length s" by (rule skip_space_Cons_length)
    have "scan_members (Suc f) (Suc d) (b # u) = scan_members f (Suc d) (b # u) \<and>
        scan_elems (Suc f) (Suc d) (b # u) = scan_elems f (Suc d) (b # u)"
      if "skip_space t = b # u" for b u
      using skip_space_Cons_length [OF that] t l by (intro conjI M E) simp_all
    with Cons show ?thesis
      by (simp add: scan_value.simps(2) [of "Suc f"] scan_value.simps(2) [of f]
          del: scan_value.simps scan_elems.simps scan_members.simps split: list.split)
  qed simp
  moreover have "scan_elems (Suc (Suc f)) d s = scan_elems (Suc f) d s"
    if l: "2 * length s + 1 < Suc f" for d s
  proof -
    have v: "scan_value (Suc f) d s = scan_value f d s" using l by (intro V) simp
    have "scan_elems (Suc f) d u = scan_elems f d u"
      if "scan_value f d s = Some (w, t)" "skip_space t = c # u" for w t c u
      using scan_value_length [OF that(1)] skip_space_Cons_length [OF that(2)] l by (intro E) simp
    with v show ?thesis
      by (subst scan_elems.simps(2), subst scan_elems.simps(2) [of f d s])
         (simp del: scan_value.simps scan_elems.simps scan_members.simps
           split: list.split option.split)
  qed
  moreover have "scan_members (Suc (Suc f)) d s = scan_members (Suc f) d s"
    if l: "2 * length s < Suc f" for d s
  proof -
    have v: "scan_value (Suc f) d t2 = scan_value f d t2"
      if "skip_space s = q # t" "scan_string t = Some (k, t1)" "skip_space t1 = c # t2" for q t k t1 c t2
      using skip_space_Cons_length [OF that(1)] scan_string_length [OF that(2)]
        skip_space_Cons_length [OF that(3)] l by (intro V) simp
    have m: "scan_members (Suc f) d t4 = scan_members f d t4"
      if "skip_space s = q # t" "scan_string t = Some (k, t1)" "skip_space t1 = c # t2"
        "scan_value f d t2 = Some (w, t3)" "skip_space t3 = e # t4" for q t k t1 c t2 w t3 e t4
      using skip_space_Cons_length [OF that(1)] scan_string_length [OF that(2)]
        skip_space_Cons_length [OF that(3)] scan_value_length [OF that(4)]
        skip_space_Cons_length [OF that(5)] l by (intro M) simp
    show ?thesis
      by (subst scan_members.simps(2), subst scan_members.simps(2) [of f d s])
         (simp add: v m del: scan_value.simps scan_elems.simps scan_members.simps
           split: list.split option.split)
  qed
  ultimately show ?case by blast
qed

theorem scan_fuel_enough:
  "2 * length s < f \<Longrightarrow> scan_value (f + k) d s = scan_value f d s"
proof (induction k)
  case (Suc k)
  then have "scan_value (Suc (f + k)) d s = scan_value (f + k) d s"
    by (intro scan_fuel_step [THEN conjunct1, rule_format]) simp
  with Suc show ?case by simp
qed simp

end
