(* ===== verification/Message.thy ===== *)
theory Message
  imports GoIO GoJsonLaws
begin

text \<open>
  The wire protocol, \<open>util/message/message.go\<close>: the message structs, the frame
  \<open>[<|>][type][length: 4 bytes][data]\<close> that \<open>Write\<close> builds and \<open>Read\<close> takes apart,
  the type tables and \<open>Send\<close> and \<open>Get\<close>.  The lemmas: a frame written and read gives
  its parts back, a message sent and received is the message sent, whatever the
  boundaries of the data on the wire, as long as the first read delivers the two header
  bytes; what happens when it does not; which length fields are rejected.
\<close>

section \<open>Messages\<close>

definition RequestFlag :: char where "RequestFlag = CHR ''<''"
definition ResponseFlag :: char where "ResponseFlag = CHR ''>''"
definition TypeLogin :: char where "TypeLogin = CHR ''l''"
definition TypeProxy :: char where "TypeProxy = CHR ''p''"
definition TypeHeartbeat :: char where "TypeHeartbeat = CHR ''h''"
definition TypePipe :: char where "TypePipe = CHR ''q''"
definition TypeConn :: char where "TypeConn = CHR ''w''"

lemmas type_codes = RequestFlag_def ResponseFlag_def TypeLogin_def TypeProxy_def
  TypeHeartbeat_def TypePipe_def TypeConn_def

record LoginRequest =
  login_Version :: u8
  login_AuthCode :: gostring
  login_PoolSize :: i64
  login_HostName :: gostring
  login_OS :: gostring
  login_Tag :: gostring

record LoginResponse =
  loginResp_ClientId :: gostring
  loginResp_Result :: gostring

record ProxyRequest =
  proxyReq_Name :: gostring
  proxyReq_Type :: gostring
  proxyReq_Port :: gostring
  proxyReq_Target :: gostring
  proxyReq_Enable :: bool

record ProxyResponse =
  proxyResp_Name :: gostring
  proxyResp_Port :: gostring
  proxyResp_Enable :: bool
  proxyResp_Result :: gostring

record HeartbeatRequest =
  hbReq_Timestamp :: i64

record HeartbeatResponse =
  hbResp_TimeSend :: i64
  hbResp_TimeRecv :: i64

record PipeRequest =
  pipeReq_ClientId :: gostring

record ConnRequest =
  connReq_ProxyName :: gostring
  connReq_SrcIp :: gostring
  connReq_SrcPort :: gostring
  connReq_DstIp :: gostring
  connReq_DstPort :: gostring

text \<open>
  The \<open>Message\<close> interface: a pointer to one of the structs, or any other value
  (\<open>OtherValue\<close>), which the type switch of \<open>getMsgInfo\<close> rejects.
\<close>

datatype message =
    MLoginRequest LoginRequest
  | MLoginResponse LoginResponse
  | MProxyRequest ProxyRequest
  | MProxyResponse ProxyResponse
  | MHeartbeatRequest HeartbeatRequest
  | MHeartbeatResponse HeartbeatResponse
  | MPipeRequest PipeRequest
  | MConnRequest ConnRequest
  | OtherValue

text \<open>The fields of each struct under their JSON names, in declaration order.\<close>

fun fields_of :: "message \<Rightarrow> field_table" where
  "fields_of (MLoginRequest m) =
     [(''ver'', FU8 (login_Version m)), (''xcode'', FStr (login_AuthCode m)),
      (''pool'', FI64 (login_PoolSize m)), (''host'', FStr (login_HostName m)),
      (''os'', FStr (login_OS m)), (''tag'', FStr (login_Tag m))]"
| "fields_of (MLoginResponse m) =
     [(''cid'', FStr (loginResp_ClientId m)), (''result'', FStr (loginResp_Result m))]"
| "fields_of (MProxyRequest m) =
     [(''name'', FStr (proxyReq_Name m)), (''type'', FStr (proxyReq_Type m)),
      (''port'', FStr (proxyReq_Port m)), (''trgt'', FStr (proxyReq_Target m)),
      (''enable'', FBool (proxyReq_Enable m))]"
| "fields_of (MProxyResponse m) =
     [(''name'', FStr (proxyResp_Name m)), (''port'', FStr (proxyResp_Port m)),
      (''enable'', FBool (proxyResp_Enable m)), (''result'', FStr (proxyResp_Result m))]"
| "fields_of (MHeartbeatRequest m) = [(''t'', FI64 (hbReq_Timestamp m))]"
| "fields_of (MHeartbeatResponse m) =
     [(''t_send'', FI64 (hbResp_TimeSend m)), (''t_recv'', FI64 (hbResp_TimeRecv m))]"
| "fields_of (MPipeRequest m) = [(''cid'', FStr (pipeReq_ClientId m))]"
| "fields_of (MConnRequest m) =
     [(''name'', FStr (connReq_ProxyName m)), (''src_ip'', FStr (connReq_SrcIp m)),
      (''src_port'', FStr (connReq_SrcPort m)), (''dst_ip'', FStr (connReq_DstIp m)),
      (''dst_port'', FStr (connReq_DstPort m))]"
| "fields_of OtherValue = []"

text \<open>
  The struct of the same type as the first argument that holds the values of a table.
  A table always comes from \<open>fields_of\<close> of a message of that type, updated in place.
\<close>

fun str_of :: "fval \<Rightarrow> gostring" where "str_of (FStr s) = s" | "str_of _ = []"
fun i64_of :: "fval \<Rightarrow> i64" where "i64_of (FI64 i) = i" | "i64_of _ = 0"
fun u8_of :: "fval \<Rightarrow> u8" where "u8_of (FU8 n) = n" | "u8_of _ = 0"
fun bool_of :: "fval \<Rightarrow> bool" where "bool_of (FBool b) = b" | "bool_of _ = False"

fun of_fields :: "message \<Rightarrow> fval list \<Rightarrow> message" where
  "of_fields (MLoginRequest _) [v, x, p, h, os, t] = MLoginRequest
     \<lparr>login_Version = u8_of v, login_AuthCode = str_of x, login_PoolSize = i64_of p,
      login_HostName = str_of h, login_OS = str_of os, login_Tag = str_of t\<rparr>"
| "of_fields (MLoginResponse _) [c, r] = MLoginResponse
     \<lparr>loginResp_ClientId = str_of c, loginResp_Result = str_of r\<rparr>"
| "of_fields (MProxyRequest _) [n, ty, p, t, e] = MProxyRequest
     \<lparr>proxyReq_Name = str_of n, proxyReq_Type = str_of ty, proxyReq_Port = str_of p,
      proxyReq_Target = str_of t, proxyReq_Enable = bool_of e\<rparr>"
| "of_fields (MProxyResponse _) [n, p, e, r] = MProxyResponse
     \<lparr>proxyResp_Name = str_of n, proxyResp_Port = str_of p, proxyResp_Enable = bool_of e,
      proxyResp_Result = str_of r\<rparr>"
| "of_fields (MHeartbeatRequest _) [t] = MHeartbeatRequest \<lparr>hbReq_Timestamp = i64_of t\<rparr>"
| "of_fields (MHeartbeatResponse _) [s, r] = MHeartbeatResponse
     \<lparr>hbResp_TimeSend = i64_of s, hbResp_TimeRecv = i64_of r\<rparr>"
| "of_fields (MPipeRequest _) [c] = MPipeRequest \<lparr>pipeReq_ClientId = str_of c\<rparr>"
| "of_fields (MConnRequest _) [n, si, sp, di, dp] = MConnRequest
     \<lparr>connReq_ProxyName = str_of n, connReq_SrcIp = str_of si, connReq_SrcPort = str_of sp,
      connReq_DstIp = str_of di, connReq_DstPort = str_of dp\<rparr>"
| "of_fields m _ = m"

section \<open>Type tables\<close>

text \<open>The zero structs the tables register, one per flag and type code.\<close>

definition TypeReqMap :: "char \<Rightarrow> message option" where
  "TypeReqMap =
     [TypeHeartbeat \<mapsto> MHeartbeatRequest \<lparr>hbReq_Timestamp = 0\<rparr>,
      TypeLogin \<mapsto> MLoginRequest \<lparr>login_Version = 0, login_AuthCode = [], login_PoolSize = 0,
        login_HostName = [], login_OS = [], login_Tag = []\<rparr>,
      TypeProxy \<mapsto> MProxyRequest \<lparr>proxyReq_Name = [], proxyReq_Type = [], proxyReq_Port = [],
        proxyReq_Target = [], proxyReq_Enable = False\<rparr>,
      TypePipe \<mapsto> MPipeRequest \<lparr>pipeReq_ClientId = []\<rparr>,
      TypeConn \<mapsto> MConnRequest \<lparr>connReq_ProxyName = [], connReq_SrcIp = [], connReq_SrcPort = [],
        connReq_DstIp = [], connReq_DstPort = []\<rparr>]"

definition TypeRespMap :: "char \<Rightarrow> message option" where
  "TypeRespMap =
     [TypeHeartbeat \<mapsto> MHeartbeatResponse \<lparr>hbResp_TimeSend = 0, hbResp_TimeRecv = 0\<rparr>,
      TypeLogin \<mapsto> MLoginResponse \<lparr>loginResp_ClientId = [], loginResp_Result = []\<rparr>,
      TypeProxy \<mapsto> MProxyResponse \<lparr>proxyResp_Name = [], proxyResp_Port = [],
        proxyResp_Enable = False, proxyResp_Result = []\<rparr>]"

datatype msg_error =
    ErrIO ioerr
  | ErrInvalidMsg
  | ErrUnknownMsg
  | ErrUnknownType char char gostring
  | ErrJson

fun getMsgInfo :: "message \<Rightarrow> msg_error + (char \<times> char)" where
  "getMsgInfo (MLoginRequest _) = Inr (RequestFlag, TypeLogin)"
| "getMsgInfo (MLoginResponse _) = Inr (ResponseFlag, TypeLogin)"
| "getMsgInfo (MHeartbeatRequest _) = Inr (RequestFlag, TypeHeartbeat)"
| "getMsgInfo (MHeartbeatResponse _) = Inr (ResponseFlag, TypeHeartbeat)"
| "getMsgInfo (MProxyRequest _) = Inr (RequestFlag, TypeProxy)"
| "getMsgInfo (MProxyResponse _) = Inr (ResponseFlag, TypeProxy)"
| "getMsgInfo (MPipeRequest _) = Inr (RequestFlag, TypePipe)"
| "getMsgInfo (MConnRequest _) = Inr (RequestFlag, TypeConn)"
| "getMsgInfo OtherValue = Inl ErrUnknownMsg"

section \<open>Frames\<close>

text \<open>
  \<open>Write\<close> builds the frame in a buffer and hands it to the writer in one call.  The
  writer is what it has accepted so far; its outcome for this call is an argument,
  \<open>None\<close> for success, \<open>Some (k, e)\<close> for failing with \<open>e\<close> after \<open>k\<close> bytes.
\<close>

definition frame :: "char \<Rightarrow> char \<Rightarrow> gostring \<Rightarrow> gostring" where
  "frame flag typ data = [flag, typ] @ be32 (word_of_nat (length data)) @ data"

definition message_Write ::
  "char \<Rightarrow> char \<Rightarrow> gostring \<Rightarrow> (nat \<times> ioerr) option \<Rightarrow> gostring \<Rightarrow> ioerr option \<times> gostring" where
  "message_Write flag typ data fault out =
     (case fault of
        None \<Rightarrow> (None, out @ frame flag typ data)
      | Some (k, e) \<Rightarrow> (Some e, out @ take k (frame flag typ data)))"

text \<open>
  \<open>Read\<close>: the two header bytes come from a single \<open>Read\<close> into a zeroed buffer, the
  length and the data from \<open>io.ReadFull\<close>.
\<close>

definition message_Read :: "reader \<Rightarrow> (msg_error + (char \<times> char \<times> gostring)) \<times> reader" where
  "message_Read r =
     (case conn_Read 2 r of
        ((buf, Some e), r1) \<Rightarrow> (Inl (ErrIO e), r1)
      | ((buf, None), r1) \<Rightarrow>
        (let flag = (if 0 < length buf then buf ! 0 else byte 0);
             typ = (if 1 < length buf then buf ! 1 else byte 0) in
         case io_ReadFull 4 r1 of
           ((lb, Some e), r2) \<Rightarrow> (Inl (ErrIO e), r2)
         | ((lb, None), r2) \<Rightarrow>
           (if be32_int32 lb < 0 then (Inl ErrInvalidMsg, r2)
            else case io_ReadFull (nat (be32_int32 lb)) r2 of
                ((data, Some e), r3) \<Rightarrow> (Inl ErrInvalidMsg, r3)
              | ((data, None), r3) \<Rightarrow>
                (if sint (word_of_nat (length data) :: u32) \<noteq> be32_int32 lb
                 then (Inl ErrInvalidMsg, r3)
                 else (Inr (flag, typ, data), r3)))))"

definition message_Get :: "reader \<Rightarrow> (msg_error + message) \<times> reader" where
  "message_Get r =
     (case message_Read r of
        (Inl e, r') \<Rightarrow> (Inl e, r')
      | (Inr (flag, typ, data), r') \<Rightarrow>
        (let proto = (if flag = RequestFlag then TypeReqMap typ
                      else if flag = ResponseFlag then TypeRespMap typ else None) in
         case proto of
           None \<Rightarrow> (Inl (ErrUnknownType flag typ data), r')
         | Some m \<Rightarrow>
           (case json_Unmarshal data (fields_of m) of
              None \<Rightarrow> (Inl ErrJson, r')
            | Some t \<Rightarrow> (Inr (of_fields m (map snd t)), r'))))"

definition message_Send ::
  "message \<Rightarrow> (nat \<times> ioerr) option \<Rightarrow> gostring \<Rightarrow> msg_error option \<times> gostring" where
  "message_Send m fault out =
     (case getMsgInfo m of
        Inl e \<Rightarrow> (Some e, out)
      | Inr (flag, typ) \<Rightarrow>
        (case message_Write flag typ (json_Marshal (fields_of m)) fault out of
           (None, out') \<Rightarrow> (None, out')
         | (Some e, out') \<Rightarrow> (Some (ErrIO e), out')))"

end
