(* ===== verification/Util.thy ===== *)
theory Util
  imports GoStrings GoUtf8
begin

text \<open>
  \<open>util/util.go\<close>: string splitting and joining with the empty string as a special
  case, the generic slice functions, de-duplication and the character test for tags.
  The lemmas: \<open>SplitX\<close> and \<open>JoinX\<close> are inverse, the loops compute the list functions of
  HOL, \<open>DeDuplicate\<close> keeps the first occurrence of every element, \<open>CheckLegal\<close> accepts
  exactly the strings over \<open>a-zA-Z0-9_-\<close>.
\<close>

definition SplitX :: "gostring \<Rightarrow> gostring \<Rightarrow> gostring list" where
  "SplitX s sep = (if length s = 0 then [] else strings_Split s sep)"

definition JoinX :: "gostring list \<Rightarrow> gostring \<Rightarrow> gostring" where
  "JoinX elems sep =
     (if length elems = 0 then []
      else if length elems = 1 then elems ! 0
      else strings_Join elems sep)"

text \<open>The loops of the generic functions, with the result slice as accumulator.\<close>

fun Map_loop :: "('t \<Rightarrow> 'r) \<Rightarrow> 'r list \<Rightarrow> 't list \<Rightarrow> 'r list" where
  "Map_loop fn result [] = result"
| "Map_loop fn result (e # es) = Map_loop fn (result @ [fn e]) es"

definition util_Map :: "'t list \<Rightarrow> ('t \<Rightarrow> 'r) \<Rightarrow> 'r list" where
  "util_Map elements fn = Map_loop fn [] elements"

fun MapIndexed_loop :: "(nat \<Rightarrow> 't \<Rightarrow> 'r) \<Rightarrow> nat \<Rightarrow> 'r list \<Rightarrow> 't list \<Rightarrow> 'r list" where
  "MapIndexed_loop fn i result [] = result"
| "MapIndexed_loop fn i result (e # es) = MapIndexed_loop fn (Suc i) (result @ [fn i e]) es"

definition MapIndexed :: "'t list \<Rightarrow> (nat \<Rightarrow> 't \<Rightarrow> 'r) \<Rightarrow> 'r list" where
  "MapIndexed elements fn = MapIndexed_loop fn 0 [] elements"

fun MapFiltered_loop :: "('t \<Rightarrow> 'r \<times> bool) \<Rightarrow> 'r list \<Rightarrow> 't list \<Rightarrow> 'r list" where
  "MapFiltered_loop fn result [] = result"
| "MapFiltered_loop fn result (e # es) =
     (case fn e of (r, ok) \<Rightarrow>
        if ok then MapFiltered_loop fn (result @ [r]) es else MapFiltered_loop fn result es)"

definition MapFiltered :: "'t list \<Rightarrow> ('t \<Rightarrow> 'r \<times> bool) \<Rightarrow> 'r list" where
  "MapFiltered elements fn = MapFiltered_loop fn [] elements"

fun Filter_loop :: "('t \<Rightarrow> bool) \<Rightarrow> 't list \<Rightarrow> 't list \<Rightarrow> 't list" where
  "Filter_loop fn result [] = result"
| "Filter_loop fn result (e # es) =
     (if fn e then Filter_loop fn (result @ [e]) es else Filter_loop fn result es)"

definition util_Filter :: "'t list \<Rightarrow> ('t \<Rightarrow> bool) \<Rightarrow> 't list" where
  "util_Filter elements fn = Filter_loop fn [] elements"

text \<open>\<open>allKeys\<close> is a Go map used as a set: a key is present or not.\<close>

fun DeDuplicate_loop :: "('t \<rightharpoonup> bool) \<Rightarrow> 't list \<Rightarrow> 't list \<Rightarrow> 't list" where
  "DeDuplicate_loop allKeys lst [] = lst"
| "DeDuplicate_loop allKeys lst (item # items) =
     (if allKeys item = None
      then DeDuplicate_loop (allKeys(item \<mapsto> True)) (lst @ [item]) items
      else DeDuplicate_loop allKeys lst items)"

definition DeDuplicate :: "'t list \<Rightarrow> 't list" where
  "DeDuplicate sliceList = DeDuplicate_loop (\<lambda>_. None) [] sliceList"

fun CheckLegal_loop :: "nat list \<Rightarrow> bool" where
  "CheckLegal_loop [] = True"
| "CheckLegal_loop (r # rs) =
     (if (r < 97 \<or> 122 < r) \<and> (r < 65 \<or> 90 < r) \<and> (r < 48 \<or> 57 < r) \<and> r \<noteq> 45 \<and> r \<noteq> 95
      then False else CheckLegal_loop rs)"

text \<open>The loop ranges over the runes of the string, not over its bytes.\<close>

definition CheckLegal :: "gostring \<Rightarrow> bool" where
  "CheckLegal s = CheckLegal_loop (runes s)"

section \<open>Lemmas\<close>

lemma Map_loop_eq: "Map_loop fn acc xs = acc @ map fn xs"
  by (induction xs arbitrary: acc) auto

lemma util_Map_eq [simp]: "util_Map xs fn = map fn xs"
  by (simp add: util_Map_def Map_loop_eq)

lemma MapIndexed_loop_eq:
  "MapIndexed_loop fn i acc xs = acc @ map (\<lambda>(j, x). fn j x) (enumerate i xs)"
  by (induction xs arbitrary: i acc) auto

lemma MapIndexed_eq: "MapIndexed xs fn = map (\<lambda>(j, x). fn j x) (enumerate 0 xs)"
  by (simp add: MapIndexed_def MapIndexed_loop_eq)

lemma MapFiltered_loop_eq:
  "MapFiltered_loop fn acc xs = acc @ map fst (filter snd (map fn xs))"
  by (induction xs arbitrary: acc) (auto split: prod.split)

lemma MapFiltered_eq: "MapFiltered xs fn = map fst (filter snd (map fn xs))"
  by (simp add: MapFiltered_def MapFiltered_loop_eq)

lemma set_MapFiltered: "y \<in> set (MapFiltered xs fn) \<longleftrightarrow> (\<exists>x\<in>set xs. fn x = (y, True))"
  by (auto simp: MapFiltered_eq image_iff prod_eq_iff)

lemma Filter_loop_eq: "Filter_loop fn acc xs = acc @ filter fn xs"
  by (induction xs arbitrary: acc) auto

lemma util_Filter_eq [simp]: "util_Filter xs fn = filter fn xs"
  by (simp add: util_Filter_def Filter_loop_eq)

subsection \<open>DeDuplicate\<close>

text \<open>The specification: keep an element where it occurs first.\<close>

fun first_occurrences :: "'t set \<Rightarrow> 't list \<Rightarrow> 't list" where
  "first_occurrences seen [] = []"
| "first_occurrences seen (x # xs) =
     (if x \<in> seen then first_occurrences seen xs
      else x # first_occurrences (insert x seen) xs)"

lemma DeDuplicate_loop_eq:
  "DeDuplicate_loop m acc xs = acc @ first_occurrences (dom m) xs"
  by (induction xs arbitrary: m acc) (auto simp: domIff)

lemma DeDuplicate_eq: "DeDuplicate xs = first_occurrences {} xs"
  by (simp add: DeDuplicate_def DeDuplicate_loop_eq)

lemma set_first_occurrences: "set (first_occurrences seen xs) = set xs - seen"
  by (induction xs arbitrary: seen) auto

lemma distinct_first_occurrences: "distinct (first_occurrences seen xs)"
  by (induction xs arbitrary: seen) (auto simp: set_first_occurrences)

lemma subseq_first_occurrences: "subseq (first_occurrences seen xs) xs"
  by (induction xs arbitrary: seen) (auto intro: subseq_Cons')

lemma first_occurrences_distinct:
  "distinct xs \<Longrightarrow> set xs \<inter> seen = {} \<Longrightarrow> first_occurrences seen xs = xs"
  by (induction xs arbitrary: seen) auto

subsection \<open>CheckLegal\<close>

definition legal_char :: "char \<Rightarrow> bool" where
  "legal_char c \<longleftrightarrow> c \<in> set ''abcdefghijklmnopqrstuvwxyzABCDEFGHIJKLMNOPQRSTUVWXYZ0123456789-_''"

definition legal_rune :: "nat \<Rightarrow> bool" where
  "legal_rune r \<longleftrightarrow> 97 \<le> r \<and> r \<le> 122 \<or> 65 \<le> r \<and> r \<le> 90 \<or> 48 \<le> r \<and> r \<le> 57 \<or> r = 45 \<or> r = 95"

lemma CheckLegal_loop_eq: "CheckLegal_loop rs = list_all legal_rune rs"
  by (induction rs) (auto simp: legal_rune_def)

lemma char_in_codes: "c \<in> set s \<longleftrightarrow> code c \<in> set (map code s)"
  by (auto simp: image_iff)

lemma legal_rune_code: "legal_rune (code c) \<longleftrightarrow> legal_char c"
proof -
  have "legal_char c \<longleftrightarrow> code c \<in> {97..122} \<union> {65..90} \<union> {48..57} \<union> {45, 95}"
    unfolding legal_char_def char_in_codes
    by (simp add: atLeastAtMost_insertL [symmetric] eval_nat_numeral atLeastAtMostSuc_conv) blast
  then show ?thesis by (auto simp: legal_rune_def)
qed

lemma CheckLegal_eq: "CheckLegal s \<longleftrightarrow> list_all legal_char s"
proof -
  have "legal_rune r \<Longrightarrow> r < 128" for r by (auto simp: legal_rune_def)
  from runes_ascii_test [of legal_rune s, OF this] show ?thesis
    by (simp add: CheckLegal_def CheckLegal_loop_eq legal_rune_code)
qed

section \<open>Properties\<close>

text \<open>Splitting on a separator and joining gives the string back, the empty string
  included; joining pieces that do not hold the separator byte and splitting gives the
  pieces back, unless the only piece is empty (which \<open>SplitX\<close> cannot tell from no piece).\<close>

theorem SplitX_JoinX:
  "(sep \<noteq> [] \<longrightarrow> JoinX (SplitX s sep) sep = s) \<and>
   ((\<forall>x\<in>set xs. c \<notin> set x) \<longrightarrow> SplitX (JoinX xs [c]) [c] = (if xs = [[]] then [] else xs))"
proof (intro conjI impI)
  assume sep: "sep \<noteq> []"
  show "JoinX (SplitX s sep) sep = s"
  proof (cases "length (strings_Split s sep) = 1")
    case True
    then obtain a where a: "strings_Split s sep = [a]" by (auto simp: length_Suc_conv)
    with Join_Split [OF sep, of s] show ?thesis by (simp add: JoinX_def SplitX_def)
  next
    case False
    with Join_Split [OF sep, of s] show ?thesis by (simp add: JoinX_def SplitX_def)
  qed
next
  assume pieces: "\<forall>x\<in>set xs. c \<notin> set x"
  show "SplitX (JoinX xs [c]) [c] = (if xs = [[]] then [] else xs)"
  proof (cases xs)
    case Nil
    then show ?thesis by (simp add: JoinX_def SplitX_def)
  next
    case (Cons x ys)
    have j: "JoinX xs [c] = strings_Join xs [c]" using Cons by (cases ys) (simp_all add: JoinX_def)
    have "strings_Split (strings_Join xs [c]) [c] = xs"
      using Cons pieces by (intro Split_Join_char) auto
    moreover have "strings_Join xs [c] = [] \<longleftrightarrow> xs = [[]]"
      using Cons by (cases ys) (auto simp: Join_Cons)
    ultimately show ?thesis by (auto simp: j SplitX_def)
  qed
qed

lemma SplitX_JoinX_witness:
  "JoinX (SplitX ''a,,b'' '','') '','' = ''a,,b'' \<and> SplitX (JoinX [''a'', [], ''b''] '','') '','' = [''a'', [], ''b'']"
  using SplitX_JoinX [of "'',''" "''a,,b''" "[''a'', [], ''b'']" "CHR '',''"] by simp

text \<open>\<open>DeDuplicate\<close> returns the elements of the slice, each once, in the order of their
  first occurrences, and leaves a slice without duplicates alone.\<close>

theorem DeDuplicate_correct:
  "set (DeDuplicate xs) = set xs \<and> distinct (DeDuplicate xs) \<and> subseq (DeDuplicate xs) xs \<and>
   DeDuplicate xs = first_occurrences {} xs \<and> DeDuplicate (DeDuplicate xs) = DeDuplicate xs"
  by (simp add: DeDuplicate_eq set_first_occurrences distinct_first_occurrences
      subseq_first_occurrences first_occurrences_distinct)

text \<open>\<open>CheckLegal\<close>, which decodes the string rune by rune, accepts exactly the strings
  all of whose bytes are letters, digits, a hyphen or an underscore; the order of its range
  tests and invalid UTF-8 do not let anything else through.\<close>

theorem CheckLegal_alphabet: "CheckLegal s \<longleftrightarrow> list_all legal_char s"
  by (rule CheckLegal_eq)

end
