(* ===== verification/Ema.thy ===== *)
theory Ema
  imports Complex_Main Prelude
begin

text \<open>
  \<open>util/ema.go\<close>: the exponential moving average of the heartbeat latencies.  Its
  arithmetic is on \<open>float64\<close>; the model takes the finite doubles as the rationals they
  denote and rounds every operation to 53 bits, ties to even, with the exponent bounded
  below.  Overflow cannot occur on 64-bit samples, and the sign of zero is not kept.
\<close>

section \<open>IEEE double arithmetic\<close>

type_synonym f64 = rat

fun ilog2 :: "nat \<Rightarrow> nat" where
  "ilog2 n = (if n < 2 then 0 else Suc (ilog2 (n div 2)))"

declare ilog2.simps [simp del]

text \<open>The exponent of a non-zero number: \<open>2 ^ e \<le> \<bar>x\<bar> < 2 ^ (e + 1)\<close>.\<close>

definition f64_exponent :: "rat \<Rightarrow> int" where
  "f64_exponent x =
     (let (p, q) = quotient_of \<bar>x\<bar>;
          e = int (ilog2 (nat p)) - int (ilog2 (nat q))
      in if 2 powi e \<le> \<bar>x\<bar> then e else e - 1)"

text \<open>The nearest integer, ties to even.\<close>

definition round_half_even :: "rat \<Rightarrow> int" where
  "round_half_even y =
     (let f = \<lfloor>y\<rfloor>; d = y - of_int f in
      if d < 1 / 2 then f else if 1 / 2 < d then f + 1
      else if even f then f else f + 1)"

definition f64_round :: "rat \<Rightarrow> f64" where
  "f64_round x =
     (if x = 0 then 0
      else let t = max (f64_exponent x - 52) (-1074)
           in of_int (round_half_even (x / 2 powi t)) * 2 powi t)"

definition f64_of_int64 :: "i64 \<Rightarrow> f64" where
  "f64_of_int64 i = f64_round (of_int (sint i))"

definition f64_add :: "f64 \<Rightarrow> f64 \<Rightarrow> f64" where "f64_add a b = f64_round (a + b)"
definition f64_sub :: "f64 \<Rightarrow> f64 \<Rightarrow> f64" where "f64_sub a b = f64_round (a - b)"
definition f64_mul :: "f64 \<Rightarrow> f64 \<Rightarrow> f64" where "f64_mul a b = f64_round (a * b)"
definition f64_div :: "f64 \<Rightarrow> f64 \<Rightarrow> f64" where "f64_div a b = f64_round (a / b)"

section \<open>The average\<close>

definition DefaultWindowSize :: nat where "DefaultWindowSize = 5"

record EMA =
  ema_Init :: bool
  ema_Avg :: f64
  ema_Last :: i64
  ema_Constant :: f64

text \<open>Go's zero value, which a \<open>Manager\<close> holds: it is embedded, never built by \<open>NewEMA\<close>.\<close>

definition zero_EMA :: EMA where
  "zero_EMA = \<lparr>ema_Init = False, ema_Avg = 0, ema_Last = 0, ema_Constant = 0\<rparr>"

definition NewEMA :: "nat \<Rightarrow> EMA" where
  "NewEMA sz =
     (let n = (if sz = 0 then DefaultWindowSize else sz) in
      \<lparr>ema_Init = False, ema_Avg = 0, ema_Last = 0,
       ema_Constant = f64_div 1 (f64_add 1 (f64_round (of_nat n)))\<rparr>)"

definition EMA_Update :: "EMA \<Rightarrow> i64 \<Rightarrow> f64 \<times> EMA" where
  "EMA_Update ema nxt =
     (let ema1 = ema\<lparr>ema_Last := nxt\<rparr>;
          ema2 = (if ema_Init ema1
            then ema1\<lparr>ema_Avg := f64_add (f64_mul (f64_of_int64 nxt) (ema_Constant ema1))
                                       (f64_mul (ema_Avg ema1) (f64_sub 1 (ema_Constant ema1)))\<rparr>
            else ema1\<lparr>ema_Init := True, ema_Avg := f64_of_int64 nxt\<rparr>)
      in (ema_Avg ema2, ema2))"

section \<open>Representable numbers are fixed points of rounding\<close>

lemma ilog2_bounds: "0 < n \<Longrightarrow> 2 ^ ilog2 n \<le> n \<and> n < 2 * 2 ^ ilog2 n"
proof (induction n rule: ilog2.induct)
  case (1 n)
  show ?case
  proof (cases "n < 2")
    case True
    with 1 show ?thesis by (simp add: ilog2.simps [of n])
  next
    case False
    then have "2 ^ ilog2 (n div 2) \<le> n div 2 \<and> n div 2 < 2 * 2 ^ ilog2 (n div 2)"
      using 1 by simp
    with False show ?thesis by (simp add: ilog2.simps [of n]) linarith
  qed
qed

definition representable :: "rat \<Rightarrow> bool" where
  "representable y \<longleftrightarrow> (\<exists>r t. y = of_int r * 2 powi t \<and> \<bar>r\<bar> \<le> 2 ^ 53 \<and> - 1074 \<le> t)"

lemma f64_exponent_bounds:
  assumes "x \<noteq> 0"
  shows "2 powi f64_exponent x \<le> \<bar>x\<bar>" and "\<bar>x\<bar> < 2 powi (f64_exponent x + 1)"
proof -
  obtain p q where pq: "quotient_of \<bar>x\<bar> = (p, q)" by (cases "quotient_of \<bar>x\<bar>")
  have q: "0 < q" using quotient_of_denom_pos [OF pq] .
  have x: "\<bar>x\<bar> = of_int p / of_int q" using quotient_of_div [OF pq] .
  have "0 < \<bar>x\<bar>" using assms by simp
  with x q have p: "0 < p" by (simp add: zero_less_divide_iff)
  define a b where "a = ilog2 (nat p)" and "b = ilog2 (nat q)"
  have a: "2 ^ a \<le> p" "p < 2 * 2 ^ a" and b: "2 ^ b \<le> q" "q < 2 * 2 ^ b"
    using ilog2_bounds [of "nat p"] ilog2_bounds [of "nat q"] p q
    unfolding a_def b_def by (simp_all add: le_nat_iff nat_less_iff)
  have "(of_int (2 ^ a) :: rat) \<le> of_int p" "(of_int p :: rat) < of_int (2 * 2 ^ a)"
    "(of_int (2 ^ b) :: rat) \<le> of_int q" "(of_int q :: rat) < of_int (2 * 2 ^ b)"
    using a b by (simp_all only: of_int_le_iff of_int_less_iff)
  then have P: "(2::rat) ^ a \<le> of_int p" "of_int p < (2::rat) * 2 ^ a"
    "(2::rat) ^ b \<le> of_int q" "of_int q < (2::rat) * 2 ^ b"
    by simp_all
  let ?e = "int a - int b"
  have e: "(2::rat) powi ?e = 2 ^ a / 2 ^ b" by (simp add: power_int_diff)
  have hi: "\<bar>x\<bar> < 2 powi (?e + 1)"
  proof -
    have "\<bar>x\<bar> < 2 * 2 ^ a / 2 ^ b"
      unfolding x using P q p by (intro frac_less) (auto intro: order_less_imp_le)
    then show ?thesis by (simp add: power_int_add e mult.commute)
  qed
  have lo: "2 powi (?e - 1) \<le> \<bar>x\<bar>"
  proof -
    have "2 ^ a / (2 * 2 ^ b) \<le> \<bar>x\<bar>"
      unfolding x using P q p by (intro frac_le) (auto intro: order_less_imp_le)
    then show ?thesis by (simp add: power_int_diff e)
  qed
  have E: "f64_exponent x = (if 2 powi ?e \<le> \<bar>x\<bar> then ?e else ?e - 1)"
    by (simp add: f64_exponent_def pq a_def b_def Let_def)
  show "2 powi f64_exponent x \<le> \<bar>x\<bar>" using lo by (simp add: E)
  show "\<bar>x\<bar> < 2 powi (f64_exponent x + 1)" using hi by (auto simp: E)
qed

lemma f64_exponent_le:
  assumes "x \<noteq> 0" "\<bar>x\<bar> < 2 powi (k + 1)"
  shows "f64_exponent x \<le> k"
proof (rule ccontr)
  assume "\<not> f64_exponent x \<le> k"
  then have "(2::rat) powi (k + 1) \<le> 2 powi f64_exponent x"
    by (intro power_int_increasing) auto
  with f64_exponent_bounds(1) [OF assms(1)] assms(2) show False by linarith
qed

lemma round_half_even_int [simp]: "round_half_even (of_int n) = n"
  by (simp add: round_half_even_def)

lemma round_half_even_abs:
  assumes "\<bar>y\<bar> \<le> of_int m"
  shows "\<bar>round_half_even y\<bar> \<le> m"
proof -
  have m: "- of_int m \<le> y" "y \<le> of_int m" using assms by linarith+
  then have f: "- m \<le> \<lfloor>y\<rfloor>" "\<lfloor>y\<rfloor> \<le> m"
    by (metis le_floor_iff of_int_minus) (use m floor_mono in fastforce)
  have "\<lfloor>y\<rfloor> = m \<Longrightarrow> y = of_int m" using m(2) by linarith
  then have "\<lfloor>y\<rfloor> = m \<Longrightarrow> round_half_even y = m" by simp
  moreover have "round_half_even y \<in> {\<lfloor>y\<rfloor>, \<lfloor>y\<rfloor> + 1}"
    by (simp add: round_half_even_def Let_def)
  ultimately show ?thesis using f by (cases "\<lfloor>y\<rfloor> = m") auto
qed

lemma representable_round: "representable (f64_round x)"
proof (cases "x = 0")
  case True
  then show ?thesis
    unfolding representable_def f64_round_def by (intro exI [of _ 0] exI [of _ 0]) simp
next
  case False
  define t where "t = max (f64_exponent x - 52) (-1074)"
  have "\<bar>x\<bar> < 2 powi (f64_exponent x + 1)" using False by (rule f64_exponent_bounds)
  also have "\<dots> \<le> 2 powi (53 + t)" by (intro power_int_increasing) (auto simp: t_def)
  finally have "\<bar>x / 2 powi t\<bar> \<le> of_int (2 ^ 53)"
    by (simp add: abs_divide power_int_add divide_le_eq)
  then have "\<bar>round_half_even (x / 2 powi t)\<bar> \<le> 2 ^ 53" by (rule round_half_even_abs)
  moreover have "f64_round x = of_int (round_half_even (x / 2 powi t)) * 2 powi t"
    using False by (simp add: f64_round_def t_def Let_def)
  moreover have "- 1074 \<le> t" by (simp add: t_def)
  ultimately show ?thesis unfolding representable_def by blast
qed

lemma round_representable:
  assumes "representable y"
  shows "f64_round y = y"
proof (cases "y = 0")
  case True
  then show ?thesis by (simp add: f64_round_def)
next
  case False
  obtain r t where y: "y = of_int r * 2 powi t" "\<bar>r\<bar> \<le> 2 ^ 53" "- 1074 \<le> t"
    using assms by (auto simp: representable_def)
  define u where "u = max (f64_exponent y - 52) (-1074)"
  have "\<exists>n. y / 2 powi u = of_int n"
  proof (cases "u \<le> t")
    case True
    then have "y / 2 powi u = of_int r * 2 powi (t - u)"
      by (simp add: y power_int_diff)
    also have "\<dots> = of_int (r * 2 ^ nat (t - u))"
      using True by (simp add: power_int_def)
    finally show ?thesis by blast
  next
    case False
    then have u: "t < u" by simp
    with y(3) have e: "u = f64_exponent y - 52" by (simp add: u_def)
    have "\<bar>r\<bar> = 2 ^ 53"
    proof (rule ccontr)
      assume "\<bar>r\<bar> \<noteq> 2 ^ 53"
      with y(2) have "\<bar>r\<bar> < 2 ^ 53" by simp
      then have "of_int \<bar>r\<bar> < (of_int (2 ^ 53) :: rat)" by (simp only: of_int_less_iff)
      then have "\<bar>y\<bar> < 2 powi (52 + t + 1)"
        by (simp add: y(1) abs_mult power_int_add)
      then have "f64_exponent y \<le> 52 + t" using \<open>y \<noteq> 0\<close> by (intro f64_exponent_le)
      with u e show False by simp
    qed
    moreover have "u = t + 1"
    proof -
      have "of_int \<bar>r\<bar> \<le> (of_int (2 ^ 53) :: rat)" using y(2) by (simp only: of_int_le_iff)
      then have "\<bar>y\<bar> < 2 powi (53 + t + 1)"
        by (simp add: y(1) abs_mult power_int_add)
      then have "f64_exponent y \<le> 53 + t" using \<open>y \<noteq> 0\<close> by (intro f64_exponent_le)
      with u e show ?thesis by simp
    qed
    ultimately have "y / 2 powi u = of_int (sgn r * 2 ^ 52)"
      using mult_sgn_abs [of r] by (simp add: y(1) power_int_add)
    then show ?thesis by blast
  qed
  then obtain n where n: "y / 2 powi u = of_int n" by blast
  then have y': "of_int n * 2 powi u = y" by (simp add: field_simps)
  have "f64_round y = of_int (round_half_even (y / 2 powi u)) * 2 powi u"
    using False by (simp add: f64_round_def u_def Let_def)
  then show ?thesis by (simp only: n round_half_even_int y')
qed

lemma f64_round_idem [simp]: "f64_round (f64_round x) = f64_round x"
  by (rule round_representable [OF representable_round])

lemma f64_round_0 [simp]: "f64_round 0 = 0"
  by (simp add: f64_round_def)

lemma f64_round_1 [simp]: "f64_round 1 = 1"
proof (rule round_representable)
  show "representable 1"
    unfolding representable_def by (rule exI [of _ 1], rule exI [of _ 0]) simp
qed

text \<open>The average of an \<open>EMA\<close> is always a double.\<close>

lemma representable_of_int64: "representable (f64_of_int64 i)"
  by (simp add: f64_of_int64_def representable_round)

section \<open>Running averages\<close>

definition EMA_run :: "EMA \<Rightarrow> i64 list \<Rightarrow> EMA" where
  "EMA_run ema samples = foldl (\<lambda>e i. snd (EMA_Update e i)) ema samples"

lemma EMA_Update_first:
  "\<not> ema_Init e \<Longrightarrow> EMA_Update e i =
     (f64_of_int64 i, e\<lparr>ema_Last := i, ema_Init := True, ema_Avg := f64_of_int64 i\<rparr>)"
  by (simp add: EMA_Update_def)

lemma EMA_Update_representable:
  "representable (fst (EMA_Update e i)) \<and> fst (EMA_Update e i) = ema_Avg (snd (EMA_Update e i))"
  by (simp add: EMA_Update_def Let_def f64_add_def representable_round representable_of_int64)

text \<open>With smoothing constant zero, an initialised average does not move.\<close>

lemma EMA_Update_zero_constant:
  assumes "ema_Init e" "ema_Constant e = 0" "representable (ema_Avg e)"
  shows "EMA_Update e i = (ema_Avg e, e\<lparr>ema_Last := i\<rparr>)"
  using round_representable [OF assms(3)] assms(1,2)
  by (simp add: EMA_Update_def f64_add_def f64_mul_def f64_sub_def)

lemma EMA_run_zero_constant:
  assumes "ema_Init e" "ema_Constant e = 0" "representable (ema_Avg e)"
  shows "ema_Avg (EMA_run e samples) = ema_Avg e \<and>
    ema_Last (EMA_run e samples) = last (ema_Last e # samples)"
  using assms
proof (induction samples arbitrary: e)
  case Nil
  then show ?case by (simp add: EMA_run_def)
next
  case (Cons i samples)
  then have "EMA_run e (i # samples) = EMA_run (e\<lparr>ema_Last := i\<rparr>) samples"
    by (simp add: EMA_run_def EMA_Update_zero_constant)
  with Cons show ?case by simp
qed

lemma EMA_run_zero_value:
  "ema_Avg (EMA_run zero_EMA (i # samples)) = f64_of_int64 i \<and>
   ema_Last (EMA_run zero_EMA (i # samples)) = last (i # samples)"
proof -
  let ?e = "snd (EMA_Update zero_EMA i)"
  have e: "ema_Init ?e" "ema_Constant ?e = 0" "ema_Avg ?e = f64_of_int64 i" "ema_Last ?e = i"
    by (simp_all add: EMA_Update_def zero_EMA_def)
  then have "representable (ema_Avg ?e)" by (simp add: representable_of_int64)
  from EMA_run_zero_constant [OF e(1,2) this, of samples] e show ?thesis
    by (simp add: EMA_run_def)
qed

section \<open>Properties\<close>

text \<open>An \<open>EMA\<close> used as Go's zero value, as the server's manager holds it, never averages:
  its smoothing constant is 0, so \<open>Avg\<close> stays at the first sample, whatever follows, while
  \<open>Last\<close> moves on.\<close>

theorem zero_EMA_frozen:
  "ema_Avg (EMA_run zero_EMA (i # samples)) = f64_of_int64 i \<and>
   ema_Last (EMA_run zero_EMA (i # samples)) = last (i # samples)"
  by (rule EMA_run_zero_value)

end
