(* ===== verification/PortAlloc.thy ===== *)
theory PortAlloc
  imports GoStrings
begin

text \<open>
  The port allocation of \<open>netstat/netstat.go\<close>: a range of ports, a generator goroutine
  that feeds random permutations of the range into a channel, and the two searches that
  probe ports by listening on them.  What the operating system answers to a probe is an
  argument of the model (the outcome of the \<open>k\<close>-th \<open>net.Listen\<close> of a call), as are the
  permutations that \<open>rand.Perm\<close> draws.
\<close>

text \<open>Whether the \<open>k\<close>-th probe of a call finds a port free.\<close>

type_synonym probe = "nat \<Rightarrow> int \<Rightarrow> bool"

text \<open>\<open>net.Listen("tcp", ":" + strconv.Itoa(port))\<close> fails on a number that is no port.\<close>

definition listen_ok :: "probe \<Rightarrow> nat \<Rightarrow> int \<Rightarrow> bool" where
  "listen_ok free k port \<longleftrightarrow> 0 \<le> port \<and> port \<le> 65535 \<and> free k port"

section \<open>FindOneAvailablePort\<close>

datatype port_error = NoAvailablePort

function FindOne_loop :: "probe \<Rightarrow> nat \<Rightarrow> int \<Rightarrow> int \<Rightarrow> port_error + int" where
  "FindOne_loop free k port endPort =
     (if port \<le> endPort then
        (if listen_ok free k port then Inr port
         else FindOne_loop free (Suc k) (port + 1) endPort)
      else Inl NoAvailablePort)"
  by pat_completeness auto
termination
  by (relation "measure (\<lambda>(free, k, port, endPort). nat (endPort + 1 - port))") auto

declare FindOne_loop.simps [simp del]

definition FindOneAvailablePort :: "probe \<Rightarrow> int \<Rightarrow> int \<Rightarrow> port_error + int" where
  "FindOneAvailablePort free startPort endPort = FindOne_loop free 0 startPort endPort"

section \<open>The random pool\<close>

text \<open>
  The values a receiver gets from \<open>randPool\<close>, in order: permutation after permutation of
  \<open>start, \<dots>, end - 1\<close>.  For an empty range the generator spins and nothing ever
  arrives (\<open>None\<close>); for a negative one \<open>rand.Perm\<close> panics.
\<close>

type_synonym perms = "nat \<Rightarrow> nat list"
type_synonym pool = "nat \<Rightarrow> int option"

definition randInts :: "int \<Rightarrow> int \<Rightarrow> perms \<Rightarrow> pool outcome" where
  "randInts start stop perms =
     (let len = stop - start in
      if len < 0 then Panics
      else if len = 0 then Returns (\<lambda>n. None)
      else Returns (\<lambda>n. Some (start + int (perms (n div nat len) ! (n mod nat len)))))"

record port_state =
  sPort :: int
  ePort :: int
  force :: bool
  randPool :: pool
  poolPos :: nat

definition SetPortRange :: "int \<Rightarrow> int \<Rightarrow> bool \<Rightarrow> perms \<Rightarrow> port_state outcome" where
  "SetPortRange startPort endPort forceRange perms =
     (case randInts startPort endPort perms of
        Returns p \<Rightarrow> Returns \<lparr>sPort = startPort, ePort = endPort, force = forceRange,
                              randPool = p, poolPos = 0\<rparr>
      | Panics \<Rightarrow> Panics
      | Blocks \<Rightarrow> Blocks)"

section \<open>FindAvailablePort\<close>

text \<open>
  The loop takes one value of the pool per turn; \<open>i\<close> only counts the turns.  The result
  carries the advanced pool position.
\<close>

function FindAvailable_loop ::
  "probe \<Rightarrow> port_state \<Rightarrow> nat \<Rightarrow> int \<Rightarrow> (int \<times> port_state) outcome" where
  "FindAvailable_loop free st k i =
     (if i \<le> ePort st then
        (case randPool st (poolPos st) of
           None \<Rightarrow> Blocks
         | Some port \<Rightarrow>
             (if listen_ok free k port then Returns (port, st\<lparr>poolPos := Suc (poolPos st)\<rparr>)
              else FindAvailable_loop free (st\<lparr>poolPos := Suc (poolPos st)\<rparr>) (Suc k) (i + 1)))
      else Returns (0, st))"
  by pat_completeness auto
termination
  by (relation "measure (\<lambda>(free, st, k, i). nat (ePort st + 1 - i))") auto

declare FindAvailable_loop.simps [simp del]

definition FindAvailablePort :: "probe \<Rightarrow> int \<Rightarrow> port_state \<Rightarrow> (int \<times> port_state) outcome" where
  "FindAvailablePort free init st =
     (let init1 = (if force st \<and> (init < sPort st \<or> ePort st < init) then 0 else init) in
      if 0 < init1 then
        (if listen_ok free 0 init1 then Returns (init1, st)
         else FindAvailable_loop free st 1 init1)
      else FindAvailable_loop free st 0 (sPort st))"

section \<open>Lemmas\<close>

lemma FindOne_loop_Inr:
  "FindOne_loop free k port e = Inr p \<Longrightarrow>
   port \<le> p \<and> p \<le> e \<and> listen_ok free (k + nat (p - port)) p \<and>
   (\<forall>q. port \<le> q \<and> q < p \<longrightarrow> \<not> listen_ok free (k + nat (q - port)) q)"
proof (induction free k port e rule: FindOne_loop.induct)
  case (1 free k port e)
  show ?case
  proof (cases "port \<le> e \<and> \<not> listen_ok free k port")
    case False
    with "1.prems" show ?thesis by (auto simp: FindOne_loop.simps [of free k port e] split: if_splits)
  next
    case True
    with 1 have IH: "port + 1 \<le> p \<and> p \<le> e \<and> listen_ok free (Suc k + nat (p - (port + 1))) p \<and>
      (\<forall>q. port + 1 \<le> q \<and> q < p \<longrightarrow> \<not> listen_ok free (Suc k + nat (q - (port + 1))) q)"
      by (simp add: FindOne_loop.simps [of free k port e])
    have k: "port < q \<Longrightarrow> nat (q - port) = Suc (nat (q - (port + 1)))" for q by simp
    show ?thesis
    proof (intro conjI allI impI)
      fix q assume q: "port \<le> q \<and> q < p"
      show "\<not> listen_ok free (k + nat (q - port)) q"
        using True IH k [of q] q by (cases "q = port") auto
    qed (use IH k [of p] in auto)
  qed
qed

lemma FindOne_loop_Inl:
  "FindOne_loop free k port e = Inl x \<longleftrightarrow>
   (\<forall>q. port \<le> q \<and> q \<le> e \<longrightarrow> \<not> listen_ok free (k + nat (q - port)) q)"
proof (induction free k port e rule: FindOne_loop.induct)
  case (1 free k port e)
  have k: "port < q \<Longrightarrow> nat (q - port) = Suc (nat (q - (port + 1)))" for q by simp
  show ?case
  proof (cases "port \<le> e \<and> \<not> listen_ok free k port")
    case False
    then show ?thesis
      by (cases x) (auto simp: FindOne_loop.simps [of free k port e] intro: exI [of _ port])
  next
    case True
    then have "FindOne_loop free k port e = Inl x \<longleftrightarrow>
        (\<forall>q. port + 1 \<le> q \<and> q \<le> e \<longrightarrow> \<not> listen_ok free (Suc k + nat (q - (port + 1))) q)"
      using 1 by (simp add: FindOne_loop.simps [of free k port e])
    also have "\<dots> \<longleftrightarrow> (\<forall>q. port \<le> q \<and> q \<le> e \<longrightarrow> \<not> listen_ok free (k + nat (q - port)) q)"
    proof -
      have "(port + 1 \<le> q \<and> q \<le> e \<longrightarrow> \<not> listen_ok free (Suc k + nat (q - (port + 1))) q) \<longleftrightarrow>
            (port \<le> q \<and> q \<le> e \<longrightarrow> \<not> listen_ok free (k + nat (q - port)) q)" for q
        using True k [of q] by (cases "q = port") auto
      then show ?thesis by simp
    qed
    finally show ?thesis .
  qed
qed

text \<open>\<open>rand.Perm(n)\<close> returns a permutation of \<open>0, \<dots>, n - 1\<close>.\<close>

definition permutations :: "perms \<Rightarrow> nat \<Rightarrow> bool" where
  "permutations perms n \<longleftrightarrow> (\<forall>i. distinct (perms i) \<and> set (perms i) = {..<n})"

lemma permutations_length: "permutations perms n \<Longrightarrow> length (perms i) = n"
  by (metis permutations_def distinct_card card_lessThan)

lemma permutations_nth: "permutations perms n \<Longrightarrow> j < n \<Longrightarrow> perms i ! j < n"
  using permutations_length [of perms n i] nth_mem [of j "perms i"] by (auto simp: permutations_def)

text \<open>
  What every allocation state satisfies that \<open>SetPortRange\<close> leaves when the start of the range
  is below its end: the pool delivers ports of the range without its upper end, each exactly once
  per cycle.  \<open>SetPortRange\<close> itself makes no such test; what happens when start and end are equal
  is \<open>singleton_range_blocks\<close>, at the end of this theory.
\<close>

definition pool_of :: "perms \<Rightarrow> port_state \<Rightarrow> bool" where
  "pool_of perms st \<longleftrightarrow> sPort st < ePort st \<and> permutations perms (nat (ePort st - sPort st)) \<and>
     randInts (sPort st) (ePort st) perms = Returns (randPool st)"

lemma SetPortRange_pool:
  assumes "s < e" "permutations perms (nat (e - s))"
  shows "\<exists>st. SetPortRange s e f perms = Returns st \<and> pool_of perms st \<and> poolPos st = 0 \<and>
    sPort st = s \<and> ePort st = e \<and> force st = f"
  using assms by (simp add: SetPortRange_def pool_of_def randInts_def Let_def)

lemma pool_of_poolPos [simp]: "pool_of perms (st\<lparr>poolPos := n\<rparr>) = pool_of perms st"
  by (simp add: pool_of_def)

lemma pool_value:
  assumes "pool_of perms st"
  shows "randPool st n = Some (sPort st + int (perms (n div nat (ePort st - sPort st)) ! (n mod nat (ePort st - sPort st))))"
proof -
  have "randPool st = (\<lambda>n. Some (sPort st + int (perms (n div nat (ePort st - sPort st)) !
      (n mod nat (ePort st - sPort st)))))"
    using assms by (auto simp: pool_of_def randInts_def Let_def)
  then show ?thesis by (rule fun_cong)
qed

lemma pool_in_range:
  assumes "pool_of perms st" "randPool st n = Some p"
  shows "sPort st \<le> p \<and> p < ePort st"
proof -
  let ?l = "nat (ePort st - sPort st)"
  have l: "0 < ?l" and perm: "permutations perms ?l" using assms(1) by (auto simp: pool_of_def)
  have "perms (n div ?l) ! (n mod ?l) < ?l" using perm l by (intro permutations_nth) auto
  then show ?thesis using assms pool_value [OF assms(1), of n] by auto
qed

lemma FindAvailable_loop_result:
  assumes "pool_of perms st"
  shows "\<exists>p st'. FindAvailable_loop free st k i = Returns (p, st') \<and>
    st' = st\<lparr>poolPos := poolPos st'\<rparr> \<and> poolPos st \<le> poolPos st' \<and>
    (p = 0 \<or> sPort st \<le> p \<and> p < ePort st \<and> (\<exists>k'\<ge>k. listen_ok free k' p))"
  using assms
proof (induction free st k i rule: FindAvailable_loop.induct)
  case (1 free st k i)
  obtain port where port: "randPool st (poolPos st) = Some port"
    using pool_value [OF "1.prems"] by blast
  then have r: "sPort st \<le> port" "port < ePort st" using pool_in_range [OF "1.prems"] by blast+
  consider "\<not> i \<le> ePort st" | "i \<le> ePort st" "listen_ok free k port"
    | "i \<le> ePort st" "\<not> listen_ok free k port" by blast
  then show ?case
  proof cases
    case 1
    then show ?thesis by (simp add: FindAvailable_loop.simps [of free st k i])
  next
    case 2
    then show ?thesis using port r by (auto simp: FindAvailable_loop.simps [of free st k i])
  next
    case 3
    obtain p st' where IH: "FindAvailable_loop free (st\<lparr>poolPos := Suc (poolPos st)\<rparr>) (Suc k) (i + 1) = Returns (p, st')"
      "st' = st\<lparr>poolPos := poolPos st'\<rparr>" "Suc (poolPos st) \<le> poolPos st'"
      "p = 0 \<or> sPort st \<le> p \<and> p < ePort st \<and> (\<exists>k'\<ge>Suc k. listen_ok free k' p)"
      using "1.IH" [OF 3(1) port 3(2)] "1.prems" by auto
    have "FindAvailable_loop free st k i = Returns (p, st')"
      using 3 port IH(1) by (simp add: FindAvailable_loop.simps [of free st k i])
    moreover have "\<exists>k'\<ge>Suc k. listen_ok free k' p \<Longrightarrow> \<exists>k'\<ge>k. listen_ok free k' p"
      using Suc_leD by blast
    ultimately show ?thesis using IH(2,3,4) by (intro exI [of _ p] exI [of _ st']) auto
  qed
qed

lemma FindAvailable_loop_skip:
  "i \<le> ePort st \<Longrightarrow> randPool st (poolPos st) = Some port \<Longrightarrow> \<not> listen_ok free k port \<Longrightarrow>
   FindAvailable_loop free st k i =
     FindAvailable_loop free (st\<lparr>poolPos := Suc (poolPos st)\<rparr>) (Suc k) (i + 1)"
  by (subst FindAvailable_loop.simps) simp

text \<open>
  If some value among the pool's next \<open>n\<close> is a port that stays free, and the loop has
  that many turns, the loop finds a port.
\<close>

lemma FindAvailable_loop_finds:
  assumes "pool_of perms st" "0 < sPort st" "randPool st (poolPos st + j) = Some q"
    "\<And>k. listen_ok free k q" "i + int j \<le> ePort st"
  shows "\<exists>p st'. FindAvailable_loop free st k i = Returns (p, st') \<and> 0 < p"
  using assms
proof (induction j arbitrary: st k i)
  case 0
  then show ?case
    using pool_in_range [of perms st "poolPos st" q] by (subst FindAvailable_loop.simps) auto
next
  case (Suc j)
  obtain port where port: "randPool st (poolPos st) = Some port"
    using pool_value [OF Suc.prems(1)] by blast
  show ?case
  proof (cases "listen_ok free k port")
    case True
    then show ?thesis using Suc.prems port pool_in_range [OF Suc.prems(1) port]
      by (subst FindAvailable_loop.simps) auto
  next
    case False
    have "FindAvailable_loop free st k i =
        FindAvailable_loop free (st\<lparr>poolPos := Suc (poolPos st)\<rparr>) (Suc k) (i + 1)"
      using Suc.prems(5) port False by (intro FindAvailable_loop_skip) auto
    moreover have "\<exists>p st'. FindAvailable_loop free (st\<lparr>poolPos := Suc (poolPos st)\<rparr>) (Suc k) (i + 1) = Returns (p, st') \<and> 0 < p"
      using Suc.prems by (intro Suc.IH) auto
    ultimately show ?thesis by simp
  qed
qed

text \<open>A cycle of the pool delivers every port of the range except its upper end.\<close>

lemma pool_cycle:
  assumes "pool_of perms st" "sPort st \<le> q" "q < ePort st" "poolPos st mod nat (ePort st - sPort st) = 0"
  shows "\<exists>j < nat (ePort st - sPort st). randPool st (poolPos st + j) = Some q"
proof -
  let ?l = "nat (ePort st - sPort st)"
  have l: "0 < ?l" and perm: "permutations perms ?l" using assms(1) by (auto simp: pool_of_def)
  let ?p = "perms (poolPos st div ?l)"
  have "nat (q - sPort st) \<in> set ?p" using perm assms(2,3) by (auto simp: permutations_def)
  then obtain j where j: "j < ?l" "?p ! j = nat (q - sPort st)"
    using permutations_length [OF perm] by (metis in_set_conv_nth)
  have "(poolPos st + j) div ?l = poolPos st div ?l" "(poolPos st + j) mod ?l = j"
    using assms(4) j(1) l by (auto simp: div_add1_eq mod_add_eq [symmetric] elim!: dvdE simp flip: mod_eq_0_iff_dvd)
  then show ?thesis using j assms(2) pool_value [OF assms(1), of "poolPos st + j"] by auto
qed

section \<open>Properties\<close>

text \<open>\<open>FindOneAvailablePort\<close> returns a port of the inclusive range that was free when it
  was probed, every smaller port of the range having been busy at its probe; it fails only
  after finding every port of the range busy.\<close>

theorem FindOneAvailablePort_least:
  "case FindOneAvailablePort free s e of
     Inr p \<Rightarrow> s \<le> p \<and> p \<le> e \<and> listen_ok free (nat (p - s)) p \<and>
       (\<forall>q\<in>{s..<p}. \<not> listen_ok free (nat (q - s)) q)
   | Inl err \<Rightarrow> (\<forall>q\<in>{s..e}. \<not> listen_ok free (nat (q - s)) q)"
proof (cases "FindOneAvailablePort free s e")
  case (Inl err)
  then show ?thesis using FindOne_loop_Inl [of free 0 s e err] by (simp add: FindOneAvailablePort_def)
next
  case (Inr p)
  then show ?thesis using FindOne_loop_Inr [of free 0 s e p] by (simp add: FindOneAvailablePort_def)
qed

lemma FindOneAvailablePort_least_witness:
  "\<exists>p. FindOneAvailablePort (\<lambda>k p. p = 81) 80 90 = Inr p \<and> 80 \<le> p \<and> listen_ok (\<lambda>k p. p = 81) (nat (p - 80)) p"
proof -
  let ?free = "\<lambda>(k::nat) p. p = (81::int)"
  have ok: "listen_ok ?free (nat (81 - 80)) 81" by (simp add: listen_ok_def)
  show ?thesis
  proof (cases "FindOneAvailablePort ?free 80 90")
    case (Inl err)
    with FindOneAvailablePort_least [where free = ?free and s = 80 and e = 90] have "\<forall>q\<in>{80..90}. \<not> listen_ok ?free (nat (q - 80)) q" by simp
    then have "\<not> listen_ok ?free (nat (81 - 80)) 81" by (rule bspec) simp
    with ok show ?thesis by blast
  next
    case (Inr p)
    with FindOneAvailablePort_least [where free = ?free and s = 80 and e = 90] show ?thesis by auto
  qed
qed

text \<open>C12: Once a range is set whose start is below its end, \<open>FindAvailablePort\<close> never waits, and
  what it returns is the requested port, found free, or a port of the pool, found free, below the
  upper end of the range, or 0.  With \<open>forceRange\<close> the requested port is in the range too.
  (\<open>SetPortRange\<close> also accepts a start equal to the end, and then the search can wait for ever:
  \<open>singleton_range_blocks\<close> below.)\<close>

theorem FindAvailablePort_result:
  assumes "pool_of perms st"
  shows "\<exists>p st'. FindAvailablePort free init st = Returns (p, st') \<and>
    st' = st\<lparr>poolPos := poolPos st'\<rparr> \<and> poolPos st \<le> poolPos st' \<and>
    (p = 0 \<or> (p = init \<and> listen_ok free 0 p \<and> (force st \<longrightarrow> sPort st \<le> p \<and> p \<le> ePort st))
           \<or> (sPort st \<le> p \<and> p < ePort st \<and> (\<exists>k. listen_ok free k p)))"
proof -
  have loop: "\<exists>p st'. FindAvailable_loop free st k i = Returns (p, st') \<and>
      st' = st\<lparr>poolPos := poolPos st'\<rparr> \<and> poolPos st \<le> poolPos st' \<and>
      (p = 0 \<or> sPort st \<le> p \<and> p < ePort st \<and> (\<exists>k'. listen_ok free k' p))" for k i
    using FindAvailable_loop_result [OF assms, of free k i] by blast
  consider "FindAvailablePort free init st = FindAvailable_loop free st 1 init"
    | "FindAvailablePort free init st = FindAvailable_loop free st 0 (sPort st)"
    | "FindAvailablePort free init st = Returns (init, st)" "listen_ok free 0 init"
      "force st \<longrightarrow> sPort st \<le> init \<and> init \<le> ePort st"
    by (cases "force st \<and> (init < sPort st \<or> ePort st < init)"; cases "0 < init"; cases "listen_ok free 0 init")
      (simp_all add: FindAvailablePort_def not_less)
  then show ?thesis
  proof cases
    case 1
    then show ?thesis using loop [of 1 init] by metis
  next
    case 2
    then show ?thesis using loop [of 0 "sPort st"] by metis
  qed simp
qed

text \<open>The allocation state of the witnesses: ports 30000 to 30002, drawn in order.\<close>

definition demo_ports :: "bool \<Rightarrow> port_state" where
  "demo_ports f = \<lparr>sPort = 30000, ePort = 30002, force = f,
     randPool = (\<lambda>n. Some (30000 + int ([0, 1] ! (n mod 2)))), poolPos = 0\<rparr>"

lemma demo_pool: "pool_of (\<lambda>_. [0, 1]) (demo_ports f)"
  by (auto simp: pool_of_def demo_ports_def permutations_def randInts_def)

lemma FindAvailablePort_result_witness:
  "\<exists>p st'. FindAvailablePort (\<lambda>_ _. True) 80 (demo_ports True) = Returns (p, st') \<and>
     (p = 0 \<or> 30000 \<le> p \<and> p \<le> 30002)"
  using FindAvailablePort_result [OF demo_pool [of True], of "\<lambda>_ _. True" 80]
  by (auto simp: demo_ports_def)

text \<open>C38: Completeness without a request: when the pool is at the start of a cycle, a port of
  the range other than its upper end that stays free is enough for \<open>FindAvailablePort(0)\<close>
  to find a port.\<close>

theorem FindAvailablePort_finds:
  assumes "pool_of perms st" "0 < sPort st" "poolPos st mod nat (ePort st - sPort st) = 0"
    "sPort st \<le> q" "q < ePort st" "\<And>k. listen_ok free k q"
  shows "\<exists>p st'. FindAvailablePort free 0 st = Returns (p, st') \<and> 0 < p"
proof -
  obtain j where j: "j < nat (ePort st - sPort st)" "randPool st (poolPos st + j) = Some q"
    using pool_cycle [OF assms(1,4,5,3)] by blast
  have "sPort st + int j \<le> ePort st" using j(1) by linarith
  from FindAvailable_loop_finds [OF assms(1,2) j(2) assms(6) this, of 0]
  show ?thesis by (simp add: FindAvailablePort_def)
qed

lemma FindAvailablePort_finds_witness:
  "\<exists>p st'. FindAvailablePort (\<lambda>k p. p = 30001) 0 (demo_ports False) = Returns (p, st') \<and> 0 < p"
  using FindAvailablePort_finds [OF demo_pool, of False 30001 "\<lambda>k p. p = 30001"]
  by (simp add: demo_ports_def listen_ok_def)

text \<open>A range of one port leaves the random pool empty for ever, so a search that has to
  draw from it waits for ever, also when that port is free.\<close>

theorem singleton_range_blocks:
  "\<exists>st. SetPortRange s s f perms = Returns st \<and>
     FindAvailablePort free 0 st = Blocks \<and> (\<forall>init. 0 < init \<longrightarrow> init \<le> s \<longrightarrow> \<not> listen_ok free 0 init \<longrightarrow>
       (f \<longrightarrow> init = s) \<longrightarrow> FindAvailablePort free init st = Blocks)"
proof -
  define st where "st = \<lparr>sPort = s, ePort = s, force = f, randPool = (\<lambda>n. None), poolPos = 0\<rparr>"
  have s: "SetPortRange s s f perms = Returns st"
    by (simp add: SetPortRange_def randInts_def st_def)
  have loop: "i \<le> s \<Longrightarrow> FindAvailable_loop free st k i = Blocks" for k i
    by (subst FindAvailable_loop.simps) (simp add: st_def)
  have "FindAvailablePort free 0 st = Blocks"
    using loop [of s 0] by (simp add: FindAvailablePort_def) (simp add: st_def)
  moreover have "FindAvailablePort free init st = Blocks"
    if "0 < init" "init \<le> s" "\<not> listen_ok free 0 init" "f \<longrightarrow> init = s" for init
    using that loop [of init 1] by (simp add: FindAvailablePort_def) (auto simp: st_def)
  ultimately show ?thesis using s by blast
qed

lemma singleton_range_blocks_witness:
  "\<exists>st. SetPortRange 4000 4000 True (\<lambda>_. []) = Returns st \<and> FindAvailablePort (\<lambda>_ _. True) 0 st = Blocks"
  using singleton_range_blocks [of 4000 True "\<lambda>_. []" "\<lambda>_ _. True"] by blast

end
