(* ===== verification/ServerProxy.thy ===== *)
theory ServerProxy
  imports GoStrings
begin

text \<open>
  The server side of a proxy, \<open>server/proxy.go\<close>: its record, \<open>NewProxy\<close> with the port
  the listener really got, and \<open>Close\<close>.  The loop that serves its connections needs
  the manager and is in \<open>ProxyServe\<close>.  What a goroutine does to the outside world is a
  list of effects.
\<close>

type_synonym conn = nat

datatype effect =
    CloseConn conn
  | OpenListener gostring
  | CloseListener gostring

record srv_proxy =
  px_Name :: gostring
  px_Port :: gostring
  px_Remote :: gostring

text \<open>
  What \<open>net.Listen("tcp", ":" + port)\<close> answers: the text of an error, or the port that
  \<open>net.SplitHostPort\<close> finds in the listener's address, if that succeeds.
\<close>

type_synonym listen_answer = "gostring \<Rightarrow> gostring + gostring option"

definition ActualPort :: "srv_proxy \<Rightarrow> gostring option \<Rightarrow> gostring" where
  "ActualPort proxy addr = (case addr of None \<Rightarrow> px_Port proxy | Some port \<Rightarrow> port)"

definition NewProxy ::
  "listen_answer \<Rightarrow> gostring \<Rightarrow> gostring \<Rightarrow> gostring \<Rightarrow> (gostring + srv_proxy) \<times> effect list" where
  "NewProxy listen name port remote =
     (let proxy = \<lparr>px_Name = name, px_Port = port, px_Remote = remote\<rparr> in
      case listen port of
        Inl err \<Rightarrow> (Inl err, [])
      | Inr addr \<Rightarrow>
        (let actual = ActualPort proxy addr
         in (Inr (proxy\<lparr>px_Port := actual\<rparr>), [OpenListener actual])))"

definition Proxy_Close :: "srv_proxy \<Rightarrow> effect list" where
  "Proxy_Close proxy = [CloseListener (px_Port proxy)]"

definition Proxy_String :: "srv_proxy \<Rightarrow> gostring" where
  "Proxy_String proxy = ''<'' @ px_Name proxy @ '':'' @ px_Port proxy @ ''>''"

text \<open>
  The documented behaviour of \<open>net.Listen\<close>: a port other than 0 is the port the listener
  gets, port 0 lets the system choose.
\<close>

definition listens_on_request :: "listen_answer \<Rightarrow> bool" where
  "listens_on_request listen \<longleftrightarrow> (\<forall>port addr. port \<noteq> ''0'' \<longrightarrow> listen port = Inr (Some addr) \<longrightarrow> addr = port)"

lemma NewProxy_Inr:
  assumes "NewProxy listen name port remote = (Inr proxy, eff)"
  shows "px_Name proxy = name" "px_Remote proxy = remote" "eff = [OpenListener (px_Port proxy)]"
    "listens_on_request listen \<Longrightarrow> port \<noteq> ''0'' \<Longrightarrow> px_Port proxy = port"
  using assms
  by (auto simp: NewProxy_def ActualPort_def listens_on_request_def Let_def split: option.splits sum.splits)

end
