(* ===== verification/Manager.thy ===== *)
theory Manager
  imports GoChan Message Util Ema PortAlloc ServerProxy
begin

text \<open>
  \<open>server/manager.go\<close>: a manager keeps one client: its control stream, the channels of
  received and of outgoing messages, its proxies and the pool of idle pipes.  Operations
  return the new manager; those that may wait or panic return an \<open>outcome\<close>.  This theory
  holds the operations one goroutine runs at a time; \<open>ManagerRun\<close> interleaves the
  goroutines.
\<close>

definition MaxPoolSize :: int where "MaxPoolSize = 8"

datatype mgr_error = ErrMgrClosed | ErrPoolFull | ErrPipeTimeout

record manager =
  ClientId :: gostring
  Tag :: gostring
  mconn :: conn
  ConnTime :: i64
  recvChan :: "message chan"
  sendChan :: "message chan"
  Proxies :: "gostring \<rightharpoonup> srv_proxy"
  ProxiesStr :: gostring
  pipeConnPool :: "conn chan"
  PoolSize :: int
  Meta :: LoginRequest
  LastBeatTime :: i64
  Latency :: EMA
  closed :: bool

section \<open>NewManager\<close>

definition pool_size :: "LoginRequest \<Rightarrow> int" where
  "pool_size req =
     (let n = (if 0 < sint (login_PoolSize req) then sint (login_PoolSize req) else 2)
      in if MaxPoolSize < n then MaxPoolSize else n)"

definition NewManager :: "gostring \<Rightarrow> conn \<Rightarrow> LoginRequest \<Rightarrow> i64 \<Rightarrow> manager" where
  "NewManager cid conn req now =
     \<lparr>ClientId = cid, Tag = login_Tag req, mconn = conn, ConnTime = now,
      recvChan = make_chan 10, sendChan = make_chan 10, Proxies = (\<lambda>_. None), ProxiesStr = [],
      pipeConnPool = make_chan (nat (pool_size req * 2)), PoolSize = pool_size req, Meta = req,
      LastBeatTime = 0, Latency = zero_EMA, closed = False\<rparr>"

section \<open>Sending, pushing and popping\<close>

definition IsClosed :: "manager \<Rightarrow> bool" where
  "IsClosed m = closed m"

text \<open>
  \<open>SendMassage\<close> after its closed test: the send on the channel, whose panic the deferred
  \<open>recover\<close> turns into a nil result.
\<close>

definition SendMassage_send :: "manager \<Rightarrow> message \<Rightarrow> (mgr_error option \<times> manager) outcome" where
  "SendMassage_send m msg =
     (case chan_send (sendChan m) msg of
        Returns c \<Rightarrow> Returns (None, m\<lparr>sendChan := c\<rparr>)
      | Panics \<Rightarrow> Returns (None, m)
      | Blocks \<Rightarrow> Blocks)"

definition SendMassage :: "manager \<Rightarrow> message \<Rightarrow> (mgr_error option \<times> manager) outcome" where
  "SendMassage m msg = (if IsClosed m then Returns (Some ErrMgrClosed, m) else SendMassage_send m msg)"

definition ReqPipeConn :: "manager \<Rightarrow> (mgr_error option \<times> manager) outcome" where
  "ReqPipeConn m = SendMassage m (MPipeRequest \<lparr>pipeReq_ClientId = []\<rparr>)"

text \<open>\<open>PushPipeConn\<close> after its closed test: a non-blocking send, panics recovered to nil.\<close>

definition PushPipeConn_send :: "manager \<Rightarrow> conn \<Rightarrow> mgr_error option \<times> manager" where
  "PushPipeConn_send m c =
     (case chan_try_send (pipeConnPool m) c of
        Returns (Some p) \<Rightarrow> (None, m\<lparr>pipeConnPool := p\<rparr>)
      | Returns None \<Rightarrow> (Some ErrPoolFull, m)
      | _ \<Rightarrow> (None, m))"

definition PushPipeConn :: "manager \<Rightarrow> conn \<Rightarrow> mgr_error option \<times> manager" where
  "PushPipeConn m c = (if IsClosed m then (Some ErrMgrClosed, m) else PushPipeConn_send m c)"

text \<open>
  The \<open>select\<close> of \<open>PopPipeConn\<close>: a pipe, or the closed pool, or, when the five seconds
  are over and the timer's case is chosen (\<open>timeout\<close>), an error; until then it waits.
\<close>

definition PopPipeConn_recv :: "bool \<Rightarrow> manager \<Rightarrow> ((mgr_error + conn) \<times> manager) outcome" where
  "PopPipeConn_recv timeout m =
     (if timeout then Returns (Inl ErrPipeTimeout, m)
      else case chan_recv (pipeConnPool m) of
        Returns (Some c, p) \<Rightarrow> Returns (Inr c, m\<lparr>pipeConnPool := p\<rparr>)
      | Returns (None, p) \<Rightarrow> Returns (Inl ErrMgrClosed, m)
      | Panics \<Rightarrow> Panics
      | Blocks \<Rightarrow> Blocks)"

definition PopPipeConn :: "bool \<Rightarrow> manager \<Rightarrow> ((mgr_error + conn) \<times> manager) outcome" where
  "PopPipeConn timeout m =
     (case ReqPipeConn m of
        Returns (_, m') \<Rightarrow> PopPipeConn_recv timeout m'
      | Panics \<Rightarrow> Panics
      | Blocks \<Rightarrow> Blocks)"

definition getMessage :: "manager \<Rightarrow> (message option \<times> manager) outcome" where
  "getMessage m =
     (case chan_recv (recvChan m) of
        Returns (v, c) \<Rightarrow> Returns (v, m\<lparr>recvChan := c\<rparr>)
      | Panics \<Rightarrow> Panics
      | Blocks \<Rightarrow> Blocks)"

definition Ping :: "i64 \<Rightarrow> manager \<Rightarrow> (i64 \<times> manager) outcome" where
  "Ping now m =
     (case SendMassage m (MHeartbeatRequest \<lparr>hbReq_Timestamp = now\<rparr>) of
        Returns (_, m') \<Rightarrow> Returns (now, m')
      | Panics \<Rightarrow> Panics
      | Blocks \<Rightarrow> Blocks)"

section \<open>Proxies\<close>

text \<open>
  \<open>ListProxies\<close> ranges over the proxies in the order \<open>ks\<close>.  The slice is made with the
  length of the map, so it starts with that many empty strings, to which the loop appends.
\<close>

definition ListProxies :: "gostring list \<Rightarrow> manager \<Rightarrow> manager" where
  "ListProxies ks m =
     (let ps = range_map ks (Proxies m);
          str = replicate (length ps) [] @ map (\<lambda>p. px_Name p @ '':'' @ px_Port p) ps
      in m\<lparr>ProxiesStr := JoinX str '',''\<rparr>)"

text \<open>What the operating system answers while a proxy is registered.\<close>

record os_answers =
  os_probe :: probe
  os_listen :: listen_answer

text \<open>
  \<open>RegisterProxy\<close>: a port that does not parse counts as 0; \<open>FindAvailablePort\<close> may wait
  for the random pool.  The allocation state is shared by all managers.
\<close>

definition RegisterProxy :: "os_answers \<Rightarrow> ProxyRequest \<Rightarrow> manager \<times> port_state \<Rightarrow>
    (ProxyResponse \<times> (manager \<times> port_state) \<times> effect list) outcome" where
  "RegisterProxy os req = (\<lambda>(m, ports).
     let port = (case strconv_Atoi (proxyReq_Port req) of None \<Rightarrow> 0 | Some n \<Rightarrow> n) in
     case FindAvailablePort (os_probe os) port ports of
       Blocks \<Rightarrow> Blocks
     | Panics \<Rightarrow> Panics
     | Returns (port1, ports1) \<Rightarrow>
       (case NewProxy (os_listen os) (proxyReq_Name req) (strconv_Itoa port1) (proxyReq_Target req) of
          (Inl err, eff) \<Rightarrow>
            Returns (\<lparr>proxyResp_Name = [], proxyResp_Port = [], proxyResp_Enable = False,
                      proxyResp_Result = ''register proxy error:'' @ err\<rparr>, (m, ports1), eff)
        | (Inr proxy, eff) \<Rightarrow>
            Returns (\<lparr>proxyResp_Name = px_Name proxy, proxyResp_Port = px_Port proxy,
                      proxyResp_Enable = False, proxyResp_Result = ''ok''\<rparr>,
                     (m\<lparr>Proxies := (Proxies m)(px_Name proxy \<mapsto> proxy)\<rparr>, ports1), eff)))"

definition RemoveProxy :: "ProxyRequest \<Rightarrow> manager \<Rightarrow> manager \<times> effect list" where
  "RemoveProxy req m =
     (let name = proxyReq_Name req in
      case Proxies m name of
        None \<Rightarrow> (m, [])
      | Some proxy \<Rightarrow> (m\<lparr>Proxies := (Proxies m)(name := None)\<rparr>, Proxy_Close proxy))"

section \<open>Close\<close>

text \<open>\<open>Close\<close> past its test; closing a closed channel panics.\<close>

definition Close_body :: "gostring list \<Rightarrow> manager \<Rightarrow> (manager \<times> effect list) outcome" where
  "Close_body ks m =
     (let m1 = m\<lparr>closed := True\<rparr> in
      case chan_close (sendChan m1) of
        Returns sc \<Rightarrow>
        (case chan_close (recvChan m1) of
           Returns rc \<Rightarrow>
           (case chan_close (pipeConnPool m1) of
              Returns pc \<Rightarrow>
                Returns (m1\<lparr>sendChan := sc, recvChan := rc, pipeConnPool := pc, Proxies := (\<lambda>_. None)\<rparr>,
                  CloseConn (mconn m1) # concat (map Proxy_Close (range_map ks (Proxies m1))))
            | _ \<Rightarrow> Panics)
         | _ \<Rightarrow> Panics)
      | _ \<Rightarrow> Panics)"

definition Manager_Close :: "gostring list \<Rightarrow> manager \<Rightarrow> (manager \<times> effect list) outcome" where
  "Manager_Close ks m = (if IsClosed m then Returns (m, []) else Close_body ks m)"

section \<open>The message loop of Run\<close>

text \<open>Go's \<open>x / 2\<close> on \<open>int64\<close>: truncation towards zero.\<close>

definition i64_div2 :: "i64 \<Rightarrow> i64" where
  "i64_div2 x = word_of_int (sgn (sint x) * (\<bar>sint x\<bar> div 2))"

text \<open>One received message: the response to send, if any, and the new state.\<close>

definition handle_message :: "os_answers \<Rightarrow> gostring list \<Rightarrow> i64 \<Rightarrow> message \<Rightarrow> manager \<times> port_state \<Rightarrow>
    (message option \<times> (manager \<times> port_state) \<times> effect list) outcome" where
  "handle_message os ks now msg = (\<lambda>(m, ports).
     case msg of
       MHeartbeatRequest v \<Rightarrow>
         Returns (Some (MHeartbeatResponse \<lparr>hbResp_TimeSend = hbReq_Timestamp v, hbResp_TimeRecv = now\<rparr>),
           (m\<lparr>LastBeatTime := now, Latency := snd (EMA_Update (Latency m) (now - hbReq_Timestamp v))\<rparr>, ports), [])
     | MHeartbeatResponse v \<Rightarrow>
         Returns (None,
           (m\<lparr>LastBeatTime := now,
              Latency := snd (EMA_Update (Latency m) (i64_div2 (now - hbResp_TimeSend v)))\<rparr>, ports), [])
     | MProxyRequest v \<Rightarrow>
         (if proxyReq_Enable v then
            (case RegisterProxy os v (m, ports) of
               Returns (resp, (m1, ports1), eff) \<Rightarrow>
                 Returns (Some (MProxyResponse resp), (ListProxies ks m1, ports1), eff)
             | Panics \<Rightarrow> Panics
             | Blocks \<Rightarrow> Blocks)
          else (case RemoveProxy v m of (m1, eff) \<Rightarrow> Returns (None, (ListProxies ks m1, ports), eff)))
     | _ \<Rightarrow> Returns (None, (m, ports), []))"

definition Manager_String :: "manager \<Rightarrow> gostring" where
  "Manager_String m = ''<'' @ ClientId m @ '':'' @ Tag m @ '':'' @ ProxiesStr m @ ''>''"

end
