(* ===== verification/ManagerLaws.thy ===== *)
theory ManagerLaws
  imports Manager
begin

text \<open>
  The manager's operations one at a time: the invariant that ties the closed flag to the
  channels and the proxies to their names, its preservation by every operation, and what
  each operation does on each of its branches.
\<close>

section \<open>The invariant\<close>

definition mgr_inv :: "manager \<Rightarrow> bool" where
  "mgr_inv m \<longleftrightarrow>
     1 \<le> PoolSize m \<and> PoolSize m \<le> MaxPoolSize \<and>
     ch_cap (pipeConnPool m) = nat (PoolSize m * 2) \<and>
     ch_cap (recvChan m) = 10 \<and> ch_cap (sendChan m) = 10 \<and>
     chan_ok (pipeConnPool m) \<and> chan_ok (recvChan m) \<and> chan_ok (sendChan m) \<and>
     (ch_closed (sendChan m) \<longleftrightarrow> closed m) \<and> (ch_closed (recvChan m) \<longleftrightarrow> closed m) \<and>
     (ch_closed (pipeConnPool m) \<longleftrightarrow> closed m) \<and>
     (\<forall>k p. Proxies m k = Some p \<longrightarrow> px_Name p = k) \<and> finite (dom (Proxies m))"

lemma pool_size_bounds: "1 \<le> pool_size req \<and> pool_size req \<le> MaxPoolSize"
  by (simp add: pool_size_def MaxPoolSize_def Let_def)

lemma mgr_inv_New [inv_intros]: "mgr_inv (NewManager cid conn req now)"
  using pool_size_bounds [of req]
  by (simp add: mgr_inv_def NewManager_def) (simp add: make_chan_def)

lemma mgr_inv_sendChan:
  "mgr_inv m \<Longrightarrow> chan_send (sendChan m) msg = Returns c \<Longrightarrow> mgr_inv (m\<lparr>sendChan := c\<rparr>)"
  using chan_send_ok [of "sendChan m" msg c]
  by (auto simp: mgr_inv_def chan_send_def split: if_splits)

lemma mgr_inv_SendMassage [inv_intros]:
  "mgr_inv m \<Longrightarrow> SendMassage m msg = Returns (e, m') \<Longrightarrow> mgr_inv m'"
  by (auto simp: SendMassage_def SendMassage_send_def mgr_inv_sendChan split: if_splits outcome.splits)

lemma mgr_inv_ReqPipeConn [inv_intros]:
  "mgr_inv m \<Longrightarrow> ReqPipeConn m = Returns (e, m') \<Longrightarrow> mgr_inv m'"
  by (simp add: ReqPipeConn_def inv_intros)

lemma mgr_inv_pipe:
  "mgr_inv m \<Longrightarrow> chan_ok p \<Longrightarrow> ch_cap p = ch_cap (pipeConnPool m) \<Longrightarrow>
   ch_closed p = ch_closed (pipeConnPool m) \<Longrightarrow> mgr_inv (m\<lparr>pipeConnPool := p\<rparr>)"
  by (simp add: mgr_inv_def)

lemma mgr_inv_PushPipeConn [inv_intros]:
  "mgr_inv m \<Longrightarrow> PushPipeConn m c = (e, m') \<Longrightarrow> mgr_inv m'"
  using chan_send_ok [of "pipeConnPool m" c]
  by (auto simp: PushPipeConn_def PushPipeConn_send_def chan_try_send_def chan_send_def
      intro!: mgr_inv_pipe split: if_splits outcome.splits)

lemma mgr_inv_PopPipeConn_recv:
  "mgr_inv m \<Longrightarrow> PopPipeConn_recv t m = Returns (e, m') \<Longrightarrow> mgr_inv m'"
  using chan_recv_ok [of "pipeConnPool m"]
  by (auto simp: PopPipeConn_recv_def chan_recv_def mgr_inv_def
      split: if_splits outcome.splits list.splits)

lemma mgr_inv_PopPipeConn [inv_intros]:
  "mgr_inv m \<Longrightarrow> PopPipeConn t m = Returns (e, m') \<Longrightarrow> mgr_inv m'"
  by (auto simp: PopPipeConn_def split: outcome.splits
      intro: mgr_inv_PopPipeConn_recv mgr_inv_ReqPipeConn)

lemma mgr_inv_getMessage [inv_intros]:
  "mgr_inv m \<Longrightarrow> getMessage m = Returns (e, m') \<Longrightarrow> mgr_inv m'"
  using chan_recv_ok [of "recvChan m"]
  by (auto simp: getMessage_def chan_recv_def mgr_inv_def split: outcome.splits list.splits if_splits)

lemma mgr_inv_ListProxies [inv_intros]: "mgr_inv m \<Longrightarrow> mgr_inv (ListProxies ks m)"
  by (simp add: ListProxies_def mgr_inv_def Let_def)

lemma mgr_inv_RemoveProxy [inv_intros]:
  "mgr_inv m \<Longrightarrow> RemoveProxy req m = (m', eff) \<Longrightarrow> mgr_inv m'"
  by (auto simp: RemoveProxy_def mgr_inv_def Let_def split: option.splits if_splits)

lemma mgr_inv_insert_proxy:
  "mgr_inv m \<Longrightarrow> mgr_inv (m\<lparr>Proxies := (Proxies m)(px_Name p \<mapsto> p)\<rparr>)"
  by (auto simp: mgr_inv_def)

lemma mgr_inv_RegisterProxy [inv_intros]:
  "mgr_inv m \<Longrightarrow> RegisterProxy os req (m, ports) = Returns (r, (m', ports'), eff) \<Longrightarrow> mgr_inv m'"
  unfolding RegisterProxy_def Let_def
  by (auto simp del: fun_upd_apply simp: mgr_inv_insert_proxy
      split: outcome.splits prod.splits sum.splits)

lemma mgr_inv_Close [inv_intros]:
  "mgr_inv m \<Longrightarrow> Manager_Close ks m = Returns (m', eff) \<Longrightarrow> mgr_inv m'"
  by (auto simp: Manager_Close_def Close_body_def IsClosed_def mgr_inv_def chan_close_def chan_ok_def Let_def
      split: if_splits)

lemma mgr_inv_handle_message [inv_intros]:
  assumes "mgr_inv m" "handle_message os ks now msg (m, ports) = Returns (r, (m', ports'), eff)"
  shows "mgr_inv m'"
proof (cases msg)
  case (MProxyRequest v)
  show ?thesis
  proof (cases "proxyReq_Enable v")
    case True
    then obtain r1 m1 e1 where "RegisterProxy os v (m, ports) = Returns (r1, (m1, ports'), e1)"
      "m' = ListProxies ks m1"
      using assms(2) MProxyRequest by (auto simp: handle_message_def split: outcome.splits)
    then show ?thesis using assms(1) by (auto intro: inv_intros)
  next
    case False
    then obtain m1 e1 where "RemoveProxy v m = (m1, e1)" "m' = ListProxies ks m1"
      using assms(2) MProxyRequest by (auto simp: handle_message_def split: prod.splits)
    then show ?thesis using assms(1) by (auto intro: inv_intros)
  qed
qed (use assms in \<open>auto simp: handle_message_def mgr_inv_def\<close>)

section \<open>Closing\<close>

text \<open>An open manager closes without a panic; closing twice is closing once.\<close>

lemma Close_open:
  assumes "mgr_inv m" "\<not> closed m"
  shows "\<exists>m'. Manager_Close ks m = Returns (m',
      CloseConn (mconn m) # concat (map Proxy_Close (range_map ks (Proxies m)))) \<and>
    closed m' \<and> Proxies m' = (\<lambda>_. None) \<and> Manager_Close ks' m' = Returns (m', [])"
  using assms
  by (simp add: Manager_Close_def Close_body_def IsClosed_def mgr_inv_def chan_close_def Let_def)

lemma Close_never_panics: "mgr_inv m \<Longrightarrow> Manager_Close ks m \<noteq> Panics"
  by (auto simp: Manager_Close_def Close_body_def IsClosed_def mgr_inv_def chan_close_def Let_def)

section \<open>Pipes\<close>

lemma PushPipeConn_cases:
  assumes "mgr_inv m"
  shows "PushPipeConn m c =
    (if closed m then (Some ErrMgrClosed, m)
     else if length (ch_buf (pipeConnPool m)) < nat (PoolSize m * 2)
       then (None, m\<lparr>pipeConnPool := (pipeConnPool m)\<lparr>ch_buf := ch_buf (pipeConnPool m) @ [c]\<rparr>\<rparr>)
       else (Some ErrPoolFull, m))"
  using assms
  by (simp add: PushPipeConn_def PushPipeConn_send_def IsClosed_def chan_try_send_def chan_send_def mgr_inv_def)

text \<open>The send may wait only when ten messages are waiting to be written.\<close>

lemma SendMassage_blocks:
  "mgr_inv m \<Longrightarrow> SendMassage m msg = Blocks \<longleftrightarrow> \<not> closed m \<and> length (ch_buf (sendChan m)) = 10"
  by (auto simp: SendMassage_def SendMassage_send_def IsClosed_def chan_send_def mgr_inv_def chan_ok_def
      split: if_splits)

lemma PopPipeConn_recv_cases:
  assumes "mgr_inv m"
  shows "PopPipeConn_recv t m =
    (if t then Returns (Inl ErrPipeTimeout, m)
     else case ch_buf (pipeConnPool m) of
       c # cs \<Rightarrow> Returns (Inr c, m\<lparr>pipeConnPool := (pipeConnPool m)\<lparr>ch_buf := cs\<rparr>\<rparr>)
     | [] \<Rightarrow> if closed m then Returns (Inl ErrMgrClosed, m) else Blocks)"
  using assms by (auto simp: PopPipeConn_recv_def chan_recv_def mgr_inv_def split: list.splits)

section \<open>Proxies\<close>

lemma Join_replicate_Nil:
  "0 < n \<Longrightarrow> xs \<noteq> [] \<Longrightarrow> strings_Join (replicate n [] @ xs) sep =
     concat (replicate n sep) @ strings_Join xs sep"
proof (induction n)
  case 0
  then show ?case by simp
next
  case (Suc n)
  then show ?case by (cases "n = 0") (simp_all add: Join_Cons)
qed

definition list_proxies_spec :: "srv_proxy list \<Rightarrow> gostring" where
  "list_proxies_spec ps = strings_Join (map (\<lambda>p. px_Name p @ '':'' @ px_Port p) ps) '',''"

lemma ListProxies_commas:
  "ProxiesStr (ListProxies ks m) =
     replicate (length (range_map ks (Proxies m))) CHR '','' @ list_proxies_spec (range_map ks (Proxies m))"
proof (cases "range_map ks (Proxies m) = []")
  case True
  then show ?thesis by (simp add: ListProxies_def list_proxies_spec_def JoinX_def)
next
  case False
  define ps where "ps = range_map ks (Proxies m)"
  have ps: "0 < length ps" "ps \<noteq> []" using False by (simp_all add: ps_def)
  have c: "concat (replicate n [CHR '','']) = replicate n CHR '',''" for n
    by (induction n) auto
  have l: "length (replicate (length ps) ([] :: gostring) @ map (\<lambda>p. px_Name p @ '':'' @ px_Port p) ps) \<noteq> 1"
    unfolding length_append length_replicate length_map by presburger
  have "ProxiesStr (ListProxies ks m) =
      strings_Join (replicate (length ps) [] @ map (\<lambda>p. px_Name p @ '':'' @ px_Port p) ps) '',''"
    using ps l unfolding ListProxies_def Let_def ps_def [symmetric] JoinX_def
    by (simp del: length_append length_map)
  also have "\<dots> = replicate (length ps) CHR '','' @ list_proxies_spec ps"
    using ps by (simp add: Join_replicate_Nil c list_proxies_spec_def)
  finally show ?thesis by (simp add: ps_def)
qed

lemma RegisterProxy_ok:
  assumes "RegisterProxy os req (m, ports) = Returns (resp, (m', ports'), eff)"
    and "proxyResp_Result resp = ''ok''"
  obtains p where "px_Name p = proxyReq_Name req" "px_Remote p = proxyReq_Target req"
    "proxyResp_Name resp = px_Name p" "proxyResp_Port resp = px_Port p"
    "m' = m\<lparr>Proxies := (Proxies m)(proxyReq_Name req \<mapsto> p)\<rparr>" "eff = [OpenListener (px_Port p)]"
proof -
  have "\<exists>port1 p. NewProxy (os_listen os) (proxyReq_Name req) (strconv_Itoa port1) (proxyReq_Target req) = (Inr p, eff) \<and>
      m' = m\<lparr>Proxies := (Proxies m)(px_Name p \<mapsto> p)\<rparr> \<and>
      proxyResp_Name resp = px_Name p \<and> proxyResp_Port resp = px_Port p"
    using assms unfolding RegisterProxy_def Let_def
    by (auto split: outcome.splits prod.splits sum.splits) metis
  then obtain port1 p where p: "NewProxy (os_listen os) (proxyReq_Name req) (strconv_Itoa port1) (proxyReq_Target req) = (Inr p, eff)"
    and m: "m' = m\<lparr>Proxies := (Proxies m)(px_Name p \<mapsto> p)\<rparr>"
    and r: "proxyResp_Name resp = px_Name p" "proxyResp_Port resp = px_Port p"
    by blast
  show thesis
    using that [of p] NewProxy_Inr(1-3) [OF p] m r by simp
qed

end
