(* ===== verification/MessageLaws.thy ===== *)
theory MessageLaws
  imports Message
begin

text \<open>
  Correctness of the wire protocol: the interface of a codec over a byte stream as a
  locale, its general consequences (a sequence of messages is received as it was sent,
  no encoding is a proper prefix of another), and its interpretation on the frames of
  \<open>Write\<close>/\<open>Read\<close> and on the messages of \<open>Send\<close>/\<open>Get\<close>.
\<close>

section \<open>Codecs over a connection\<close>

text \<open>The first read delivers at least the two header bytes.\<close>

definition header_whole :: "reader \<Rightarrow> bool" where
  "header_whole r \<longleftrightarrow> chunks r \<noteq> [] \<and> 2 \<le> length (hd (chunks r))"

text \<open>Receiving a given number of messages, stopping at the first error.\<close>

fun receive :: "(reader \<Rightarrow> ('e + 'm) \<times> reader) \<Rightarrow> nat \<Rightarrow> reader \<Rightarrow> 'm list \<times> reader" where
  "receive get 0 r = ([], r)"
| "receive get (Suc n) r =
     (case get r of (Inl e, r') \<Rightarrow> ([], r')
      | (Inr m, r') \<Rightarrow> (case receive get n r' of (ms, r'') \<Rightarrow> (m # ms, r'')))"

locale stream_codec =
  fixes enc :: "'m \<Rightarrow> gostring"
    and dec :: "reader \<Rightarrow> ('e + 'm) \<times> reader"
    and ok :: "'m \<Rightarrow> bool"
    and norm :: "'m \<Rightarrow> 'm"
  assumes enc_header: "ok m \<Longrightarrow> 2 \<le> length (enc m)"
    and dec_stream: "ok m \<Longrightarrow> content r = enc m @ rest \<Longrightarrow> header_whole r \<Longrightarrow>
      \<exists>r'. dec r = (Inr (norm m), r') \<and> content r' = rest \<and> final_err r' = final_err r"
    and dec_chunk: "ok m \<Longrightarrow> chunks r = enc m # cs \<Longrightarrow> dec r = (Inr (norm m), r\<lparr>chunks := cs\<rparr>)"
begin

lemma receive_sent:
  "list_all ok ms \<Longrightarrow> chunks r = map enc ms @ cs \<Longrightarrow>
   receive dec (length ms) r = (map norm ms, r\<lparr>chunks := cs\<rparr>)"
proof (induction ms arbitrary: r)
  case Nil
  then show ?case by (cases r) simp
next
  case (Cons m ms)
  then have "dec r = (Inr (norm m), r\<lparr>chunks := map enc ms @ cs\<rparr>)"
    by (intro dec_chunk) simp_all
  moreover have "receive dec (length ms) (r\<lparr>chunks := map enc ms @ cs\<rparr>) = (map norm ms, r\<lparr>chunks := cs\<rparr>)"
    using Cons by simp
  ultimately show ?case by simp
qed

lemma enc_prefix_free:
  assumes "ok m" "ok m'" "prefix (enc m) (enc m')"
  shows "enc m = enc m' \<and> norm m = norm m'"
proof -
  let ?r = "\<lparr>chunks = [enc m'], final_err = EOF\<rparr>"
  obtain rest where rest: "enc m' = enc m @ rest" using assms(3) by (auto simp: prefix_def)
  have h: "header_whole ?r" using enc_header [OF assms(2)] by (simp add: header_whole_def)
  have c: "content ?r = enc m @ rest" "content ?r = enc m' @ []"
    using rest by (simp_all add: content_def)
  obtain r1 where 1: "dec ?r = (Inr (norm m), r1)" "content r1 = rest"
    using dec_stream [OF assms(1) c(1) h] by blast
  obtain r2 where 2: "dec ?r = (Inr (norm m'), r2)" "content r2 = []"
    using dec_stream [OF assms(2) c(2) h] by blast
  have eq: "norm m = norm m' \<and> r1 = r2" using trans [OF 1(1) [symmetric] 2(1)] by blast
  then have n: "norm m = norm m'" and "r1 = r2" by simp_all
  have "rest = content r2" using 1(2) [symmetric] unfolding \<open>r1 = r2\<close> .
  then have "enc m' = enc m" using rest unfolding 2(2) by simp
  with n show ?thesis by simp
qed

lemma enc_determines: "ok m \<Longrightarrow> ok m' \<Longrightarrow> enc m = enc m' \<Longrightarrow> norm m = norm m'"
  using enc_prefix_free [of m m'] by simp

end

section \<open>Frames\<close>

lemma conn_Read_header:
  assumes "header_whole r"
  obtains r1 where "conn_Read 2 r = ((take 2 (content r), None), r1)"
    "content r1 = drop 2 (content r)" "final_err r1 = final_err r"
proof -
  obtain c cs where c: "chunks r = c # cs" "2 \<le> length c"
    using assms by (cases "chunks r") (auto simp: header_whole_def)
  show thesis
  proof (rule that)
    show "conn_Read 2 r = ((take 2 (content r), None),
        r\<lparr>chunks := (if length c \<le> 2 then cs else drop 2 c # cs)\<rparr>)"
      using c by (simp add: conn_Read_def content_def)
  qed (use c in \<open>auto simp: content_def\<close>)
qed

lemma length_frame [simp]: "length (frame f t d) = 6 + length d"
  by (simp add: frame_def)

lemma frame_parts:
  "take 2 (frame f t d @ rest) = [f, t]"
  "drop 2 (frame f t d @ rest) = be32 (word_of_nat (length d)) @ d @ rest"
  by (simp_all add: frame_def)

lemma be32_int32_length:
  "length d < 2 ^ 31 \<Longrightarrow> be32_int32 (be32 (word_of_nat (length d))) = int (length d)"
  by (simp only: be32_int32_be32 sint_small32)

lemma Read_frame:
  assumes "length d < 2 ^ 31" and "content r = frame f t d @ rest" and "header_whole r"
  shows "\<exists>r'. message_Read r = (Inr (f, t, d), r') \<and> content r' = rest \<and> final_err r' = final_err r"
proof -
  obtain r1 where r1: "conn_Read 2 r = (([f, t], None), r1)"
      "content r1 = be32 (word_of_nat (length d)) @ d @ rest" "final_err r1 = final_err r"
    using assms(2) conn_Read_header [OF assms(3)] by (metis frame_parts)
  obtain r2 where r2: "io_ReadFull 4 r1 = ((be32 (word_of_nat (length d)), None), r2)"
      "content r2 = d @ rest" "final_err r2 = final_err r1"
    using ReadFull_enough [of 4 r1] r1(2) by auto
  obtain r3 where r3: "io_ReadFull (length d) r2 = ((d, None), r3)"
      "content r3 = rest" "final_err r3 = final_err r2"
    using ReadFull_enough [of "length d" r2] r2(2) by auto
  have "message_Read r = (Inr (f, t, d), r3)"
    using be32_int32_length [OF assms(1)] sint_small32 [OF assms(1)] r1 r2 r3
    by (simp add: message_Read_def)
  with r1 r2 r3 show ?thesis by auto
qed

lemma Read_frame_chunk:
  assumes "length d < 2 ^ 31" and "chunks r = frame f t d # cs"
  shows "message_Read r = (Inr (f, t, d), r\<lparr>chunks := cs\<rparr>)"
proof -
  let ?l = "be32 (word_of_nat (length d))"
  note len = be32_int32_length [OF assms(1)] sint_small32 [OF assms(1)]
  have r1: "conn_Read 2 r = (([f, t], None), r\<lparr>chunks := (?l @ d) # cs\<rparr>)"
    using assms(2) by (simp add: conn_Read_def frame_def)
  show ?thesis
  proof (cases "d = []")
    case True
    have "io_ReadFull 4 (r\<lparr>chunks := (?l @ d) # cs\<rparr>) = ((?l, None), r\<lparr>chunks := cs\<rparr>)"
      using True by (simp add: ReadFull_exact)
    moreover have "io_ReadFull 0 r' = (([], None), r')" for r'
      by (simp add: io_ReadFull_def read_loop.simps)
    ultimately show ?thesis using True len r1 by (simp add: message_Read_def)
  next
    case False
    have "io_ReadFull 4 (r\<lparr>chunks := (?l @ d) # cs\<rparr>) = ((?l, None), r\<lparr>chunks := d # cs\<rparr>)"
      using False by (simp add: ReadFull_within)
    moreover have "io_ReadFull (length d) (r\<lparr>chunks := d # cs\<rparr>) = ((d, None), r\<lparr>chunks := cs\<rparr>)"
      using False by (simp add: ReadFull_exact)
    ultimately show ?thesis using len r1 by (simp add: message_Read_def)
  qed
qed

interpretation frames: stream_codec
  "\<lambda>(f, t, d). frame f t d" message_Read "\<lambda>(f, t, d). length d < 2 ^ 31" id
  by unfold_locales (auto simp: Read_frame Read_frame_chunk split: prod.splits)

section \<open>Messages\<close>

definition wire :: "message \<Rightarrow> gostring" where
  "wire m = snd (message_Send m None [])"

definition sendable :: "message \<Rightarrow> bool" where
  "sendable m \<longleftrightarrow> m \<noteq> OtherValue \<and> length (json_Marshal (fields_of m)) < 2 ^ 31"

definition sanitize_message :: "message \<Rightarrow> message" where
  "sanitize_message m = of_fields m (map snd (sanitize_table (fields_of m)))"

definition message_strings :: "message \<Rightarrow> gostring list" where
  "message_strings m = List.map_filter (\<lambda>(n, v). case v of FStr s \<Rightarrow> Some s | _ \<Rightarrow> None) (fields_of m)"

text \<open>The zero struct registered for a message's type.\<close>

fun registered :: "char \<Rightarrow> char \<Rightarrow> message option" where
  "registered f t = (if f = RequestFlag then TypeReqMap t
     else if f = ResponseFlag then TypeRespMap t else None)"

lemma registered_getMsgInfo:
  assumes "getMsgInfo m = Inr (f, t)"
  shows "\<exists>z. registered f t = Some z \<and> fields_of z = zero_table (fields_of m) \<and>
    of_fields z (map snd (sanitize_table (fields_of m))) = sanitize_message m"
  using assms
  by (cases m) (auto simp: type_codes TypeReqMap_def TypeRespMap_def zero_table_def
      sanitize_table_def sanitize_message_def)

lemma plain_names:
  "list_all (list_all (\<lambda>c. code c < 128)) (map fst (fields_of m))"
  by (cases m) simp_all

lemma names_distinct: "distinct (map fst (fields_of m))"
  by (cases m) simp_all

lemma names_sanitized: "n \<in> set (map fst (fields_of m)) \<Longrightarrow> sanitize n = n"
  using plain_names [of m]
  by (intro sanitize_valid ValidString_ascii) (auto simp: list_all_iff)

lemma of_fields_of [simp]: "of_fields m (map snd (fields_of m)) = m"
  by (cases m) simp_all

lemma sanitize_message_valid:
  assumes "list_all ValidString (message_strings m)"
  shows "sanitize_message m = m"
proof -
  have v: "sanitize_val v = v" if "(n, v) \<in> set (fields_of m)" for n v
  proof (cases v)
    case (FStr s)
    with that have "s \<in> set (message_strings m)"
      by (force simp: message_strings_def List.map_filter_def)
    with assms FStr show ?thesis by (simp add: list_all_iff sanitize_valid)
  qed simp_all
  then have "sanitize_table (fields_of m) = fields_of m"
    unfolding sanitize_table_def by (intro map_idI) auto
  then show ?thesis by (simp add: sanitize_message_def)
qed

lemma sendable_wire:
  assumes "sendable m"
  obtains f t where "getMsgInfo m = Inr (f, t)" "wire m = frame f t (json_Marshal (fields_of m))"
  using assms by (cases m)
    (auto simp: sendable_def wire_def message_Send_def message_Write_def)

lemma Get_of_Read:
  assumes "message_Read r = (Inr (f, t, json_Marshal (fields_of m)), r')" "getMsgInfo m = Inr (f, t)"
  shows "message_Get r = (Inr (sanitize_message m), r')"
proof -
  obtain z where z: "registered f t = Some z" "fields_of z = zero_table (fields_of m)"
    "of_fields z (map snd (sanitize_table (fields_of m))) = sanitize_message m"
    using registered_getMsgInfo [OF assms(2)] by blast
  have "json_Unmarshal (json_Marshal (fields_of m)) (fields_of z) = Some (sanitize_table (fields_of m))"
    unfolding z(2) using names_distinct names_sanitized by (rule Unmarshal_Marshal)
  with z assms(1) show ?thesis by (simp add: message_Get_def)
qed

lemma Get_wire:
  assumes "sendable m" "content r = wire m @ rest" "header_whole r"
  shows "\<exists>r'. message_Get r = (Inr (sanitize_message m), r') \<and> content r' = rest \<and>
    final_err r' = final_err r"
proof -
  obtain f t where ft: "getMsgInfo m = Inr (f, t)" "wire m = frame f t (json_Marshal (fields_of m))"
    using assms(1) by (rule sendable_wire)
  obtain r' where "message_Read r = (Inr (f, t, json_Marshal (fields_of m)), r')"
    "content r' = rest" "final_err r' = final_err r"
    using Read_frame [of "json_Marshal (fields_of m)" r f t rest] assms ft(2)
    by (auto simp: sendable_def)
  with Get_of_Read ft(1) show ?thesis by blast
qed

interpretation messages: stream_codec wire message_Get sendable sanitize_message
proof
  fix m assume m: "sendable m"
  then obtain f t where ft: "getMsgInfo m = Inr (f, t)" "wire m = frame f t (json_Marshal (fields_of m))"
    by (rule sendable_wire)
  then show "2 \<le> length (wire m)" by simp
  fix r :: reader and cs assume "chunks r = wire m # cs"
  with m ft have "message_Read r = (Inr (f, t, json_Marshal (fields_of m)), r\<lparr>chunks := cs\<rparr>)"
    by (intro Read_frame_chunk) (simp_all add: sendable_def)
  with Get_of_Read ft(1) show "message_Get r = (Inr (sanitize_message m), r\<lparr>chunks := cs\<rparr>)"
    by blast
qed (rule Get_wire)

section \<open>Malformed input\<close>

lemma Get_unregistered:
  assumes "\<And>f t d r'. message_Read r = (Inr (f, t, d), r') \<Longrightarrow> registered f t = None"
  shows "\<exists>e. fst (message_Get r) = Inl e"
proof (cases "message_Read r")
  case (Pair a r')
  show ?thesis
  proof (cases a)
    case (Inl e)
    with Pair show ?thesis by (simp add: message_Get_def)
  next
    case (Inr b)
    obtain f t d where b: "b = (f, t, d)" by (cases b) auto
    with Pair Inr assms have "registered f t = None" by blast
    then show ?thesis using Pair Inr b by (auto simp: message_Get_def split: if_splits)
  qed
qed

lemma byte_zero_not_code: "byte 0 \<noteq> c" if "code c \<noteq> 0"
  using that by (metis code_byte zero_less_numeral)

lemma registered_zero: "registered f (byte 0) = None" "registered (byte 0) t = None"
  by (simp_all add: type_codes TypeReqMap_def TypeRespMap_def byte_zero_not_code)

lemma Read_type:
  assumes "message_Read r = (Inr (f, t, d), r')" "chunks r = c # cs"
  shows "f = (if c = [] then byte 0 else c ! 0) \<and> t = (if length c \<le> 1 then byte 0 else c ! 1)"
proof -
  have rd: "conn_Read 2 r = ((take 2 c, None), r\<lparr>chunks := (if length c \<le> 2 then cs else drop 2 c # cs)\<rparr>)"
    using assms(2) by (simp add: conn_Read_def)
  have "f = (if 0 < length (take 2 c) then take 2 c ! 0 else byte 0) \<and>
        t = (if 1 < length (take 2 c) then take 2 c ! 1 else byte 0)"
    using assms(1) unfolding message_Read_def rd
    by (auto simp: Let_def simp del: length_take split: prod.splits option.splits if_splits)
  then show ?thesis by (auto simp: not_le)
qed

text \<open>A first read of fewer than two bytes leaves the type byte zero: nothing is registered there.\<close>

lemma Get_split_header:
  assumes "\<not> header_whole r"
  shows "\<exists>e. fst (message_Get r) = Inl e"
proof (rule Get_unregistered)
  fix f t d r' assume rd: "message_Read r = (Inr (f, t, d), r')"
  then have "chunks r \<noteq> []" by (auto simp: message_Read_def conn_Read_def)
  then obtain c cs where c: "chunks r = c # cs" by (cases "chunks r") auto
  with assms have "length c \<le> 1" by (simp add: header_whole_def)
  with Read_type [OF rd c] show "registered f t = None"
    using registered_zero by auto
qed

text \<open>A stream that ends inside a frame is never taken for a message.\<close>

lemma Read_truncated:
  assumes "header_whole r" "length d < 2 ^ 31" "strict_prefix (content r) (frame f t d)"
  shows "\<exists>e r'. message_Read r = (Inl e, r')"
proof -
  let ?l = "be32 (word_of_nat (length d))"
  obtain r1 where r1: "conn_Read 2 r = ((take 2 (content r), None), r1)"
    "content r1 = drop 2 (content r)"
    using conn_Read_header [OF assms(1)] by metis
  obtain z where z: "frame f t d = content r @ z" "z \<noteq> []"
    using assms(3) by (auto simp: strict_prefix_def prefix_def)
  have two: "2 \<le> length (content r)"
    using assms(1) by (cases "chunks r") (auto simp: header_whole_def content_def)
  then have pre: "?l @ d = content r1 @ z"
    using arg_cong [OF z(1), of "drop 2"] r1(2) by (simp add: frame_def)
  show ?thesis
  proof (cases "length (content r1) < 4")
    case True
    then show ?thesis using r1(1) by (auto simp: message_Read_def ReadFull_short)
  next
    case False
    then have four: "take 4 (content r1) = ?l"
      using arg_cong [OF pre, of "take 4"] by simp
    have rest: "d = drop 4 (content r1) @ z"
      using arg_cong [OF pre, of "drop 4"] False by simp
    obtain r2 where r2: "io_ReadFull 4 r1 = ((?l, None), r2)" "content r2 = drop 4 (content r1)"
      using ReadFull_enough [of 4 r1] False four by auto
    have "length (content r2) < length d" using r2(2) rest z(2)
      by (metis length_append less_add_same_cancel1 length_greater_0_conv)
    then show ?thesis
      using r1(1) r2 be32_int32_length [OF assms(2)]
      by (auto simp: message_Read_def ReadFull_short)
  qed
qed

section \<open>Oversized frames\<close>

lemma Read_negative_length:
  assumes "content r = [f, t] @ be32 (word_of_nat n) @ rest" "header_whole r"
    "2 ^ 31 \<le> n" "n < 2 ^ 32"
  shows "\<exists>r'. message_Read r = (Inl ErrInvalidMsg, r')"
proof -
  let ?l = "be32 (word_of_nat n)"
  obtain r1 where r1: "conn_Read 2 r = (([f, t], None), r1)" "content r1 = ?l @ rest"
    using assms(1) conn_Read_header [OF assms(2)] by (metis drop_append_exact take_append_exact
        length_Cons list.size(3) numeral_2_eq_2)
  obtain r2 where r2: "io_ReadFull 4 r1 = ((?l, None), r2)"
    using ReadFull_enough [of 4 r1] r1(2) by auto
  have "be32_int32 ?l < 0" using sint_large32 [OF assms(3,4)] by (simp only: be32_int32_be32)
  with r1 r2 show ?thesis by (simp add: message_Read_def)
qed

lemma Get_error_of_Read: "message_Read r = (Inl e, r') \<Longrightarrow> message_Get r = (Inl e, r')"
  by (simp add: message_Get_def)

lemma message_Send_wire:
  "message_Send m None out = (None, w) \<Longrightarrow> w = out @ wire m \<and> m \<noteq> OtherValue"
  by (cases m) (auto simp: message_Send_def message_Write_def wire_def)

lemma length_wire: "m \<noteq> OtherValue \<Longrightarrow> length (wire m) = 6 + length (json_Marshal (fields_of m))"
  by (cases m) (simp_all add: wire_def message_Send_def message_Write_def)

lemma sendable_iff: "sendable m \<longleftrightarrow> m \<noteq> OtherValue \<and> length (wire m) < 2 ^ 31 + 6"
  by (auto simp: sendable_def length_wire)

lemma sendable_Send: "sendable m \<Longrightarrow> message_Send m None out = (None, out @ wire m)"
  by (cases m) (simp_all add: sendable_def message_Send_def message_Write_def wire_def)

lemma Get_cut:
  assumes "sendable m" "strict_prefix (content r) (wire m)"
  shows "\<exists>e r'. message_Get r = (Inl e, r')"
proof (cases "header_whole r")
  case True
  obtain f t where ft: "getMsgInfo m = Inr (f, t)" "wire m = frame f t (json_Marshal (fields_of m))"
    using assms(1) by (rule sendable_wire)
  then have "\<exists>e r'. message_Read r = (Inl e, r')"
    using assms True by (intro Read_truncated) (auto simp: sendable_def)
  then show ?thesis using Get_error_of_Read by blast
next
  case False
  from Get_split_header [OF this] show ?thesis by (metis surjective_pairing)
qed

text \<open>
  Whatever part of a stream of messages arrives and however it is cut into reads, what is received
  are messages that were sent: where the header of a message is split or the stream ends inside
  one, receiving stops.
\<close>

lemma receive_sent_only:
  "list_all sendable ms \<Longrightarrow> prefix (content r) (concat (map wire ms)) \<Longrightarrow>
   set (fst (receive message_Get n r)) \<subseteq> sanitize_message ` set ms"
proof (induction n arbitrary: ms r)
  case 0
  then show ?case by simp
next
  case (Suc n)
  show ?case
  proof (cases "\<exists>msg r'. message_Get r = (Inr msg, r')")
    case False
    then obtain e r' where "message_Get r = (Inl e, r')" by (metis sum.exhaust surj_pair)
    then show ?thesis by simp
  next
    case True
    then obtain msg r' where g: "message_Get r = (Inr msg, r')" by blast
    then have head: "header_whole r" using Get_split_header [of r] by fastforce
    show ?thesis
    proof (cases ms)
      case Nil
      then have "content r = []" using Suc.prems(2) by simp
      with head show ?thesis by (cases "chunks r") (auto simp: content_def header_whole_def)
    next
      case (Cons m ms')
      then have m: "sendable m" "list_all sendable ms'" using Suc.prems(1) by simp_all
      have p: "prefix (content r) (wire m @ concat (map wire ms'))" using Suc.prems(2) Cons by simp
      have "\<not> strict_prefix (content r) (wire m)" using Get_cut [OF m(1)] g by fastforce
      then obtain rest where rest: "content r = wire m @ rest" "prefix rest (concat (map wire ms'))"
        using p by (auto simp: prefix_append strict_prefix_def)
      have "msg = sanitize_message m" "content r' = rest" using Get_wire [OF m(1) rest(1) head] g by simp_all
      then have "set (fst (receive message_Get n r')) \<subseteq> sanitize_message ` set ms'"
        using Suc.IH [OF m(2), of r'] rest(2) by simp
      then show ?thesis using g \<open>msg = sanitize_message m\<close> Cons by (auto split: prod.splits)
    qed
  qed
qed

section \<open>Properties\<close>

text \<open>A pipe request and an empty heartbeat, the concrete messages of the witnesses.\<close>

definition knock :: message where
  "knock = MPipeRequest \<lparr>pipeReq_ClientId = ''ab''\<rparr>"

definition beat :: message where
  "beat = MHeartbeatRequest \<lparr>hbReq_Timestamp = 0\<rparr>"

lemmas wire_eval = wire_def message_Send_def message_Write_def frame_def json_Marshal_def
  is_empty_val_def json_string_def escape_ascii_def quote_def backslash_def be32_def type_codes

lemma wire_knock: "wire knock = ''<q'' @ [byte 0, byte 0, byte 0, byte 12] @ ''{\"cid\":\"ab\"}''"
proof -
  have "escape ''cid'' = ''cid''" "escape ''ab'' = ''ab''"
    by (simp_all add: escape.simps escape_ascii_def quote_def backslash_def)
  then show ?thesis by (simp add: knock_def wire_eval)
qed

lemma wire_beat: "wire beat = ''<h'' @ [byte 0, byte 0, byte 0, byte 2] @ ''{}''"
  by (simp add: beat_def wire_eval)

lemma examples_sendable: "sendable knock" "sendable beat"
  by (simp_all add: sendable_iff wire_knock wire_beat) (simp_all add: knock_def beat_def)

lemma examples_valid: "list_all ValidString (message_strings knock)" "list_all ValidString (message_strings beat)"
proof -
  have "message_strings knock = [''ab'']" "message_strings beat = []"
    by (simp_all add: knock_def beat_def message_strings_def List.map_filter_def)
  moreover have "ValidString ''ab''" by (rule ValidString_ascii) auto
  ultimately show "list_all ValidString (message_strings knock)" "list_all ValidString (message_strings beat)"
    by simp_all
qed

text \<open>C5: A message that \<open>Send\<close> writes without a fault, whose strings are valid UTF-8 and whose
  data is shorter than \<open>2 ^ 31\<close> bytes, is the message \<open>Get\<close> returns, whatever else precedes it in the writer and follows it on the
  stream and wherever the network cuts the stream into reads, provided the first read
  delivers the two header bytes; the rest of the stream is left unread.\<close>

theorem Get_Send:
  assumes "message_Send m None out = (None, out @ w)" "length w < 2 ^ 31 + 6"
    "list_all ValidString (message_strings m)"
    "content r = w @ rest" "header_whole r"
  shows "\<exists>r'. message_Get r = (Inr m, r') \<and> content r' = rest \<and> final_err r' = final_err r"
proof -
  have w: "w = wire m" "m \<noteq> OtherValue" using message_Send_wire [OF assms(1)] by simp_all
  then have "sendable m" using assms(2) by (simp add: sendable_iff)
  from Get_wire [OF this] assms(3-5) w(1) show ?thesis by (simp add: sanitize_message_valid)
qed

lemma Get_Send_witness:
  "\<exists>r'. message_Get \<lparr>chunks = [''<q'' @ [byte 0], [byte 0, byte 0], byte 12 # ''{\"cid'', ''\":\"ab\"}'', ''tail''], final_err = EOF\<rparr>
     = (Inr knock, r') \<and> content r' = ''tail'' \<and> final_err r' = EOF"
  using Get_Send [of knock "[]" "wire knock"
      "\<lparr>chunks = [''<q'' @ [byte 0], [byte 0, byte 0], byte 12 # ''{\"cid'', ''\":\"ab\"}'', ''tail''], final_err = EOF\<rparr>" "''tail''"]
    examples_valid(1) sendable_Send [OF examples_sendable(1), of "[]"]
  by (simp add: wire_knock content_def header_whole_def)

text \<open>Messages sent one after the other, each arriving as the chunk its single \<open>Write\<close>
  made, are received as the same sequence of messages (their strings with invalid UTF-8
  replaced, as \<open>encoding/json\<close> does), and nothing behind them is consumed.\<close>

theorem Gets_of_Sends:
  assumes "list_all sendable ms" "chunks r = map wire ms @ cs"
  shows "receive message_Get (length ms) r = (map sanitize_message ms, r\<lparr>chunks := cs\<rparr>)"
  using assms by (rule messages.receive_sent)

lemma Gets_of_Sends_witness:
  "receive message_Get 2 \<lparr>chunks = [wire knock, wire beat, ''x''], final_err = EOF\<rparr> =
     ([knock, beat], \<lparr>chunks = [''x''], final_err = EOF\<rparr>)"
  using Gets_of_Sends [of "[knock, beat]" "\<lparr>chunks = [wire knock, wire beat, ''x''], final_err = EOF\<rparr>" "[''x'']"]
    examples_sendable examples_valid by (simp add: sanitize_message_valid numeral_2_eq_2)

text \<open>C14: A stream that ends anywhere inside a message makes \<open>Get\<close> fail; no proper prefix
  of a message is taken for a message, however it is cut into reads.\<close>

theorem Get_truncated:
  assumes "sendable m" "strict_prefix (content r) (wire m)"
  shows "\<exists>e r'. message_Get r = (Inl e, r')"
  using assms by (rule Get_cut)

lemma Get_truncated_witness:
  "\<exists>e r'. message_Get \<lparr>chunks = [''<q'' @ [byte 0, byte 0, byte 0, byte 12], ''{\"cid\":''], final_err = EOF\<rparr> = (Inl e, r')"
  using Get_truncated [OF examples_sendable(1),
      of "\<lparr>chunks = [''<q'' @ [byte 0, byte 0, byte 0, byte 12], ''{\"cid\":''], final_err = EOF\<rparr>"]
  by (simp add: wire_knock content_def strict_prefix_def)

text \<open>C17: The encoding is unambiguous for messages with valid UTF-8 strings: of two such messages,
  neither's bytes begin the other's unless they are the same message.  (Without the condition it
  is not: invalid bytes are all written as the replacement character.)\<close>

theorem wire_unambiguous:
  assumes "sendable m" "sendable m'" "prefix (wire m) (wire m')"
    "list_all ValidString (message_strings m)" "list_all ValidString (message_strings m')"
  shows "m = m'"
  using messages.enc_prefix_free [OF assms(1-3)] assms(4,5) by (simp add: sanitize_message_valid)

lemma wire_unambiguous_witness:
  "knock = MPipeRequest \<lparr>pipeReq_ClientId = ''a'' @ ''b''\<rparr> \<and> \<not> prefix (wire knock) (wire beat)"
proof
  have k: "MPipeRequest \<lparr>pipeReq_ClientId = ''a'' @ ''b''\<rparr> = knock" by (simp add: knock_def)
  show "knock = MPipeRequest \<lparr>pipeReq_ClientId = ''a'' @ ''b''\<rparr>"
    by (rule wire_unambiguous) (simp_all only: k examples_sendable examples_valid prefix_order.refl)
  show "\<not> prefix (wire knock) (wire beat)"
    using wire_unambiguous [of knock beat] examples_sendable examples_valid
    by (auto simp: knock_def beat_def)
qed

text \<open>A frame whose length field is \<open>2^31\<close> or more is read as a negative length and
  rejected as an invalid message, before any of its data is read.\<close>

theorem Get_negative_length:
  assumes "content r = [f, t] @ be32 (word_of_nat n) @ rest" "header_whole r"
    "2 ^ 31 \<le> n" "n < 2 ^ 32"
  shows "\<exists>r'. message_Get r = (Inl ErrInvalidMsg, r')"
  using Read_negative_length [OF assms] Get_error_of_Read by blast

lemma Get_negative_length_witness:
  "\<exists>r'. message_Get \<lparr>chunks = [''<l'' @ [byte 128, byte 0, byte 0, byte 0]], final_err = EOF\<rparr> = (Inl ErrInvalidMsg, r')"
proof -
  have "be32 (word_of_nat (2 ^ 31)) = [byte 128, byte 0, byte 0, byte 0]" by (simp add: be32_def)
  then show ?thesis
    using Get_negative_length [of "\<lparr>chunks = [''<l'' @ [byte 128, byte 0, byte 0, byte 0]], final_err = EOF\<rparr>"
        "CHR ''<''" "CHR ''l''" "2 ^ 31" "[]"]
    by (simp add: content_def header_whole_def)
qed

text \<open>The sender's type switch and the receiver's type tables agree: what is registered
  under a flag and a type code is sent under just that flag and code, and every message a
  sender accepts has an entry.\<close>

theorem type_tables_agree:
  "(\<forall>f t z. registered f t = Some z \<longrightarrow> getMsgInfo z = Inr (f, t)) \<and>
   (\<forall>m f t. getMsgInfo m = Inr (f, t) \<longrightarrow> (\<exists>z. registered f t = Some z \<and> map fst (fields_of z) = map fst (fields_of m)))"
proof (intro conjI allI impI)
  fix f t z assume "registered f t = Some z"
  then show "getMsgInfo z = Inr (f, t)"
    by (auto simp: TypeReqMap_def TypeRespMap_def split: if_splits)
next
  fix m f t assume "getMsgInfo m = Inr (f, t)"
  from registered_getMsgInfo [OF this] obtain z where
    "registered f t = Some z" "fields_of z = zero_table (fields_of m)" by blast
  moreover have "map fst (zero_table tab) = map fst tab" for tab
    by (induction tab) (auto simp: zero_table_def)
  ultimately show "\<exists>z. registered f t = Some z \<and> map fst (fields_of z) = map fst (fields_of m)"
    by metis
qed

lemma type_tables_agree_witness: "\<exists>z. registered ResponseFlag TypeLogin = Some z \<and> map fst (fields_of z) = [''cid'', ''result'']"
proof -
  let ?m = "MLoginResponse \<lparr>loginResp_ClientId = ''a'', loginResp_Result = ''ok''\<rparr>"
  have "getMsgInfo ?m = Inr (ResponseFlag, TypeLogin)" by simp
  then have "\<exists>z. registered ResponseFlag TypeLogin = Some z \<and> map fst (fields_of z) = map fst (fields_of ?m)"
    using type_tables_agree by blast
  then show ?thesis by (simp del: registered.simps)
qed

end
