(* ===== verification/Uid.thy ===== *)
theory Uid
  imports Prelude
begin

text \<open>
  \<open>util/uid.go\<close>: the random strings.  The random source is an argument, the sequence of
  values its \<open>Int63\<close> calls return; a position in the sequence is the source's state.
  \<open>RandStr8Base62\<close>, which names clients, is total: it draws once and consumes the
  draw six bits at a time.  \<open>RandStr\<close> rejects indices and draws again, so it may
  not return; its loop is a partial function, shown to return whenever every draw holds
  an acceptable index.
\<close>

unbundle bit_operations_syntax

definition letterBytes :: gostring where
  "letterBytes = ''abcdefghijklmnopqrstuvwxyzABCDEFGHIJKLMNOPQRSTUVWXYZ''"

definition base62 :: gostring where
  "base62 = ''0123456789abcdefghijklmnopqrstuvwxyzABCDEFGHIJKLMNOPQRSTUVWXYZ''"

definition idxBits :: nat where "idxBits = 6"
definition idxMask :: i64 where "idxMask = 63"
definition idxMax :: nat where "idxMax = 63 div idxBits"

type_synonym int63_source = "nat \<Rightarrow> i64"

text \<open>Seeding: what \<open>rand.NewSource\<close> gives for the seed, from its first draw on.\<close>

definition NewRandStrSource :: "(i64 \<Rightarrow> int63_source) \<Rightarrow> i64 \<Rightarrow> int63_source \<times> nat" where
  "NewRandStrSource rand_NewSource seed = (rand_NewSource seed, 0)"

section \<open>RandStr\<close>

text \<open>
  One run of the loop of \<open>RandStr\<close>: \<open>k\<close> is \<open>i + 1\<close>, the number of bytes still to
  fill; \<open>p\<close> counts the draws.
\<close>

partial_function (option) RandStr_loop ::
  "int63_source \<Rightarrow> nat \<Rightarrow> i64 \<Rightarrow> nat \<Rightarrow> nat \<Rightarrow> gostring \<Rightarrow> (gostring \<times> nat) option" where
  "RandStr_loop src k cache remain p b =
     (if k = 0 then Some (b, p)
      else
        let cache1 = (if remain = 0 then src p else cache);
            remain1 = (if remain = 0 then idxMax else remain);
            p1 = (if remain = 0 then Suc p else p);
            idx = unat (cache1 AND idxMask)
        in if idx < length letterBytes
           then RandStr_loop src (k - 1) (drop_bit idxBits cache1) (remain1 - 1) p1
                  (b[k - 1 := letterBytes ! idx])
           else RandStr_loop src k (drop_bit idxBits cache1) (remain1 - 1) p1 b)"

text \<open>\<open>RandStr(n)\<close>: \<open>None\<close> if the loop does not end; a negative \<open>n\<close> panics in \<open>make\<close>.\<close>

definition RandStr :: "int63_source \<Rightarrow> nat \<Rightarrow> int \<Rightarrow> (gostring \<times> nat) outcome option" where
  "RandStr src p n =
     (if n < 0 then Some Panics
      else map_option Returns
        (RandStr_loop src (nat n) (src p) idxMax (Suc p) (replicate (nat n) (byte 0))))"

section \<open>RandStr8Base62\<close>

text \<open>\<open>k\<close> is \<open>i + 1\<close>; \<open>buf8\<close> is the package's shared buffer.\<close>

fun RandStr8_loop :: "nat \<Rightarrow> nat \<Rightarrow> i64 \<Rightarrow> gostring \<Rightarrow> gostring" where
  "RandStr8_loop 0 remain cache buf8 = buf8"
| "RandStr8_loop (Suc i) remain cache buf8 =
     (let idx = unat (cache AND idxMask) in
      if length base62 \<le> idx then
        (if 0 < remain then RandStr8_loop (Suc i) (remain - 1) (drop_bit idxBits cache) buf8
         else RandStr8_loop i remain (drop_bit idxBits cache)
                (buf8[i := base62 ! ((idx + (idx - 61) * i) mod length base62)]))
      else RandStr8_loop i remain (drop_bit idxBits cache) (buf8[i := base62 ! idx]))"

definition RandStr8Base62 :: "int63_source \<Rightarrow> nat \<Rightarrow> gostring \<Rightarrow> gostring \<times> nat" where
  "RandStr8Base62 src p buf8 = (RandStr8_loop 8 2 (src p) buf8, Suc p)"

section \<open>Lemmas\<close>

lemma length_base62 [simp]: "length base62 = 62" by (simp add: base62_def)
lemma length_letterBytes [simp]: "length letterBytes = 52" by (simp add: letterBytes_def)
lemma distinct_base62: "distinct base62" by (simp add: base62_def)

lemma base62_nth [simp]: "n < 62 \<Longrightarrow> base62 ! n \<in> set base62"
  by (simp add: nth_mem)

lemma list_update_take_Suc:
  "i < length b \<Longrightarrow> drop i (b[i := x]) = x # drop (Suc i) b"
  by (simp add: drop_update_swap Cons_nth_drop_Suc [symmetric] drop_Cons')

text \<open>
  One turn of the loop either stores a byte of the alphabet, which depends on the draw and
  the position only, or spends one of the spare indices.
\<close>

lemma RandStr8_step:
  obtains (store) ch where "ch \<in> set base62"
      "\<And>b. RandStr8_loop (Suc i) r c b = RandStr8_loop i r (drop_bit idxBits c) (b[i := ch])"
  | (skip) r' where "r = Suc r'"
      "\<And>b. RandStr8_loop (Suc i) r c b = RandStr8_loop (Suc i) r' (drop_bit idxBits c) b"
proof -
  let ?idx = "unat (c AND idxMask)"
  consider "?idx < 62" | "62 \<le> ?idx" "0 < r" | "62 \<le> ?idx" "r = 0" by linarith
  then show thesis
  proof cases
    case 1
    then show thesis by (intro store [of "base62 ! ?idx"]) simp_all
  next
    case 2
    then show thesis by (intro skip [of "r - 1"]) simp_all
  next
    case 3
    then show thesis
      by (intro store [of "base62 ! ((?idx + (?idx - 61) * i) mod 62)"]) (simp_all add: Let_def)
  qed
qed

text \<open>
  The loop leaves the tail above position \<open>k\<close> alone, fills the rest from the alphabet,
  and what it writes does not depend on the old buffer.
\<close>

lemma RandStr8_loop_shape:
  "\<exists>x. length x = k \<and> set x \<subseteq> set base62 \<and>
     (\<forall>b. k \<le> length b \<longrightarrow> RandStr8_loop k r c b = x @ drop k b)"
proof (induction n \<equiv> "k + r" arbitrary: k r c)
  case 0
  then show ?case by simp
next
  case (Suc n)
  show ?case
  proof (cases k)
    case 0
    then show ?thesis by simp
  next
    case k: (Suc i)
    show ?thesis
    proof (cases rule: RandStr8_step [of i r c])
      case (store ch)
      obtain x where x: "length x = i" "set x \<subseteq> set base62"
        "\<And>b. i \<le> length b \<Longrightarrow> RandStr8_loop i r (drop_bit idxBits c) b = x @ drop i b"
        using Suc.hyps(1) [of i r "drop_bit idxBits c"] Suc.hyps(2) k by auto
      then show ?thesis using store k
        by (intro exI [of _ "x @ [ch]"]) (simp add: list_update_take_Suc)
    next
      case (skip r')
      then show ?thesis using Suc.hyps(1) [of k r' "drop_bit idxBits c"] Suc.hyps(2) k by auto
    qed
  qed
qed

subsection \<open>Every string of the alphabet is drawn\<close>

text \<open>The draw whose six-bit digits, lowest first, are the indices of the string backwards.\<close>

definition digits64 :: "nat list \<Rightarrow> nat" where
  "digits64 ds = foldr (\<lambda>d n. d + 64 * n) ds 0"

lemma digits64_simps [simp]: "digits64 [] = 0" "digits64 (d # ds) = d + 64 * digits64 ds"
  by (simp_all add: digits64_def)

lemma digits64_bound: "list_all (\<lambda>d. d < 64) ds \<Longrightarrow> digits64 ds < 64 ^ length ds"
  by (induction ds) auto

lemma unat_word64: "m < 2 ^ 64 \<Longrightarrow> unat (word_of_nat m :: i64) = m"
  by (simp add: unat_of_nat take_bit_nat_eq_self)

lemma mask_step:
  assumes "m < 2 ^ 64"
  shows "unat ((word_of_nat m :: i64) AND idxMask) = m mod 64"
    and "drop_bit idxBits (word_of_nat m :: i64) = word_of_nat (m div 64)"
proof -
  note u = unat_word64 [OF assms]
  have "(word_of_nat m :: i64) AND idxMask = take_bit 6 (word_of_nat m)"
    by (simp add: idxMask_def take_bit_eq_mask mask_numeral)
  then show "unat ((word_of_nat m :: i64) AND idxMask) = m mod 64"
    by (simp only: unsigned_take_bit_eq u) (simp add: take_bit_eq_mod)
  have "unat (drop_bit idxBits (word_of_nat m :: i64)) = m div 64"
    by (simp only: unat_drop_bit_eq u) (simp add: drop_bit_eq_div idxBits_def)
  moreover have "unat (word_of_nat (m div 64) :: i64) = m div 64"
    using assms by (intro unat_word64) linarith
  ultimately show "drop_bit idxBits (word_of_nat m :: i64) = word_of_nat (m div 64)"
    by (simp only: word_unat_eq_iff)
qed

lemma RandStr8_loop_digits:
  assumes "list_all (\<lambda>d. d < 62) ds" "length ds \<le> 10" "length ds \<le> length b"
  shows "RandStr8_loop (length ds) r (word_of_nat (digits64 ds)) b =
    map ((!) base62) (rev ds) @ drop (length ds) b"
  using assms
proof (induction ds arbitrary: b)
  case Nil
  show ?case by simp
next
  case (Cons d ds)
  let ?m = "digits64 (d # ds)"
  have "list_all (\<lambda>d. d < 64) (d # ds)"
    using Cons.prems(1) by (auto elim: list.pred_mono_strong)
  then have "?m < 64 ^ length (d # ds)" by (rule digits64_bound)
  also have "\<dots> \<le> (64::nat) ^ 10" using Cons.prems(2) by (intro power_increasing) auto
  finally have m: "?m < 2 ^ 64" by simp
  have d: "d < 62" using Cons.prems(1) by simp
  then have md: "?m mod 64 = d" "?m div 64 = digits64 ds" by simp_all
  have "RandStr8_loop (length (d # ds)) r (word_of_nat ?m) b =
      RandStr8_loop (length ds) r (word_of_nat (digits64 ds)) (b[length ds := base62 ! d])"
    using mask_step [OF m] md d by (simp del: digits64_simps of_nat_add)
  also have "\<dots> = map ((!) base62) (rev ds) @ drop (length ds) (b[length ds := base62 ! d])"
    using Cons by (intro Cons.IH) auto
  also have "\<dots> = map ((!) base62) (rev (d # ds)) @ drop (length (d # ds)) b"
    using Cons.prems(3) by (simp add: list_update_take_Suc)
  finally show ?case .
qed

lemma base62_index:
  assumes "set s \<subseteq> set base62"
  obtains ds where "list_all (\<lambda>d. d < 62) ds" "s = map ((!) base62) (rev ds)" "length ds = length s"
proof -
  have "\<forall>c\<in>set s. \<exists>d<62. base62 ! d = c"
    using assms by (auto simp: subset_iff in_set_conv_nth)
  then obtain g where g: "\<And>c. c \<in> set s \<Longrightarrow> g c < 62 \<and> base62 ! g c = c" by metis
  show thesis
    by (rule that [of "rev (map g s)"]) (auto simp: list_all_iff g rev_map comp_def intro: map_idI [symmetric])
qed

lemma RandStr8_onto:
  assumes "length s = 8" "set s \<subseteq> set base62"
  shows "\<exists>c < 2 ^ 48. \<forall>b. length b = 8 \<longrightarrow> RandStr8_loop 8 2 (word_of_nat c) b = s"
proof -
  obtain ds where ds: "list_all (\<lambda>d. d < 62) ds" "s = map ((!) base62) (rev ds)" "length ds = 8"
    using base62_index [OF assms(2)] assms(1) by metis
  have "list_all (\<lambda>d. d < 64) ds" using ds(1) by (auto elim: list.pred_mono_strong)
  from digits64_bound [OF this] have "digits64 ds < 2 ^ 48" by (simp add: ds(3))
  moreover have "RandStr8_loop 8 2 (word_of_nat (digits64 ds)) b = s" if "length b = 8" for b
    using RandStr8_loop_digits [OF ds(1), of b 2] ds that by simp
  ultimately show ?thesis by blast
qed

subsection \<open>RandStr\<close>

text \<open>One of the next \<open>r\<close> indices of the cached draw is accepted.\<close>

definition accepts :: "i64 \<Rightarrow> nat \<Rightarrow> bool" where
  "accepts c r \<longleftrightarrow> (\<exists>j<r. unat (drop_bit (j * idxBits) c AND idxMask) < length letterBytes)"

text \<open>Every draw has an index in the range of the alphabet among its ten.\<close>

definition productive :: "int63_source \<Rightarrow> bool" where
  "productive src \<longleftrightarrow> (\<forall>p. accepts (src p) idxMax)"

lemma accepts_shift:
  assumes "accepts c (Suc r)" "\<not> unat (c AND idxMask) < length letterBytes"
  shows "accepts (drop_bit idxBits c) r"
proof -
  obtain j where j: "j < Suc r" "unat (drop_bit (j * idxBits) c AND idxMask) < length letterBytes"
    using assms(1) by (auto simp: accepts_def)
  with assms(2) obtain i where i: "j = Suc i" by (cases j) auto
  have "drop_bit (j * idxBits) c = drop_bit (i * idxBits) (drop_bit idxBits c)"
    by (simp add: i drop_bit_drop_bit add.commute)
  with i j show ?thesis by (auto simp: accepts_def)
qed

lemma RandStr_loop_0: "RandStr_loop src 0 c r p b = Some (b, p)"
  by (simp add: RandStr_loop.simps)

lemma RandStr_loop_refill:
  "0 < k \<Longrightarrow> RandStr_loop src k c 0 p b = RandStr_loop src k (src p) idxMax (Suc p) b"
  by (subst (1 2) RandStr_loop.simps) (simp add: idxMax_def idxBits_def)

lemma RandStr_loop_accept:
  "unat (c AND idxMask) < length letterBytes \<Longrightarrow>
   RandStr_loop src (Suc k) c (Suc r) p b =
     RandStr_loop src k (drop_bit idxBits c) r p (b[k := letterBytes ! unat (c AND idxMask)])"
  by (subst RandStr_loop.simps) simp

lemma RandStr_loop_reject:
  "\<not> unat (c AND idxMask) < length letterBytes \<Longrightarrow>
   RandStr_loop src (Suc k) c (Suc r) p b = RandStr_loop src (Suc k) (drop_bit idxBits c) r p b"
  by (subst RandStr_loop.simps) simp

lemma RandStr_loop_returns:
  assumes "productive src"
  shows "length b = n \<Longrightarrow> k \<le> n \<Longrightarrow>
    \<exists>x q. RandStr_loop src k c r p b = Some (x @ drop k b, q) \<and> length x = k \<and> set x \<subseteq> set letterBytes"
proof (induction k arbitrary: c r p b)
  case 0
  then show ?case by (simp add: RandStr_loop_0)
next
  case (Suc k)
  let ?P = "\<lambda>c r p. \<exists>x q. RandStr_loop src (Suc k) c r p b = Some (x @ drop (Suc k) b, q) \<and>
      length x = Suc k \<and> set x \<subseteq> set letterBytes"
  have accept: "?P c (Suc r) p" if a: "unat (c AND idxMask) < length letterBytes" for c r p
  proof -
    let ?ch = "letterBytes ! unat (c AND idxMask)"
    obtain x q where "RandStr_loop src k (drop_bit idxBits c) r p (b[k := ?ch]) =
        Some (x @ drop k (b[k := ?ch]), q)" "length x = k" "set x \<subseteq> set letterBytes"
      using Suc.IH [of "b[k := ?ch]" "drop_bit idxBits c" r p] Suc.prems by auto
    moreover have "?ch \<in> set letterBytes" using a by (rule nth_mem)
    ultimately show ?thesis using Suc.prems a
      by (intro exI [of _ "x @ [?ch]"] exI [of _ q])
        (simp add: RandStr_loop_accept list_update_take_Suc)
  qed
  have good: "accepts c r \<Longrightarrow> ?P c r p" for c r p
  proof (induction r arbitrary: c)
    case 0
    then show ?case by (simp add: accepts_def)
  next
    case (Suc r)
    show ?case
    proof (cases "unat (c AND idxMask) < length letterBytes")
      case True
      then show ?thesis by (rule accept)
    next
      case False
      with Suc show ?thesis by (simp add: RandStr_loop_reject accepts_shift)
    qed
  qed
  show ?case
  proof (induction r arbitrary: c)
    case 0
    have "accepts (src p) idxMax" using assms by (simp add: productive_def)
    then show ?case using good by (simp add: RandStr_loop_refill)
  next
    case (Suc r)
    show ?case
    proof (cases "unat (c AND idxMask) < length letterBytes")
      case True
      then show ?thesis by (rule accept)
    next
      case False
      with Suc show ?thesis by (simp add: RandStr_loop_reject)
    qed
  qed
qed

section \<open>Properties\<close>

text \<open>C40: \<open>RandStr8Base62\<close> draws once and returns eight characters of the base-62 alphabet,
  whatever the draw; the shared buffer's old contents do not show.\<close>

theorem RandStr8Base62_shape:
  assumes "length buf8 = 8"
  shows "\<exists>s. length s = 8 \<and> set s \<subseteq> set base62 \<and> RandStr8Base62 src p buf8 = (s, Suc p) \<and>
    (\<forall>buf'. length buf' = 8 \<longrightarrow> RandStr8Base62 src p buf' = (s, Suc p))"
proof -
  obtain x where x: "length x = 8" "set x \<subseteq> set base62"
    "\<And>b. 8 \<le> length b \<Longrightarrow> RandStr8_loop 8 2 (src p) b = x @ drop 8 b"
    using RandStr8_loop_shape by blast
  then show ?thesis using assms by (intro exI [of _ x]) (auto simp: RandStr8Base62_def)
qed

lemma RandStr8Base62_shape_witness:
  "\<exists>s. length s = 8 \<and> set s \<subseteq> set base62 \<and> RandStr8Base62 (\<lambda>_. -1) 0 ''????????'' = (s, 1)"
  using RandStr8Base62_shape [of "''????????''" "\<lambda>_. -1" 0] by auto

text \<open>Every string of eight base-62 characters is the result of some draw below \<open>2^48\<close>:
  no client id is out of reach of the generator.\<close>

theorem RandStr8Base62_onto:
  assumes "length s = 8" "set s \<subseteq> set base62" "length buf8 = 8"
  shows "\<exists>c < 2 ^ 48. RandStr8Base62 (\<lambda>_. word_of_nat c) p buf8 = (s, Suc p)"
  using RandStr8_onto [OF assms(1,2)] assms(3) by (auto simp: RandStr8Base62_def)

lemma RandStr8Base62_onto_witness:
  "\<exists>c < 2 ^ 48. RandStr8Base62 (\<lambda>_. word_of_nat c) 0 ''........'' = (''zZ09aAbB'', 1)"
  using RandStr8Base62_onto [of "''zZ09aAbB''" "''........''" 0] by (simp add: base62_def)

text \<open>\<open>RandStr(n)\<close> returns, with \<open>n\<close> letters, whenever every draw of the source holds an
  acceptable index among its ten.\<close>

theorem RandStr_returns:
  assumes "productive src" "0 \<le> n"
  shows "\<exists>s q. RandStr src p n = Some (Returns (s, q)) \<and> length s = nat n \<and> set s \<subseteq> set letterBytes"
proof -
  obtain x q where "RandStr_loop src (nat n) (src p) idxMax (Suc p) (replicate (nat n) (byte 0)) =
      Some (x @ drop (nat n) (replicate (nat n) (byte 0)), q)" "length x = nat n" "set x \<subseteq> set letterBytes"
    using RandStr_loop_returns [OF assms(1), of "replicate (nat n) (byte 0)" "nat n" "nat n" "src p" idxMax "Suc p"] by auto
  then show ?thesis using assms(2) by (simp add: RandStr_def)
qed

lemma RandStr_returns_witness:
  "\<exists>s q. RandStr (\<lambda>_. 0) 0 12 = Some (Returns (s, q)) \<and> length s = 12 \<and> set s \<subseteq> set letterBytes"
proof -
  have "productive (\<lambda>_. 0)" by (auto simp: productive_def accepts_def idxMax_def idxBits_def intro: exI [of _ 0])
  from RandStr_returns [OF this, of 12 0] show ?thesis by simp
qed

end
