(* ===== verification/Server.thy ===== *)
theory Server
  imports ManagerLaws MessageLaws Uid
begin

text \<open>
  \<open>server/server.go\<close>: the server's state, the check of a login, the choice of a client id,
  the registration of a manager, what is done with a new stream, and the removal of a
  manager that is done.  The proxy servers' HTTP interface is in \<open>Mux\<close>; accepting
  connections and the \<open>yamux\<close> sessions are the program's surroundings.
\<close>

record server_config =
  cfg_Ip :: gostring
  cfg_Port :: gostring
  cfg_AuthCode :: gostring
  cfg_startPort :: int
  cfg_endPort :: int
  cfg_forceRange :: bool
  cfg_Api :: gostring
  cfg_MuxAddr :: gostring
  cfg_Domain :: gostring

text \<open>
  The server with the package variables it uses: the allocation state of \<open>netstat\<close>, the
  position in the random source of \<open>util\<close> and the buffer its ids are built in.
\<close>

record server =
  config :: server_config
  srv_address :: gostring
  managers :: "gostring \<rightharpoonup> manager"
  ports :: port_state
  rand_pos :: nat
  id_buf :: gostring

definition JoinHostPort :: "gostring \<Rightarrow> gostring \<Rightarrow> gostring" where
  "JoinHostPort host port =
     (if CHR '':'' \<in> set host then ''['' @ host @ '']:'' @ port else host @ '':'' @ port)"

text \<open>Setting the port range of an empty interval panics in the pool's goroutine.\<close>

definition NewServer :: "perms \<Rightarrow> server_config \<Rightarrow> server outcome" where
  "NewServer perms cfg =
     (case SetPortRange (cfg_startPort cfg) (cfg_endPort cfg) (cfg_forceRange cfg) perms of
        Returns st \<Rightarrow> Returns
          \<lparr>config = cfg, srv_address = JoinHostPort (cfg_Ip cfg) (cfg_Port cfg), managers = (\<lambda>_. None),
           ports = st, rand_pos = 0, id_buf = replicate 8 (byte 0)\<rparr>
      | Panics \<Rightarrow> Panics
      | Blocks \<Rightarrow> Blocks)"

section \<open>Logins\<close>

datatype login_error = AuthCodeError | TagError

definition login_error_text :: "login_error \<Rightarrow> gostring" where
  "login_error_text e =
     (case e of AuthCodeError \<Rightarrow> ''auth code error'' | TagError \<Rightarrow> ''tag not match /a-zA-Z0-9_-/'')"

definition CheckLogin :: "server_config \<Rightarrow> LoginRequest \<Rightarrow> login_error option" where
  "CheckLogin cfg req =
     (if cfg_AuthCode cfg \<noteq> login_AuthCode req then Some AuthCodeError
      else if \<not> CheckLegal (login_Tag req) then Some TagError
      else None)"

text \<open>
  \<open>genId\<close> draws until it finds a key no manager has; the loop is partial.  The buffer of
  \<open>RandStr8Base62\<close> holds the last key drawn.
\<close>

partial_function (option) genId_loop ::
  "(gostring \<rightharpoonup> manager) \<Rightarrow> int63_source \<Rightarrow> nat \<Rightarrow> gostring \<Rightarrow> (gostring \<times> nat) option" where
  "genId_loop mgrs src p buf =
     (case RandStr8Base62 src p buf of (key, p') \<Rightarrow>
        if mgrs key = None then Some (key, p') else genId_loop mgrs src p' key)"

definition genId :: "int63_source \<Rightarrow> server \<Rightarrow> (gostring \<times> server) option" where
  "genId src srv =
     (case genId_loop (managers srv) src (rand_pos srv) (id_buf srv) of
        None \<Rightarrow> None
      | Some (key, p) \<Rightarrow> Some (key, srv\<lparr>rand_pos := p, id_buf := key\<rparr>))"

definition RegisterManager ::
  "int63_source \<Rightarrow> i64 \<Rightarrow> conn \<Rightarrow> LoginRequest \<Rightarrow> server \<Rightarrow> (manager \<times> server) option" where
  "RegisterManager src now c req srv =
     (case genId src srv of
        None \<Rightarrow> None
      | Some (key, srv1) \<Rightarrow>
          (let m = NewManager key c req now in
           Some (m, srv1\<lparr>managers := (managers srv1)(ClientId m \<mapsto> m)\<rparr>)))"

section \<open>Streams\<close>

text \<open>What the server does on a new stream: send a message on it, close it.\<close>

datatype stream_action = SendMsg message | CloseStream

text \<open>
  \<open>HandleStream\<close>.  \<open>stream\<close> is the stream's data with its read deadline as the final
  error, \<open>c\<close> the stream.  The result of \<open>Send\<close> is not looked at.  \<open>None\<close>: \<open>genId\<close>
  does not return.  This is the goroutine when no other one comes between; \<open>ServerRun\<close> splits
  its login and its pipe case into the steps where others can be seen.
\<close>

definition HandleStream ::
  "int63_source \<Rightarrow> i64 \<Rightarrow> conn \<Rightarrow> reader \<Rightarrow> server \<Rightarrow> (stream_action list \<times> server) option" where
  "HandleStream src now c stream srv =
     (case fst (message_Get stream) of
        Inl e \<Rightarrow> Some ([CloseStream], srv)
      | Inr (MLoginRequest v) \<Rightarrow>
          (case CheckLogin (config srv) v of
             Some e \<Rightarrow> Some ([SendMsg (MLoginResponse \<lparr>loginResp_ClientId = [],
                               loginResp_Result = ''login fail:'' @ login_error_text e\<rparr>), CloseStream], srv)
           | None \<Rightarrow>
               (case RegisterManager src now c v srv of
                  None \<Rightarrow> None
                | Some (m, srv') \<Rightarrow>
                    Some ([SendMsg (MLoginResponse \<lparr>loginResp_ClientId = ClientId m, loginResp_Result = ''ok''\<rparr>)], srv')))
      | Inr (MPipeRequest v) \<Rightarrow>
          (case managers srv (pipeReq_ClientId v) of
             None \<Rightarrow> Some ([CloseStream], srv)
           | Some m \<Rightarrow>
               (case PushPipeConn m c of
                  (None, m') \<Rightarrow> Some ([], srv\<lparr>managers := (managers srv)(pipeReq_ClientId v \<mapsto> m')\<rparr>)
                | (Some e, m') \<Rightarrow> Some ([CloseStream], srv\<lparr>managers := (managers srv)(pipeReq_ClientId v \<mapsto> m')\<rparr>)))
      | Inr _ \<Rightarrow> Some ([CloseStream], srv))"

section \<open>Managers that are done\<close>

text \<open>
  One turn of \<open>awaitManagerDone\<close>.  The manager is a pointer, so its state is that of the
  map if the map still holds it; closing it leaves nothing of it in the server's state.
\<close>

definition manager_done :: "gostring list \<Rightarrow> manager \<Rightarrow> server \<Rightarrow> (server \<times> effect list) outcome" where
  "manager_done ks m srv =
     (let srv1 = srv\<lparr>managers := (managers srv)(ClientId m := None)\<rparr> in
      case Manager_Close ks m of
        Returns (m', eff) \<Rightarrow> Returns (srv1, eff)
      | Panics \<Rightarrow> Panics
      | Blocks \<Rightarrow> Blocks)"

section \<open>Queries\<close>

text \<open>\<open>ks\<close>: the order in which \<open>range\<close> visits the managers.\<close>

fun filterManagers_loop :: "gostring list \<Rightarrow> manager list \<Rightarrow> manager list \<Rightarrow> manager list" where
  "filterManagers_loop tags result [] = result"
| "filterManagers_loop tags result (m # ms) =
     (if length tags = 0 \<or> Tag m \<in> set tags
      then filterManagers_loop tags (result @ [m]) ms
      else filterManagers_loop tags result ms)"

definition filterManagers :: "gostring list \<Rightarrow> server \<Rightarrow> gostring list \<Rightarrow> manager list" where
  "filterManagers ks srv tags = filterManagers_loop tags [] (range_map ks (managers srv))"

text \<open>The entries of \<open>Manager.Info\<close>; \<open>UnixMicro\<close> times are the stored ones.\<close>

record manager_info =
  info_cid :: gostring
  info_psize :: int
  info_cpool :: nat
  info_proxies :: "srv_proxy list"
  info_avglat :: f64
  info_lastlat :: i64
  info_conn_t :: i64
  info_last_t :: i64
  info_meta :: LoginRequest

definition Manager_Info :: "gostring list \<Rightarrow> manager \<Rightarrow> manager_info" where
  "Manager_Info pks m =
     \<lparr>info_cid = ClientId m, info_psize = PoolSize m, info_cpool = length (ch_buf (pipeConnPool m)),
      info_proxies = range_map pks (Proxies m), info_avglat = ema_Avg (Latency m),
      info_lastlat = ema_Last (Latency m), info_conn_t = ConnTime m, info_last_t = LastBeatTime m,
      info_meta = Meta m\<rparr>"

fun Info_loop :: "(manager \<Rightarrow> gostring list) \<Rightarrow> manager_info list \<Rightarrow> manager list \<Rightarrow> manager_info list" where
  "Info_loop pks info [] = info"
| "Info_loop pks info (m # ms) = Info_loop pks (info @ [Manager_Info (pks m) m]) ms"

definition Info :: "gostring list \<Rightarrow> (manager \<Rightarrow> gostring list) \<Rightarrow> server \<Rightarrow> gostring list \<Rightarrow> manager_info list" where
  "Info ks pks srv tags = Info_loop pks [] (filterManagers ks srv tags)"

text \<open>The handlers of \<open>/list\<close> and \<open>/ping\<close>; the query arguments are given, absent ones empty.\<close>

definition api_list :: "gostring list \<Rightarrow> (manager \<Rightarrow> gostring list) \<Rightarrow> server \<Rightarrow> gostring \<Rightarrow> manager_info list" where
  "api_list ks pks srv tags =
     (if tags \<noteq> [] then Info ks pks srv (strings_Split tags '','') else Info ks pks srv [])"

definition api_ping :: "i64 \<Rightarrow> gostring \<Rightarrow> server \<Rightarrow> (i64 option \<times> server) outcome" where
  "api_ping now cid srv =
     (case managers srv cid of
        None \<Rightarrow> Returns (None, srv)
      | Some m \<Rightarrow>
          (case Ping now m of
             Returns (t, m') \<Rightarrow> Returns (Some t, srv\<lparr>managers := (managers srv)(cid \<mapsto> m')\<rparr>)
           | Panics \<Rightarrow> Panics
           | Blocks \<Rightarrow> Blocks))"

text \<open>
  \<open>ApiServer\<close> starts nothing for an empty address; a request is its path and its query.  What
  \<open>/metrics\<close> answers is the library's.
\<close>

datatype api_answer = ApiText gostring | ApiManagers "manager_info list" | ApiPingTime i64 | ApiNothing | ApiLibrary

definition ApiServer ::
  "gostring \<Rightarrow> gostring list \<Rightarrow> (manager \<Rightarrow> gostring list) \<Rightarrow> i64 \<Rightarrow>
    (gostring \<Rightarrow> (gostring \<Rightarrow> gostring) \<Rightarrow> server \<Rightarrow> (api_answer \<times> server) outcome) option" where
  "ApiServer addr ks pks now =
     (if addr = [] then None
      else Some (\<lambda>path query srv.
        if path = ''/health'' then Returns (ApiText ''ok'', srv)
        else if path = ''/list'' then Returns (ApiManagers (api_list ks pks srv (query ''tags'')), srv)
        else if path = ''/ping'' then
          (case api_ping now (query ''cid'') srv of
             Returns (Some t, srv') \<Rightarrow> Returns (ApiPingTime t, srv')
           | Returns (None, srv') \<Rightarrow> Returns (ApiNothing, srv')
           | Panics \<Rightarrow> Panics
           | Blocks \<Rightarrow> Blocks)
        else Returns (ApiLibrary, srv)))"

section \<open>Lemmas\<close>

lemma filterManagers_loop_eq:
  "filterManagers_loop tags acc ms = acc @ filter (\<lambda>m. tags = [] \<or> Tag m \<in> set tags) ms"
  by (induction ms arbitrary: acc) auto

lemma filterManagers_eq:
  "filterManagers ks srv tags = filter (\<lambda>m. tags = [] \<or> Tag m \<in> set tags) (range_map ks (managers srv))"
  by (simp add: filterManagers_def filterManagers_loop_eq)

lemma Info_loop_eq: "Info_loop pks acc ms = acc @ map (\<lambda>m. Manager_Info (pks m) m) ms"
  by (induction ms arbitrary: acc) auto

text \<open>What holds of a manager in the map: it is filed under its id, its client was let in.\<close>

definition listed :: "server_config \<Rightarrow> gostring \<Rightarrow> manager \<Rightarrow> bool" where
  "listed cfg k m \<longleftrightarrow>
     ClientId m = k \<and> mgr_inv m \<and> login_AuthCode (Meta m) = cfg_AuthCode cfg \<and>
     list_all legal_char (login_Tag (Meta m)) \<and> Tag m = login_Tag (Meta m) \<and> length k = 8 \<and> set k \<subseteq> set base62"

definition server_inv :: "server \<Rightarrow> bool" where
  "server_inv srv \<longleftrightarrow>
     length (id_buf srv) = 8 \<and> (\<forall>k m. managers srv k = Some m \<longrightarrow> listed (config srv) k m)"

lemma server_inv_listed: "server_inv srv \<Longrightarrow> managers srv k = Some m \<Longrightarrow> listed (config srv) k m"
  by (simp add: server_inv_def)

text \<open>What a draw gives does not depend on the buffer.\<close>

definition drawn_key :: "int63_source \<Rightarrow> nat \<Rightarrow> gostring" where
  "drawn_key src p = fst (RandStr8Base62 src p (replicate 8 (byte 0)))"

lemma RandStr8Base62_key:
  assumes "length buf = 8"
  shows "RandStr8Base62 src p buf = (drawn_key src p, Suc p)"
    and "length (drawn_key src p) = 8" and "set (drawn_key src p) \<subseteq> set base62"
proof -
  obtain x where x: "length x = 8" "set x \<subseteq> set base62"
    "\<And>b. 8 \<le> length b \<Longrightarrow> RandStr8_loop 8 2 (src p) b = x @ drop 8 b"
    using RandStr8_loop_shape by blast
  have "drawn_key src p = x" using x(3) [of "replicate 8 (byte 0)"]
    by (simp add: drawn_key_def RandStr8Base62_def)
  with x assms show "RandStr8Base62 src p buf = (drawn_key src p, Suc p)"
    "length (drawn_key src p) = 8" "set (drawn_key src p) \<subseteq> set base62"
    by (simp_all add: RandStr8Base62_def)
qed

lemma genId_loop_step:
  "length buf = 8 \<Longrightarrow> genId_loop mgrs src p buf =
     (if mgrs (drawn_key src p) = None then Some (drawn_key src p, Suc p)
      else genId_loop mgrs src (Suc p) (drawn_key src p))"
  by (subst genId_loop.simps) (simp add: RandStr8Base62_key(1))

text \<open>The loop returns exactly if some draw gives an unused key, and it returns the first.\<close>

lemma genId_loop_finds:
  assumes "length buf = 8" "mgrs (drawn_key src (p + n)) = None"
    "\<And>i. i < n \<Longrightarrow> mgrs (drawn_key src (p + i)) \<noteq> None"
  shows "genId_loop mgrs src p buf = Some (drawn_key src (p + n), Suc (p + n))"
  using assms
proof (induction n arbitrary: p buf)
  case 0
  then show ?case by (simp add: genId_loop_step)
next
  case (Suc n)
  have "mgrs (drawn_key src p) \<noteq> None" using Suc.prems(3) [of 0] by simp
  then have "genId_loop mgrs src p buf = genId_loop mgrs src (Suc p) (drawn_key src p)"
    by (subst genId_loop_step [OF Suc.prems(1)]) (simp del: not_None_eq)
  also have "\<dots> = Some (drawn_key src (Suc p + n), Suc (Suc p + n))"
  proof (rule Suc.IH)
    show "length (drawn_key src p) = 8" using Suc.prems(1) by (rule RandStr8Base62_key(2))
    show "mgrs (drawn_key src (Suc p + i)) \<noteq> None" if "i < n" for i
      using Suc.prems(3) [of "Suc i"] that by simp
  qed (use Suc.prems in simp)
  finally show ?case by simp
qed

lemma genId_loop_Some:
  "genId_loop mgrs src p buf = Some r \<Longrightarrow> length buf = 8 \<Longrightarrow>
   \<exists>n. r = (drawn_key src (p + n), Suc (p + n)) \<and> mgrs (fst r) = None"
proof (induction rule: genId_loop.raw_induct [rotated, consumes 1, case_names step])
  case (step f mgrs src p buf r)
  note buf = step.prems(1)
  show ?case
  proof (cases "mgrs (drawn_key src p) = None")
    case True
    with step.hyps buf show ?thesis
      by (intro exI [of _ 0]) (auto simp: RandStr8Base62_key(1))
  next
    case False
    with step.hyps buf have "f mgrs src (Suc p) (drawn_key src p) = Some r"
      by (simp add: RandStr8Base62_key(1))
    from step.IH [OF this] RandStr8Base62_key(2) [OF buf, of src p] obtain n where
      "r = (drawn_key src (Suc p + n), Suc (Suc p + n)) \<and> mgrs (fst r) = None" by blast
    then show ?thesis by (intro exI [of _ "Suc n"]) auto
  qed
qed

section \<open>The server's invariant\<close>

lemma genId_Some:
  assumes "genId src srv = Some (key, srv')" "length (id_buf srv) = 8"
  shows "managers srv key = None \<and> length key = 8 \<and> set key \<subseteq> set base62 \<and>
    srv' = srv\<lparr>rand_pos := rand_pos srv', id_buf := key\<rparr>"
proof -
  obtain p where p: "genId_loop (managers srv) src (rand_pos srv) (id_buf srv) = Some (key, p)"
    "srv' = srv\<lparr>rand_pos := p, id_buf := key\<rparr>"
    using assms(1) by (auto simp: genId_def split: option.splits)
  obtain n where "key = drawn_key src (rand_pos srv + n)" "managers srv key = None"
    using genId_loop_Some [OF p(1) assms(2)] by auto
  with p(2) RandStr8Base62_key(2,3) [OF assms(2)] show ?thesis by simp
qed

lemma PushPipeConn_keeps:
  "PushPipeConn m c = (e, m') \<Longrightarrow> ClientId m' = ClientId m \<and> Tag m' = Tag m \<and> Meta m' = Meta m \<and> closed m' = closed m"
  by (auto simp: PushPipeConn_def PushPipeConn_send_def split: if_splits outcome.splits option.splits)

lemma server_inv_update:
  assumes "server_inv srv" "managers srv k = Some m" "mgr_inv m'"
    "ClientId m' = ClientId m" "Tag m' = Tag m" "Meta m' = Meta m"
  shows "server_inv (srv\<lparr>managers := (managers srv)(k \<mapsto> m')\<rparr>)"
proof -
  have "listed (config srv) k m'"
    using server_inv_listed [OF assms(1,2)] assms(3-6) by (simp add: listed_def)
  with assms(1) show ?thesis by (simp add: server_inv_def)
qed

lemma RegisterManager_Some:
  assumes "RegisterManager src now c req srv = Some (m, srv')" "length (id_buf srv) = 8"
  shows "m = NewManager (ClientId m) c req now" "managers srv (ClientId m) = None"
    "length (ClientId m) = 8" "set (ClientId m) \<subseteq> set base62"
    "managers srv' = (managers srv)(ClientId m \<mapsto> m)" "id_buf srv' = ClientId m"
    "config srv' = config srv" "ports srv' = ports srv"
proof -
  obtain key srv1 where 1: "genId src srv = Some (key, srv1)" "m = NewManager key c req now"
    "srv' = srv1\<lparr>managers := (managers srv1)(ClientId m \<mapsto> m)\<rparr>"
    using assms(1) by (auto simp: RegisterManager_def Let_def split: option.splits)
  note g = genId_Some [OF 1(1) assms(2)]
  have "ClientId m = key" by (simp add: 1(2) NewManager_def)
  moreover have "managers srv1 = managers srv" "config srv1 = config srv" "ports srv1 = ports srv" "id_buf srv1 = key"
    using g by (metis server.select_convs server.surjective server.update_convs)+
  ultimately show "m = NewManager (ClientId m) c req now" "managers srv (ClientId m) = None"
    "length (ClientId m) = 8" "set (ClientId m) \<subseteq> set base62"
    "managers srv' = (managers srv)(ClientId m \<mapsto> m)" "id_buf srv' = ClientId m"
    "config srv' = config srv" "ports srv' = ports srv"
    using 1 g by simp_all
qed

lemma server_inv_RegisterManager:
  assumes "server_inv srv" "CheckLogin (config srv) req = None"
    "RegisterManager src now c req srv = Some (m, srv')"
  shows "server_inv srv'"
proof -
  have b: "length (id_buf srv) = 8" using assms(1) by (simp add: server_inv_def)
  note R = RegisterManager_Some [OF assms(3) b]
  have "cfg_AuthCode (config srv) = login_AuthCode req" "CheckLegal (login_Tag req)"
    using assms(2) by (auto simp: CheckLogin_def split: if_splits)
  moreover have "Tag m = login_Tag req" "Meta m = req" "mgr_inv m"
    using R(1) mgr_inv_New [of "ClientId m" c req now] by (metis NewManager_def manager.select_convs(2,11))+
  ultimately have "listed (config srv) (ClientId m) m"
    using R(3,4) by (simp add: listed_def CheckLegal_eq)
  then show ?thesis using assms(1) R by (simp add: server_inv_def)
qed

text \<open>A stream changes nothing, logs a client in or adds a pipe to a manager's pool.\<close>

lemma HandleStream_cases:
  assumes "HandleStream src now c stream srv = Some (acts, srv')"
  obtains (same) "srv' = srv"
    | (login) v m where "CheckLogin (config srv) v = None" "RegisterManager src now c v srv = Some (m, srv')"
    | (pipe) k m e m' where "managers srv k = Some m" "PushPipeConn m c = (e, m')"
        "srv' = srv\<lparr>managers := (managers srv)(k \<mapsto> m')\<rparr>"
proof (cases "fst (message_Get stream)")
  case (Inl e)
  with assms show thesis by (intro same) (simp add: HandleStream_def)
next
  case (Inr msg)
  show thesis
  proof (cases msg)
    case (MLoginRequest v)
    with Inr assms show thesis
      by (auto simp: HandleStream_def intro: same login split: option.splits prod.splits)
  next
    case (MPipeRequest v)
    with Inr assms show thesis
      by (cases "managers srv (pipeReq_ClientId v)")
        (auto simp: HandleStream_def intro: same pipe split: option.splits prod.splits)
  qed (use Inr assms same in \<open>simp_all add: HandleStream_def\<close>)
qed

lemma server_inv_HandleStream:
  assumes "server_inv srv" "HandleStream src now c stream srv = Some (acts, srv')"
  shows "server_inv srv'"
proof -
  consider (same) "srv' = srv"
    | (login) v m where "CheckLogin (config srv) v = None" "RegisterManager src now c v srv = Some (m, srv')"
    | (pipe) k m e m' where "managers srv k = Some m" "PushPipeConn m c = (e, m')"
        "srv' = srv\<lparr>managers := (managers srv)(k \<mapsto> m')\<rparr>"
    using assms(2) by (rule HandleStream_cases)
  then show ?thesis
  proof cases
    case same
    with assms(1) show ?thesis by simp
  next
    case login
    show ?thesis using assms(1) login by (rule server_inv_RegisterManager)
  next
    case pipe
    have "mgr_inv m" using server_inv_listed [OF assms(1) pipe(1)] by (simp add: listed_def)
    then have "mgr_inv m'" using pipe(2) by (rule mgr_inv_PushPipeConn)
    with PushPipeConn_keeps [OF pipe(2)] assms(1) pipe show ?thesis
      by (auto intro: server_inv_update)
  qed
qed

lemma server_inv_manager_done:
  "server_inv srv \<Longrightarrow> manager_done ks m srv = Returns (srv', eff) \<Longrightarrow> server_inv srv'"
  by (auto simp: manager_done_def server_inv_def Let_def split: outcome.splits if_splits)

lemma server_inv_New: "NewServer perms cfg = Returns srv \<Longrightarrow> server_inv srv"
  by (auto simp: NewServer_def server_inv_def split: outcome.splits)

lemma genId_returns:
  assumes "length (id_buf srv) = 8" "managers srv (drawn_key src (rand_pos srv + k)) = None"
  shows "\<exists>key srv'. genId src srv = Some (key, srv')"
proof -
  have ex: "\<exists>n. managers srv (drawn_key src (rand_pos srv + n)) = None" using assms(2) by blast
  define n where "n = (LEAST n. managers srv (drawn_key src (rand_pos srv + n)) = None)"
  have "managers srv (drawn_key src (rand_pos srv + n)) = None"
    unfolding n_def using ex by (rule LeastI_ex)
  moreover have "managers srv (drawn_key src (rand_pos srv + i)) \<noteq> None" if "i < n" for i
    using that not_less_Least unfolding n_def by blast
  ultimately have "genId_loop (managers srv) src (rand_pos srv) (id_buf srv) =
      Some (drawn_key src (rand_pos srv + n), Suc (rand_pos srv + n))"
    using assms(1) by (intro genId_loop_finds)
  then show ?thesis by (simp add: genId_def)
qed

text \<open>What \<open>genId\<close> returns is the first unused key drawn.\<close>

lemma genId_first:
  assumes "genId src srv = Some (key, srv')" "length (id_buf srv) = 8"
  shows "\<exists>n. key = drawn_key src (rand_pos srv + n) \<and> managers srv key = None \<and>
    (\<forall>i<n. managers srv (drawn_key src (rand_pos srv + i)) \<noteq> None) \<and>
    srv' = srv\<lparr>rand_pos := Suc (rand_pos srv + n), id_buf := key\<rparr>"
proof -
  let ?unused = "\<lambda>n. managers srv (drawn_key src (rand_pos srv + n)) = None"
  obtain r where "genId_loop (managers srv) src (rand_pos srv) (id_buf srv) = Some r"
    using assms(1) by (auto simp: genId_def split: option.splits)
  from genId_loop_Some [OF this assms(2)] have ex: "\<exists>n. ?unused n" by auto
  define n where "n = (LEAST n. ?unused n)"
  have n: "?unused n" unfolding n_def using ex by (rule LeastI_ex)
  have before: "\<not> ?unused i" if "i < n" for i
    using that not_less_Least unfolding n_def by blast
  have "genId_loop (managers srv) src (rand_pos srv) (id_buf srv) =
      Some (drawn_key src (rand_pos srv + n), Suc (rand_pos srv + n))"
    using assms(2) n before by (intro genId_loop_finds)
  then show ?thesis using assms(1) n before by (intro exI [of _ n]) (auto simp: genId_def)
qed

lemma genId_keeps:
  assumes "genId src srv = Some (key, srv')" "length (id_buf srv) = 8"
  shows "managers srv' = managers srv"
  using genId_Some [OF assms] by (metis server.select_convs(3) server.surjective server.update_convs(5,6))

lemma HandleStream_login:
  assumes "server_inv srv" "CheckLogin (config srv) v = None"
    "fst (message_Get stream) = Inr (MLoginRequest v)"
    "managers srv (drawn_key src (rand_pos srv + n)) = None"
  shows "\<exists>key srv'. HandleStream src now c stream srv =
      Some ([SendMsg (MLoginResponse \<lparr>loginResp_ClientId = key, loginResp_Result = ''ok''\<rparr>)], srv') \<and>
    managers srv key = None \<and> managers srv' = (managers srv)(key \<mapsto> NewManager key c v now) \<and>
    server_inv srv'"
proof -
  have b: "length (id_buf srv) = 8" using assms(1) by (simp add: server_inv_def)
  obtain key srv1 where g: "genId src srv = Some (key, srv1)"
    using genId_returns [OF b assms(4)] by blast
  define m where "m = NewManager key c v now"
  have id: "ClientId m = key" by (simp add: m_def NewManager_def)
  have R: "RegisterManager src now c v srv = Some (m, srv1\<lparr>managers := (managers srv1)(key \<mapsto> m)\<rparr>)"
    using g id by (simp add: RegisterManager_def m_def Let_def)
  note S = RegisterManager_Some [OF R b]
  have "HandleStream src now c stream srv =
      Some ([SendMsg (MLoginResponse \<lparr>loginResp_ClientId = key, loginResp_Result = ''ok''\<rparr>)],
        srv1\<lparr>managers := (managers srv1)(key \<mapsto> m)\<rparr>)"
    using assms(2,3) R id by (simp add: HandleStream_def)
  moreover have "server_inv (srv1\<lparr>managers := (managers srv1)(key \<mapsto> m)\<rparr>)"
    using assms(1,2) R by (rule server_inv_RegisterManager)
  ultimately show ?thesis using S id by (auto simp: m_def)
qed

lemma HandleStream_pipe:
  assumes "server_inv srv" "fst (message_Get stream) = Inr (MPipeRequest v)"
  shows "HandleStream src now c stream srv =
    (case managers srv (pipeReq_ClientId v) of
       None \<Rightarrow> Some ([CloseStream], srv)
     | Some m \<Rightarrow>
         if closed m \<or> nat (PoolSize m * 2) \<le> length (ch_buf (pipeConnPool m)) then Some ([CloseStream], srv)
         else Some ([], srv\<lparr>managers := (managers srv)(pipeReq_ClientId v \<mapsto>
           m\<lparr>pipeConnPool := (pipeConnPool m)\<lparr>ch_buf := ch_buf (pipeConnPool m) @ [c]\<rparr>\<rparr>)\<rparr>))"
proof (cases "managers srv (pipeReq_ClientId v)")
  case None
  with assms(2) show ?thesis by (simp add: HandleStream_def)
next
  case (Some m)
  have inv: "mgr_inv m" using server_inv_listed [OF assms(1) Some] by (simp add: listed_def)
  have "srv\<lparr>managers := (managers srv)(pipeReq_ClientId v \<mapsto> m)\<rparr> = srv"
    using Some by (simp add: map_upd_triv)
  with Some assms(2) PushPipeConn_cases [OF inv, of c] show ?thesis
    by (simp add: HandleStream_def)
qed

section \<open>Properties\<close>

text \<open>The server of the witnesses, with no manager yet, and a login it accepts.\<close>

definition demo_server :: server where
  "demo_server =
     \<lparr>config = \<lparr>cfg_Ip = [], cfg_Port = ''8080'', cfg_AuthCode = ''pw'', cfg_startPort = 30000,
        cfg_endPort = 30002, cfg_forceRange = False, cfg_Api = [], cfg_MuxAddr = [], cfg_Domain = []\<rparr>,
      srv_address = '':8080'', managers = (\<lambda>_. None), ports = demo_ports False, rand_pos = 0,
      id_buf = replicate 8 (byte 0)\<rparr>"

definition demo_login :: LoginRequest where
  "demo_login = \<lparr>login_Version = 0, login_AuthCode = ''pw'', login_PoolSize = 0, login_HostName = [],
     login_OS = [], login_Tag = ''t''\<rparr>"

lemma server_inv_demo: "server_inv demo_server"
  by (simp add: server_inv_def demo_server_def)

lemma CheckLogin_demo: "CheckLogin (config demo_server) demo_login = None"
  by (simp add: CheckLogin_def demo_server_def demo_login_def CheckLegal_eq legal_char_def)

text \<open>C23: \<open>genId\<close> returns if and only if some draw from here on gives a key that no manager
  has, and then it returns the first such key, every key drawn before it being in use: eight
  base-62 characters, unused.  Of the server only the position in the random numbers, now behind
  the draw of that key, and the shared buffer have changed.\<close>

theorem genId_fresh:
  assumes "server_inv srv"
  shows "((\<exists>key srv'. genId src srv = Some (key, srv')) \<longleftrightarrow>
      (\<exists>n. managers srv (drawn_key src (rand_pos srv + n)) = None)) \<and>
    (\<forall>key srv'. genId src srv = Some (key, srv') \<longrightarrow>
      (\<exists>n. key = drawn_key src (rand_pos srv + n) \<and> managers srv key = None \<and>
         (\<forall>i<n. managers srv (drawn_key src (rand_pos srv + i)) \<noteq> None) \<and>
         srv' = srv\<lparr>rand_pos := Suc (rand_pos srv + n), id_buf := key\<rparr>) \<and>
      length key = 8 \<and> set key \<subseteq> set base62)"
proof (intro conjI allI impI)
  have b: "length (id_buf srv) = 8" using assms by (simp add: server_inv_def)
  show "(\<exists>key srv'. genId src srv = Some (key, srv')) \<longleftrightarrow>
      (\<exists>n. managers srv (drawn_key src (rand_pos srv + n)) = None)"
    using genId_returns [OF b] genId_first [OF _ b] by metis
  fix key srv' assume g: "genId src srv = Some (key, srv')"
  show "\<exists>n. key = drawn_key src (rand_pos srv + n) \<and> managers srv key = None \<and>
      (\<forall>i<n. managers srv (drawn_key src (rand_pos srv + i)) \<noteq> None) \<and>
      srv' = srv\<lparr>rand_pos := Suc (rand_pos srv + n), id_buf := key\<rparr>"
    using g b by (rule genId_first)
  show "length key = 8" "set key \<subseteq> set base62" using genId_Some [OF g b] by simp_all
qed

lemma genId_fresh_witness:
  "\<exists>key srv'. genId of_nat (demo_server\<lparr>managers := [drawn_key of_nat 0 \<mapsto>
       NewManager (drawn_key of_nat 0) 1 demo_login 7]\<rparr>) = Some (key, srv') \<and>
     key = drawn_key of_nat 1 \<and> rand_pos srv' = 2"
proof -
  let ?src = "of_nat :: nat \<Rightarrow> i64"
  let ?key = "drawn_key ?src"
  let ?srv = "demo_server\<lparr>managers := [?key 0 \<mapsto> NewManager (?key 0) 1 demo_login 7]\<rparr>"
  have "length (?key 0) = 8" "set (?key 0) \<subseteq> set base62"
    using RandStr8Base62_key [of "replicate 8 (byte 0)" ?src 0] by simp_all
  then have "listed (config demo_server) (?key 0) (NewManager (?key 0) 1 demo_login 7)"
    using mgr_inv_New [of "?key 0" 1 demo_login 7]
    by (simp add: listed_def) (simp add: demo_server_def NewManager_def demo_login_def legal_char_def)
  then have inv: "server_inv ?srv" using server_inv_demo by (auto simp: server_inv_def)
  have other: "?key 1 \<noteq> ?key 0" by code_simp
  have free: "managers ?srv (?key (rand_pos ?srv + 1)) = None" using other by (simp add: demo_server_def)
  obtain key srv' where g: "genId ?src ?srv = Some (key, srv')"
    using genId_fresh [OF inv, of ?src] free by blast
  then obtain n where n: "key = ?key n" "managers ?srv key = None" "\<forall>i<n. managers ?srv (?key i) \<noteq> None"
    "srv' = ?srv\<lparr>rand_pos := Suc n, id_buf := key\<rparr>"
    using genId_fresh [OF inv, of ?src] by (auto simp: demo_server_def)
  have "n \<noteq> 0" using n(1,2) by (cases n) auto
  moreover have "\<not> 1 < n" using n(3) free by (auto simp: demo_server_def)
  ultimately have "n = 1" by simp
  with g n show ?thesis by auto
qed

text \<open>A login with the server's authentication code and a legal tag, when it arrives whole
  and an unused id can be drawn, is answered with "ok" and the id under which exactly one new
  manager, open and made for this stream, is filed; every other manager stays as it is.\<close>

theorem login_accepted:
  assumes "server_inv srv" "CheckLogin (config srv) v = None"
    "fst (message_Get stream) = Inr (MLoginRequest v)"
    "managers srv (drawn_key src (rand_pos srv + n)) = None"
  shows "\<exists>key srv'. HandleStream src now c stream srv =
      Some ([SendMsg (MLoginResponse \<lparr>loginResp_ClientId = key, loginResp_Result = ''ok''\<rparr>)], srv') \<and>
    managers srv key = None \<and> managers srv' = (managers srv)(key \<mapsto> NewManager key c v now) \<and>
    server_inv srv'"
  using assms by (rule HandleStream_login)

text \<open>A login with a wrong code or an illegal tag changes nothing of the server: the client
  gets the failure and the stream is closed.\<close>

theorem login_refused:
  assumes "CheckLogin (config srv) v = Some e" "fst (message_Get stream) = Inr (MLoginRequest v)"
  shows "HandleStream src now c stream srv =
    Some ([SendMsg (MLoginResponse \<lparr>loginResp_ClientId = [],
             loginResp_Result = ''login fail:'' @ login_error_text e\<rparr>), CloseStream], srv) \<and>
    (e = AuthCodeError \<longleftrightarrow> cfg_AuthCode (config srv) \<noteq> login_AuthCode v) \<and>
    (e = TagError \<longrightarrow> \<not> list_all legal_char (login_Tag v))"
  using assms by (auto simp: HandleStream_def CheckLogin_def CheckLegal_eq split: if_splits)

lemma demo_login_read: "fst (message_Get \<lparr>chunks = [wire (MLoginRequest demo_login)], final_err = EOF\<rparr>) = Inr (MLoginRequest demo_login)"
proof -
  let ?m = "MLoginRequest demo_login"
  have e: "escape ''xcode'' = ''xcode''" "escape ''tag'' = ''tag''" "escape ''pw'' = ''pw''" "escape ''t'' = ''t''"
    by (simp_all add: escape.simps escape_ascii_def quote_def backslash_def)
  have "length (json_Marshal (fields_of ?m)) = 24"
    using e by (simp add: demo_login_def json_Marshal_def is_empty_val_def json_string_def)
  then have "sendable ?m" by (simp add: sendable_def)
  moreover have "list_all ValidString (message_strings ?m)"
  proof -
    have "message_strings ?m = [''pw'', [], [], ''t'']"
      by (simp add: demo_login_def message_strings_def List.map_filter_def)
    moreover have "ValidString ''pw''" by (rule ValidString_ascii) auto
    moreover have "ValidString ''t''" "ValidString []" 
      by (rule ValidString_ascii; fastforce)+
    ultimately show ?thesis by simp
  qed
  ultimately have "\<exists>r'. message_Get \<lparr>chunks = [wire ?m], final_err = EOF\<rparr> = (Inr ?m, r')"
    using Get_wire [of ?m "\<lparr>chunks = [wire ?m], final_err = EOF\<rparr>" "[]"] length_wire [of ?m]
    by (auto simp: content_def header_whole_def sanitize_message_valid)
  then show ?thesis by auto
qed

lemma login_accepted_witness:
  "\<exists>key srv'. HandleStream (\<lambda>_. 0) 7 1 \<lparr>chunks = [wire (MLoginRequest demo_login)], final_err = EOF\<rparr> demo_server =
     Some ([SendMsg (MLoginResponse \<lparr>loginResp_ClientId = key, loginResp_Result = ''ok''\<rparr>)], srv') \<and>
   managers srv' key = Some (NewManager key 1 demo_login 7)"
proof -
  have "managers demo_server (drawn_key (\<lambda>_. 0) (rand_pos demo_server + 0)) = None"
    by (simp add: demo_server_def)
  from login_accepted [OF server_inv_demo CheckLogin_demo demo_login_read this, where c = 1 and now = 7]
  show ?thesis by fastforce
qed

lemma login_refused_witness:
  "HandleStream (\<lambda>_. 0) 7 1 \<lparr>chunks = [wire (MLoginRequest demo_login)], final_err = EOF\<rparr>
     (demo_server\<lparr>config := (config demo_server)\<lparr>cfg_AuthCode := ''other''\<rparr>\<rparr>) =
   Some ([SendMsg (MLoginResponse \<lparr>loginResp_ClientId = [], loginResp_Result = ''login fail:auth code error''\<rparr>), CloseStream],
     demo_server\<lparr>config := (config demo_server)\<lparr>cfg_AuthCode := ''other''\<rparr>\<rparr>)"
  using login_refused [OF _ demo_login_read,
      where srv = "demo_server\<lparr>config := (config demo_server)\<lparr>cfg_AuthCode := ''other''\<rparr>\<rparr>"
        and e = AuthCodeError and src = "\<lambda>_. 0" and now = 7 and c = 1]
  by (simp add: CheckLogin_def demo_login_def login_error_text_def)

text \<open>When no other goroutine comes between, a pipe request of a registered client adds the stream
  at the end of that manager's pool, unless the manager is closed or its pool full; a stream for an
  unknown id is closed and nothing changes.  No other manager is touched.  With the other
  goroutines interleaved the stream can also be lost, see \<open>ServerPipes\<close>.\<close>

theorem pipe_delivered:
  assumes "server_inv srv" "fst (message_Get stream) = Inr (MPipeRequest v)"
  shows "HandleStream src now c stream srv =
    (case managers srv (pipeReq_ClientId v) of
       None \<Rightarrow> Some ([CloseStream], srv)
     | Some m \<Rightarrow>
         if closed m \<or> nat (PoolSize m * 2) \<le> length (ch_buf (pipeConnPool m)) then Some ([CloseStream], srv)
         else Some ([], srv\<lparr>managers := (managers srv)(pipeReq_ClientId v \<mapsto>
           m\<lparr>pipeConnPool := (pipeConnPool m)\<lparr>ch_buf := ch_buf (pipeConnPool m) @ [c]\<rparr>\<rparr>)\<rparr>))"
  using assms by (rule HandleStream_pipe)

lemma pipe_delivered_witness:
  "HandleStream (\<lambda>_. 0) 7 1 \<lparr>chunks = [wire knock], final_err = EOF\<rparr> demo_server = Some ([CloseStream], demo_server)"
proof -
  have "\<exists>r'. message_Get \<lparr>chunks = [wire knock], final_err = EOF\<rparr> = (Inr knock, r')"
    using Get_wire [OF examples_sendable(1), of "\<lparr>chunks = [wire knock], final_err = EOF\<rparr>" "[]"] examples_valid(1)
    by (auto simp: content_def header_whole_def sanitize_message_valid wire_knock)
  then have "fst (message_Get \<lparr>chunks = [wire knock], final_err = EOF\<rparr>) = Inr (MPipeRequest \<lparr>pipeReq_ClientId = ''ab''\<rparr>)"
    by (auto simp: knock_def)
  from pipe_delivered [OF server_inv_demo this, where src = "\<lambda>_. 0" and now = 7 and c = 1] show ?thesis by (simp add: demo_server_def)
qed

text \<open>Whatever arrives on a new stream, whatever manager is done, and from the start: every
  manager of the server's map is filed under its own id, satisfies the manager's invariant,
  and belongs to a client that knew the authentication code and has a legal tag.\<close>

theorem server_inv_kept:
  "(NewServer perms cfg = Returns srv \<longrightarrow> server_inv srv) \<and>
   (server_inv srv \<longrightarrow> HandleStream src now c stream srv = Some (acts, srv1) \<longrightarrow> server_inv srv1) \<and>
   (server_inv srv \<longrightarrow> manager_done ks m srv = Returns (srv2, eff) \<longrightarrow> server_inv srv2)"
  using server_inv_New server_inv_HandleStream server_inv_manager_done by blast

lemma server_inv_kept_witness:
  "server_inv (demo_server\<lparr>managers := (managers demo_server)([] := None)\<rparr>)"
proof -
  let ?m = "(NewManager [] 1 demo_login 7)"
  have "\<not> closed ?m" by (simp add: NewManager_def)
  then obtain m' where "Manager_Close [] ?m = Returns (m', CloseConn 1 # [])"
    using Close_open [OF mgr_inv_New, of "[]" 1 demo_login 7 "[]" "[]"] by (auto simp: NewManager_def)
  then have "manager_done [] ?m demo_server =
      Returns (demo_server\<lparr>managers := (managers demo_server)([] := None)\<rparr>, [CloseConn 1])"
    by (simp add: manager_done_def NewManager_def)
  with server_inv_kept [of "\<lambda>_. []" "config demo_server" demo_server] server_inv_demo show ?thesis by blast
qed

end
