(* ===== verification/ProxyServe.thy ===== *)
theory ProxyServe
  imports ManagerLaws MessageLaws
begin

text \<open>
  Serving a user's connection on a proxy's listener, \<open>Proxy.Run\<close> and \<open>Proxy.handle\<close> of
  \<open>server/proxy.go\<close>: up to three times a pipe is taken from the manager's pool and the work
  request sent on it.  What other goroutines do to the manager meanwhile, the timer and the
  outcomes of the writes are arguments.
\<close>

text \<open>The addresses of the user's connection, as \<open>net.SplitHostPort\<close> gives them.\<close>

record user_conn =
  uc_SrcIp :: gostring
  uc_SrcPort :: gostring
  uc_DstIp :: gostring
  uc_DstPort :: gostring

definition conn_request :: "srv_proxy \<Rightarrow> user_conn \<Rightarrow> message" where
  "conn_request proxy u = MConnRequest
     \<lparr>connReq_ProxyName = px_Name proxy, connReq_SrcIp = uc_SrcIp u, connReq_SrcPort = uc_SrcPort u,
      connReq_DstIp = uc_DstIp u, connReq_DstPort = uc_DstPort u\<rparr>"

text \<open>
  Per attempt: what happens to the manager before the attempt and while it waits for a
  pipe, whether the timer's case is chosen, what the write on the pipe meets.
\<close>

record surroundings =
  before_pop :: "nat \<Rightarrow> manager \<Rightarrow> manager"
  while_waiting :: "nat \<Rightarrow> manager \<Rightarrow> manager"
  timer :: "nat \<Rightarrow> bool"
  pipe_fault :: "nat \<Rightarrow> (nat \<times> ioerr) option"

datatype handle_end =
    NoPipe mgr_error
  | GaveUp
  | Serving conn gostring

text \<open>
  The loop: the pipes that were closed because sending on them failed, and how it ended.
  \<open>Serving\<close> has the pipe that is joined with the user's connection and the bytes sent on it.
\<close>

function handle_loop ::
  "surroundings \<Rightarrow> srv_proxy \<Rightarrow> user_conn \<Rightarrow> nat \<Rightarrow> conn list \<Rightarrow> manager \<Rightarrow> (handle_end \<times> conn list \<times> manager) outcome" where
  "handle_loop w proxy u retry shut m =
     (if 3 \<le> retry then Returns (GaveUp, shut, m)
      else case ReqPipeConn (before_pop w retry m) of
        Panics \<Rightarrow> Panics | Blocks \<Rightarrow> Blocks
      | Returns (e, m1) \<Rightarrow>
          (case PopPipeConn_recv (timer w retry) (while_waiting w retry m1) of
             Panics \<Rightarrow> Panics | Blocks \<Rightarrow> Blocks
           | Returns (Inl err, m2) \<Rightarrow> Returns (NoPipe err, shut, m2)
           | Returns (Inr pipeConn, m2) \<Rightarrow>
               (case message_Send (conn_request proxy u) (pipe_fault w retry) [] of
                  (Some err, sent) \<Rightarrow> handle_loop w proxy u (retry + 1) (shut @ [pipeConn]) m2
                | (None, sent) \<Rightarrow> Returns (Serving pipeConn sent, shut, m2))))"
  by pat_completeness auto
termination
  by (relation "measure (\<lambda>(w, proxy, u, retry, shut, m). 3 - retry)") auto

declare handle_loop.simps [simp del]

definition Proxy_handle :: "surroundings \<Rightarrow> srv_proxy \<Rightarrow> user_conn \<Rightarrow> manager \<Rightarrow> (handle_end \<times> conn list \<times> manager) outcome" where
  "Proxy_handle w proxy u m = handle_loop w proxy u 0 [] m"

text \<open>\<open>Run\<close>: the connections for which a handler is started, up to the first failing \<open>Accept\<close>.\<close>

fun Proxy_Run :: "conn option list \<Rightarrow> conn list" where
  "Proxy_Run [] = []"
| "Proxy_Run (None # accepts) = []"
| "Proxy_Run (Some c # accepts) = c # Proxy_Run accepts"

section \<open>Lemmas\<close>

lemma Send_conn_request:
  "message_Send (conn_request proxy u) fault [] = (e, sent) \<Longrightarrow>
   (e = None \<longleftrightarrow> fault = None) \<and> (e = None \<longrightarrow> sent = wire (conn_request proxy u))"
  by (cases fault) (auto simp: message_Send_def message_Write_def conn_request_def wire_def split: prod.splits)

text \<open>
  What \<open>PopPipeConn\<close> gives in attempt \<open>k\<close>, and in attempt \<open>k\<close> of those that follow each other as
  long as each of them gives a pipe.  Neither looks at what is done with the pipes.
\<close>

definition pop_attempt :: "surroundings \<Rightarrow> nat \<Rightarrow> manager \<Rightarrow> ((mgr_error + conn) \<times> manager) outcome" where
  "pop_attempt w k m =
     (case ReqPipeConn (before_pop w k m) of
        Panics \<Rightarrow> Panics | Blocks \<Rightarrow> Blocks
      | Returns (e, m1) \<Rightarrow> PopPipeConn_recv (timer w k) (while_waiting w k m1))"

fun popped :: "surroundings \<Rightarrow> manager \<Rightarrow> nat \<Rightarrow> ((mgr_error + conn) \<times> manager) outcome" where
  "popped w m 0 = pop_attempt w 0 m"
| "popped w m (Suc k) =
     (case popped w m k of Returns (Inr c, m1) \<Rightarrow> pop_attempt w (Suc k) m1 | r \<Rightarrow> r)"

definition shut_ok :: "surroundings \<Rightarrow> manager \<Rightarrow> conn list \<Rightarrow> bool" where
  "shut_ok w m shut \<longleftrightarrow>
     (\<forall>k<length shut. pipe_fault w k \<noteq> None \<and> (\<exists>mk. popped w m k = Returns (Inr (shut ! k), mk)))"

definition handle_ok ::
  "surroundings \<Rightarrow> srv_proxy \<Rightarrow> user_conn \<Rightarrow> manager \<Rightarrow> handle_end \<Rightarrow> conn list \<Rightarrow> manager \<Rightarrow> bool" where
  "handle_ok w proxy u m r shut m' \<longleftrightarrow>
     shut_ok w m shut \<and>
     (case r of
        GaveUp \<Rightarrow> length shut = 3
      | NoPipe err \<Rightarrow> length shut < 3 \<and> popped w m (length shut) = Returns (Inl err, m')
      | Serving c sent \<Rightarrow> length shut < 3 \<and> pipe_fault w (length shut) = None \<and>
          popped w m (length shut) = Returns (Inr c, m') \<and> sent = wire (conn_request proxy u))"

lemma shut_ok_snoc:
  "shut_ok w m shut \<Longrightarrow> pipe_fault w (length shut) \<noteq> None \<Longrightarrow> popped w m (length shut) = Returns (Inr c, mk) \<Longrightarrow>
   shut_ok w m (shut @ [c])"
  by (auto simp: shut_ok_def nth_append less_Suc_eq)

text \<open>One turn of the loop, over what the attempt gives.\<close>

lemma handle_loop_turn:
  "handle_loop w proxy u retry shut m =
     (if 3 \<le> retry then Returns (GaveUp, shut, m)
      else case pop_attempt w retry m of
        Panics \<Rightarrow> Panics | Blocks \<Rightarrow> Blocks
      | Returns (Inl err, m2) \<Rightarrow> Returns (NoPipe err, shut, m2)
      | Returns (Inr c, m2) \<Rightarrow>
          (if pipe_fault w retry = None then Returns (Serving c (wire (conn_request proxy u)), shut, m2)
           else handle_loop w proxy u (retry + 1) (shut @ [c]) m2))"
proof -
  obtain e sent where s: "message_Send (conn_request proxy u) (pipe_fault w retry) [] = (e, sent)" by (metis surj_pair)
  show ?thesis using Send_conn_request [OF s] s
    by (subst handle_loop.simps) (auto simp: pop_attempt_def split: outcome.splits prod.splits sum.splits option.splits)
qed

lemma handle_loop_result:
  "handle_loop w proxy u retry shut m = Returns (r, shut', m') \<Longrightarrow> length shut = retry \<Longrightarrow> retry \<le> 3 \<Longrightarrow>
   shut_ok w m0 shut \<Longrightarrow> popped w m0 retry = pop_attempt w retry m \<Longrightarrow> handle_ok w proxy u m0 r shut' m'"
proof (induction "3 - retry" arbitrary: retry shut m)
  case 0
  then have "3 \<le> retry" by simp
  with 0 show ?case by (subst (asm) handle_loop_turn) (auto simp: handle_ok_def)
next
  case (Suc n)
  then have lt: "\<not> 3 \<le> retry" by simp
  then obtain p m2 where p: "pop_attempt w retry m = Returns (p, m2)"
    using Suc.prems(1) by (auto simp: handle_loop_turn [of w proxy u retry] split: outcome.splits)
  show ?case
  proof (cases p)
    case (Inl err)
    with Suc.prems lt p show ?thesis by (auto simp: handle_loop_turn [of w proxy u retry] handle_ok_def)
  next
    case (Inr c)
    note pop = Suc.prems(5) [unfolded p Inr]
    show ?thesis
    proof (cases "pipe_fault w retry")
      case None
      with Suc.prems lt p Inr show ?thesis by (auto simp: handle_loop_turn [of w proxy u retry] handle_ok_def)
    next
      case (Some x)
      have "handle_loop w proxy u (retry + 1) (shut @ [c]) m2 = Returns (r, shut', m')"
        using Suc.prems(1) lt p Inr Some by (simp add: handle_loop_turn [of w proxy u retry])
      moreover have "shut_ok w m0 (shut @ [c])"
        using Suc.prems(2,4) Some pop by (intro shut_ok_snoc) auto
      ultimately show ?thesis using Suc.hyps Suc.prems(2) lt pop by (intro Suc.hyps(1)) auto
    qed
  qed
qed

lemma handle_result:
  "Proxy_handle w proxy u m = Returns (r, shut, m') \<Longrightarrow> handle_ok w proxy u m r shut m'"
  unfolding Proxy_handle_def by (drule handle_loop_result [where m0 = m]) (simp_all add: shut_ok_def)

section \<open>Properties\<close>

text \<open>C16: Serving a user's connection ends after at most three attempts.  The pipes it closes are,
  in order, those that the successive calls of \<open>PopPipeConn\<close> returned and on which the request
  could not be written; the user is served on the pipe that the next call returned, on which it
  could be written whole.  It gives up after three failing pipes, or at once with the error of
  the first call that returns none.\<close>

theorem handle_attempts:
  assumes "Proxy_handle w proxy u m = Returns (r, shut, m')"
  shows "(\<forall>k<length shut. pipe_fault w k \<noteq> None \<and> (\<exists>mk. popped w m k = Returns (Inr (shut ! k), mk))) \<and>
     (case r of
        GaveUp \<Rightarrow> length shut = 3
      | NoPipe err \<Rightarrow> length shut < 3 \<and> popped w m (length shut) = Returns (Inl err, m')
      | Serving c sent \<Rightarrow> length shut < 3 \<and> pipe_fault w (length shut) = None \<and>
          popped w m (length shut) = Returns (Inr c, m') \<and> sent = wire (conn_request proxy u))"
  using handle_result [OF assms] by (simp add: handle_ok_def shut_ok_def)

text \<open>A manager with two pipes of which the first is broken.\<close>

definition two_pipes :: manager where
  "two_pipes = (NewManager ''k'' 1 \<lparr>login_Version = 1, login_AuthCode = [], login_PoolSize = 2, login_HostName = [],
      login_OS = [], login_Tag = []\<rparr> 0)\<lparr>pipeConnPool := \<lparr>ch_buf = [5, 6], ch_cap = 4, ch_closed = False\<rparr>\<rparr>"

definition first_broken :: surroundings where
  "first_broken = \<lparr>before_pop = (\<lambda>_ m. m), while_waiting = (\<lambda>_ m. m), timer = (\<lambda>_. False),
     pipe_fault = (\<lambda>k. if k = 0 then Some (0, EOF) else None)\<rparr>"

definition demo_user :: user_conn where
  "demo_user = \<lparr>uc_SrcIp = ''10.0.0.1'', uc_SrcPort = ''999'', uc_DstIp = ''10.0.0.2'', uc_DstPort = ''80''\<rparr>"

definition demo_px :: srv_proxy where
  "demo_px = \<lparr>px_Name = ''web'', px_Port = ''80'', px_Remote = ''h:1''\<rparr>"

lemma two_pipes_served:
  "\<exists>sent m'. Proxy_handle first_broken demo_px demo_user two_pipes = Returns (Serving 6 sent, [5], m')"
  by (simp add: Proxy_handle_def handle_loop.simps first_broken_def two_pipes_def ReqPipeConn_def SendMassage_def
      SendMassage_send_def IsClosed_def NewManager_def chan_send_def make_chan_def PopPipeConn_recv_def chan_recv_def
      message_Send_def message_Write_def conn_request_def)

lemma handle_attempts_witness:
  "\<exists>m0 m'. Proxy_handle first_broken demo_px demo_user two_pipes =
       Returns (Serving 6 (wire (conn_request demo_px demo_user)), [5], m') \<and>
     popped first_broken two_pipes 0 = Returns (Inr 5, m0) \<and> popped first_broken two_pipes 1 = Returns (Inr 6, m')"
proof -
  obtain sent m' where s: "Proxy_handle first_broken demo_px demo_user two_pipes = Returns (Serving 6 sent, [5], m')"
    using two_pipes_served by blast
  from handle_attempts [OF s] s show ?thesis by (auto simp del: popped.simps)
qed

end
