(* ===== verification/Client.thy ===== *)
theory Client
  imports MessageLaws GoChan Util ServerProxy
begin

text \<open>
  The client, \<open>client/client.go\<close>, \<open>client/agent.go\<close> and the target list of
  \<open>client/main.go\<close>: configuration, login, opening a pipe, the retry loop, and the agent's
  operations one at a time.  \<open>AgentRun\<close> interleaves the agent's goroutines.  What the
  network does is an argument: the outcome of a dial, of opening a stream, of a write.
\<close>

section \<open>Configuration\<close>

record cproxy =
  cpx_Name :: gostring
  cpx_Type :: gostring
  cpx_LocalAddr :: gostring
  cpx_RemotePort :: gostring
  cpx_wn :: i64
  cpx_rn :: i64
  cpx_Started :: bool

record ClientConfig =
  ccfg_Name :: gostring
  ccfg_Tag :: gostring
  ccfg_ServerAddr :: gostring
  ccfg_AuthCode :: gostring
  ccfg_PoolSize :: i64
  ccfg_LogFile :: gostring
  ccfg_Proxies :: "gostring \<rightharpoonup> cproxy"
  ccfg_HeartbeatInterval :: int
  ccfg_Debug :: bool

text \<open>The fields of one element of the target list, by the number of its parts.\<close>

definition target_fields :: "nat \<Rightarrow> gostring \<Rightarrow> gostring \<times> gostring \<times> gostring" where
  "target_fields i element =
     (let split = strings_Split element ''@'' in
      if length split = 3 then (split ! 0, split ! 1, split ! 2)
      else if length split = 2 then (split ! 0, split ! 1, ''0'')
      else (strconv_Itoa (int i), split ! 0, ''0''))"

text \<open>The loop over the elements; \<open>None\<close> when a name comes twice.\<close>

fun targets_loop :: "nat \<Rightarrow> gostring list \<Rightarrow> (gostring \<rightharpoonup> cproxy) \<Rightarrow> (gostring \<rightharpoonup> cproxy) option" where
  "targets_loop i [] proxies = Some proxies"
| "targets_loop i (element # elements) proxies =
     (case target_fields i element of (name, addr, remote) \<Rightarrow>
        if proxies name \<noteq> None then None
        else targets_loop (Suc i) elements
          (proxies(name \<mapsto> \<lparr>cpx_Name = name, cpx_Type = ''tcp'', cpx_LocalAddr = addr, cpx_RemotePort = remote,
             cpx_wn = 0, cpx_rn = 0, cpx_Started = False\<rparr>)))"

text \<open>The checks of \<open>main\<close> in their order; \<open>None\<close> where it logs an error and returns.\<close>

definition client_setup :: "gostring \<Rightarrow> ClientConfig \<Rightarrow> ClientConfig option" where
  "client_setup target cfg =
     (if target = [] then None
      else if ccfg_Name cfg = [] then None
      else if ccfg_Tag cfg = [] then None
      else map_option (\<lambda>ps. cfg\<lparr>ccfg_Proxies := ps\<rparr>)
        (targets_loop 0 (strings_Split target '','') (ccfg_Proxies cfg)))"

section \<open>Client\<close>

record client =
  cl_Config :: ClientConfig
  cl_ClientId :: gostring
  cl_ServerAddr :: gostring
  cl_conn :: "conn option"
  cl_session :: "conn option"

text \<open>The session is named by the connection it runs over.\<close>

definition NewClient :: "ClientConfig \<Rightarrow> client" where
  "NewClient cfg = \<lparr>cl_Config = cfg, cl_ClientId = [], cl_ServerAddr = ccfg_ServerAddr cfg,
     cl_conn = None, cl_session = None\<rparr>"

datatype client_error = LoginIO msg_error | InvalidResponse | LoginRefused gostring

text \<open>
  \<open>Login\<close>: the request written (\<open>fault\<close> is the outcome of the write), the response read
  from \<open>stream\<close>, whose final error is the read deadline's.  The result holds the bytes
  written and whether the connection was closed.
\<close>

definition login_request :: "gostring \<Rightarrow> client \<Rightarrow> message" where
  "login_request goos c = MLoginRequest
     \<lparr>login_Version = 1, login_AuthCode = ccfg_AuthCode (cl_Config c), login_PoolSize = ccfg_PoolSize (cl_Config c),
      login_HostName = ccfg_Name (cl_Config c), login_OS = goos, login_Tag = ccfg_Tag (cl_Config c)\<rparr>"

definition Login ::
  "gostring \<Rightarrow> (nat \<times> ioerr) option \<Rightarrow> reader \<Rightarrow> client \<Rightarrow> (client_error option \<times> client) \<times> gostring \<times> bool" where
  "Login goos fault stream c =
     (case message_Send (login_request goos c) fault [] of
        (Some e, out) \<Rightarrow> ((Some (LoginIO e), c), out, True)
      | (None, out) \<Rightarrow>
        (case fst (message_Get stream) of
           Inl e \<Rightarrow> ((Some (LoginIO e), c), out, True)
         | Inr (MLoginResponse resp) \<Rightarrow>
             (if loginResp_Result resp \<noteq> ''ok'' then ((Some (LoginRefused (loginResp_Result resp)), c), out, True)
              else ((None, c\<lparr>cl_ClientId := loginResp_ClientId resp\<rparr>), out, False))
         | Inr _ \<Rightarrow> ((Some InvalidResponse, c), out, True)))"

text \<open>
  \<open>NewPipeConn\<close>: \<open>opened\<close> is the stream that \<open>OpenStream\<close> gives, if any.  The result: the
  stream, the bytes written to it, whether it was closed.
\<close>

definition NewPipeConn ::
  "conn option \<Rightarrow> (nat \<times> ioerr) option \<Rightarrow> client \<Rightarrow> conn option \<times> gostring \<times> bool" where
  "NewPipeConn opened fault c =
     (case opened of
        None \<Rightarrow> (None, [], False)
      | Some stream \<Rightarrow>
          (case message_Send (MPipeRequest \<lparr>pipeReq_ClientId = cl_ClientId c\<rparr>) fault [] of
             (Some e, out) \<Rightarrow> (None, out, True)
           | (None, out) \<Rightarrow> (Some stream, out, False)))"

text \<open>
  One turn of \<open>Client.Run\<close>: what came of connecting and logging in, and the seconds slept
  before and after.  A session that ran to its end starts the count afresh.
\<close>

datatype attempt = ConnectFails | LoginFails | SessionRuns

definition run_turn :: "attempt \<Rightarrow> nat \<Rightarrow> nat \<times> nat list" where
  "run_turn a tryCount =
     (let n = tryCount + 1;
          before = (if n mod 10 = 0 then [n * 2] else []) in
      case a of
        SessionRuns \<Rightarrow> (0, before @ [1])
      | LoginFails \<Rightarrow> (n, before @ [6])
      | ConnectFails \<Rightarrow> (n, before @ [6]))"

fun run_turns :: "attempt list \<Rightarrow> nat \<Rightarrow> nat \<times> nat list" where
  "run_turns [] n = (n, [])"
| "run_turns (a # as) n =
     (case run_turn a n of (n', s) \<Rightarrow> (case run_turns as n' of (n'', s') \<Rightarrow> (n'', s @ s')))"

section \<open>Agent\<close>

text \<open>Times and durations are nanoseconds; durations have 64 bits.\<close>

definition duration :: "int \<Rightarrow> int" where
  "duration d = sint (word_of_int d :: i64)"

definition second :: int where "second = 1000000000"

definition UnixMicro :: "int \<Rightarrow> i64" where
  "UnixMicro t = word_of_int (t div 1000)"

record agent =
  ag_ClientId :: gostring
  ag_conn :: conn
  ag_ConnTime :: int
  ag_Proxies :: "gostring \<rightharpoonup> cproxy"
  ag_recvChan :: "message chan"
  ag_sendChan :: "message chan"
  ag_HeartbeatInterval :: int
  ag_LastBeatTime :: int
  ag_closed :: bool

definition NewAgent :: "conn \<Rightarrow> client \<Rightarrow> int \<Rightarrow> agent" where
  "NewAgent c cl now =
     \<lparr>ag_ClientId = cl_ClientId cl, ag_conn = c, ag_ConnTime = now, ag_Proxies = ccfg_Proxies (cl_Config cl),
      ag_recvChan = make_chan 10, ag_sendChan = make_chan 10,
      ag_HeartbeatInterval = duration (second * ccfg_HeartbeatInterval (cl_Config cl)),
      ag_LastBeatTime = 0, ag_closed = False\<rparr>"

text \<open>\<open>RegisterProxy\<close> writes to the stream itself; \<open>out\<close> is what was written before.\<close>

definition Agent_RegisterProxy ::
  "cproxy \<Rightarrow> (nat \<times> ioerr) option \<Rightarrow> agent \<times> gostring \<Rightarrow> msg_error option \<times> agent \<times> gostring" where
  "Agent_RegisterProxy proxy fault = (\<lambda>(a, out).
     case message_Send (MProxyRequest
         \<lparr>proxyReq_Name = cpx_Name proxy, proxyReq_Type = cpx_Type proxy, proxyReq_Port = cpx_RemotePort proxy,
          proxyReq_Target = cpx_LocalAddr proxy, proxyReq_Enable = True\<rparr>) fault out of
       (Some e, out') \<Rightarrow> (Some e, a, out')
     | (None, out') \<Rightarrow> (None, a\<lparr>ag_Proxies := (ag_Proxies a)(cpx_Name proxy \<mapsto> proxy)\<rparr>, out'))"

text \<open>
  The registrations at the start of \<open>Run\<close>, each with the outcome of its write; a failed one
  is logged and the loop goes on.
\<close>

fun register_all :: "(cproxy \<times> (nat \<times> ioerr) option) list \<Rightarrow> agent \<times> gostring \<Rightarrow> agent \<times> gostring" where
  "register_all [] st = st"
| "register_all ((p, fault) # ps) st =
     (case Agent_RegisterProxy p fault st of (e, st') \<Rightarrow> register_all ps st')"

text \<open>\<open>NewTicker\<close> panics on an interval that is not positive.\<close>

definition start_ticker :: "int \<Rightarrow> agent \<Rightarrow> agent outcome" where
  "start_ticker now a =
     (if ag_HeartbeatInterval a \<le> 0 then Panics
      else Returns (a\<lparr>ag_LastBeatTime := now + ag_HeartbeatInterval a div 2\<rparr>))"

text \<open>
  A tick: \<open>None\<close> when the heartbeat is overdue and \<open>Run\<close> returns.  The clock is read twice,
  first by \<open>time.Since\<close>, then for the timestamp.
\<close>

definition agent_tick :: "int \<Rightarrow> int \<Rightarrow> agent \<Rightarrow> message option" where
  "agent_tick since now a =
     (if duration (ag_HeartbeatInterval a + second) < since - ag_LastBeatTime a then None
      else Some (MHeartbeatRequest \<lparr>hbReq_Timestamp = UnixMicro now\<rparr>))"

text \<open>What \<open>Run\<close> does with a received message beside changing the agent.\<close>

datatype agent_action = SpawnWork | Enqueue message | ResetTicker

definition Proxy_Start :: "cproxy \<Rightarrow> cproxy" where
  "Proxy_Start p = p\<lparr>cpx_Started := True\<rparr>"

definition agent_handle :: "int \<Rightarrow> message \<Rightarrow> agent \<Rightarrow> agent_action list \<times> agent" where
  "agent_handle now msg a =
     (case msg of
        MPipeRequest v \<Rightarrow> ([SpawnWork], a)
      | MProxyResponse v \<Rightarrow>
          (if proxyResp_Result v = ''ok'' then
             (case ag_Proxies a (proxyResp_Name v) of
                Some p \<Rightarrow> ([], a\<lparr>ag_Proxies := (ag_Proxies a)(proxyResp_Name v \<mapsto> Proxy_Start p)\<rparr>)
              | None \<Rightarrow> ([], a))
           else ([], a))
      | MHeartbeatRequest v \<Rightarrow>
          ([ResetTicker, Enqueue (MHeartbeatResponse \<lparr>hbResp_TimeSend = hbReq_Timestamp v, hbResp_TimeRecv = UnixMicro now\<rparr>)],
           a\<lparr>ag_LastBeatTime := now\<rparr>)
      | MHeartbeatResponse v \<Rightarrow> ([ResetTicker], a\<lparr>ag_LastBeatTime := now\<rparr>)
      | _ \<Rightarrow> ([], a))"

definition Agent_IsClosed :: "agent \<Rightarrow> bool" where
  "Agent_IsClosed a = ag_closed a"

definition Agent_Close :: "agent \<Rightarrow> (agent \<times> effect list) outcome" where
  "Agent_Close a =
     (if Agent_IsClosed a then Returns (a, [])
      else let a1 = a\<lparr>ag_closed := True\<rparr> in
        case chan_close (ag_recvChan a1) of
          Returns rc \<Rightarrow>
          (case chan_close (ag_sendChan a1) of
             Returns sc \<Rightarrow> Returns (a1\<lparr>ag_recvChan := rc, ag_sendChan := sc\<rparr>, [CloseConn (ag_conn a1)])
           | _ \<Rightarrow> Panics)
        | _ \<Rightarrow> Panics)"

section \<open>Work\<close>

text \<open>How \<open>awaitWork\<close> ends.\<close>

datatype work_end =
    PipeFailed | PipeBroken | NotAConnRequest | ProxyUnknown | ProxyNotStarted | DialFails gostring
  | Joined gostring

text \<open>
  \<open>awaitWork\<close>: \<open>pipe\<close> is the result of \<open>NewPipeConn\<close>, \<open>stream\<close> what arrives on the
  pipe, \<open>dial\<close> whether dialling a local address succeeds, \<open>copied\<close> the byte counts of the
  join.  Second component: the pipe is closed.  The counters are added to the proxy.
\<close>

definition awaitWork ::
  "conn option \<Rightarrow> reader \<Rightarrow> (gostring \<Rightarrow> bool) \<Rightarrow> i64 \<times> i64 \<Rightarrow> agent \<Rightarrow> work_end \<times> bool \<times> agent" where
  "awaitWork pipe stream dial copied a =
     (case pipe of
        None \<Rightarrow> (PipeFailed, False, a)
      | Some c \<Rightarrow>
        (case fst (message_Get stream) of
           Inl e \<Rightarrow> (PipeBroken, True, a)
         | Inr (MConnRequest req) \<Rightarrow>
             (case ag_Proxies a (connReq_ProxyName req) of
                None \<Rightarrow> (ProxyUnknown, True, a)
              | Some p \<Rightarrow>
                  (if \<not> cpx_Started p then (ProxyNotStarted, True, a)
                   else if \<not> dial (cpx_LocalAddr p) then (DialFails (cpx_LocalAddr p), True, a)
                   else (Joined (cpx_LocalAddr p), True,
                         a\<lparr>ag_Proxies := (ag_Proxies a)(connReq_ProxyName req \<mapsto>
                             p\<lparr>cpx_wn := cpx_wn p + snd copied, cpx_rn := cpx_rn p + fst copied\<rparr>)\<rparr>)))
         | Inr _ \<Rightarrow> (NotAConnRequest, True, a)))"

section \<open>Lemmas\<close>

lemma Agent_Close_open:
  "\<not> ag_closed a \<Longrightarrow> \<not> ch_closed (ag_recvChan a) \<Longrightarrow> \<not> ch_closed (ag_sendChan a) \<Longrightarrow>
   \<exists>a'. Agent_Close a = Returns (a', [CloseConn (ag_conn a)]) \<and> ag_closed a' \<and> Agent_Close a' = Returns (a', [])"
  by (simp add: Agent_Close_def Agent_IsClosed_def chan_close_def Let_def)

text \<open>The retry loop: the count of failures and what was slept.\<close>

lemma run_turns_append:
  "run_turns (as @ bs) n = (case run_turns as n of (n', s) \<Rightarrow> (case run_turns bs n' of (n'', s') \<Rightarrow> (n'', s @ s')))"
  by (induction as arbitrary: n) (auto split: prod.splits)

definition back_off :: "nat \<Rightarrow> nat" where
  "back_off k = 6 * k + 10 * ((k div 10) * (k div 10 + 1))"

lemma back_off_Suc:
  "back_off (Suc k) = back_off k + 6 + (if Suc k mod 10 = 0 then Suc k * 2 else 0)"
proof (cases "Suc k mod 10 = 0")
  case True
  then obtain q where q: "Suc k = 10 * q" by (auto elim: dvdE)
  then obtain r where r: "q = Suc r" by (cases q) auto
  with q have k: "k = 9 + 10 * r" by simp
  have "Suc k div 10 = Suc r" "k div 10 = r" unfolding k by simp_all
  then show ?thesis using True by (simp add: back_off_def k algebra_simps)
next
  case False
  then have "Suc k div 10 = k div 10" by (simp add: div_Suc)
  then show ?thesis using False by (simp add: back_off_def)
qed

lemma failures_run:
  "list_all (\<lambda>a. a \<noteq> SessionRuns) as \<Longrightarrow>
   fst (run_turns as n) = n + length as \<and> sum_list (snd (run_turns as n)) + back_off n = back_off (n + length as)"
proof (induction as arbitrary: n)
  case Nil
  then show ?case by simp
next
  case (Cons a as)
  have r: "run_turn a n = (Suc n, (if Suc n mod 10 = 0 then [Suc n * 2] else []) @ [6])"
    using Cons.prems by (cases a) (simp_all add: run_turn_def Let_def)
  have IH: "fst (run_turns as (Suc n)) = Suc n + length as"
    "sum_list (snd (run_turns as (Suc n))) + back_off (Suc n) = back_off (Suc n + length as)"
    using Cons.IH [of "Suc n"] Cons.prems by simp_all
  obtain n2 s2 where 2: "run_turns as (Suc n) = (n2, s2)" by (cases "run_turns as (Suc n)")
  have "run_turns (a # as) n = (n2, ((if Suc n mod 10 = 0 then [Suc n * 2] else []) @ [6]) @ s2)"
    using r 2 by simp
  then show ?case using IH 2 back_off_Suc [of n] by (cases "Suc n mod 10 = 0") simp_all
qed

section \<open>Targets\<close>

lemma target_fields_three:
  assumes "CHR ''@'' \<notin> set n" "CHR ''@'' \<notin> set a" "CHR ''@'' \<notin> set r"
  shows "target_fields i (n @ ''@'' @ a @ ''@'' @ r) = (n, a, r)"
  using assms by (simp add: target_fields_def Split_char_step Split_char_absent)

definition target_proxy :: "gostring \<times> gostring \<times> gostring \<Rightarrow> cproxy" where
  "target_proxy = (\<lambda>(n, a, r). \<lparr>cpx_Name = n, cpx_Type = ''tcp'', cpx_LocalAddr = a, cpx_RemotePort = r,
     cpx_wn = 0, cpx_rn = 0, cpx_Started = False\<rparr>)"

definition target_text :: "gostring \<times> gostring \<times> gostring \<Rightarrow> gostring" where
  "target_text = (\<lambda>(n, a, r). n @ ''@'' @ a @ ''@'' @ r)"

definition plain_target :: "gostring \<times> gostring \<times> gostring \<Rightarrow> bool" where
  "plain_target = (\<lambda>(n, a, r). \<forall>s\<in>{n, a, r}. CHR ''@'' \<notin> set s \<and> CHR '','' \<notin> set s)"

lemma targets_loop_texts:
  "list_all plain_target ts \<Longrightarrow> distinct (map fst ts) \<Longrightarrow> fst ` set ts \<inter> dom m = {} \<Longrightarrow>
   targets_loop i (map target_text ts) m = Some (m ++ map_of (map (\<lambda>t. (fst t, target_proxy t)) ts))"
proof (induction ts arbitrary: i m)
  case Nil
  then show ?case by simp
next
  case (Cons t ts)
  obtain n a r where t: "t = (n, a, r)" by (cases t)
  have f: "target_fields i (target_text t) = (n, a, r)"
    using Cons.prems(1) target_fields_three [of n a r i] by (simp add: t target_text_def plain_target_def)
  have m: "m n = None" using Cons.prems(3) by (auto simp: t)
  have "targets_loop i (map target_text (t # ts)) m =
      targets_loop (Suc i) (map target_text ts) (m(n \<mapsto> target_proxy t))"
    using f m by (simp add: t target_proxy_def)
  also have "\<dots> = Some (m(n \<mapsto> target_proxy t) ++ map_of (map (\<lambda>t. (fst t, target_proxy t)) ts))"
  proof (rule Cons.IH)
    have "n \<notin> fst ` set ts" using Cons.prems(2) by (simp add: t)
    then show "fst ` set ts \<inter> dom (m(n \<mapsto> target_proxy t)) = {}" using Cons.prems(3) by simp
  qed (use Cons.prems in simp_all)
  also have "m(n \<mapsto> target_proxy t) ++ map_of (map (\<lambda>t. (fst t, target_proxy t)) ts) =
      m ++ map_of (map (\<lambda>t. (fst t, target_proxy t)) (t # ts))"
  proof -
    have "n \<notin> fst ` set ts" using Cons.prems(2) by (simp add: t)
    then have "n \<notin> dom (map_of (map (\<lambda>t. (fst t, target_proxy t)) ts))"
      by (auto simp: dom_map_of_conv_image_fst image_image)
    then show ?thesis by (simp add: t map_add_upd_left)
  qed
  finally show ?case .
qed

section \<open>Connecting again\<close>

text \<open>
  \<open>connectServer\<close>: \<open>dial\<close> is the connection that \<open>net.Dial\<close> gives, \<open>yamux_ok\<close> whether the
  session is set up, \<open>stream\<close> the stream opened on it.
\<close>

definition connectServer :: "conn option \<Rightarrow> bool \<Rightarrow> conn option \<Rightarrow> client \<Rightarrow> conn option \<times> client" where
  "connectServer dial yamux_ok stream c =
     (case dial of
        None \<Rightarrow> (None, c)
      | Some k \<Rightarrow>
          (let c1 = c\<lparr>cl_conn := Some k\<rparr> in
           if \<not> yamux_ok then (None, c1) else (stream, c1\<lparr>cl_session := Some k\<rparr>)))"

text \<open>
  What the surroundings do in one turn of \<open>Run\<close>: the connection, the outcome of the login's
  write, what arrives, and the agent when its \<open>Run\<close> has returned.
\<close>

record client_env =
  ce_dial :: "conn option"
  ce_yamux_ok :: bool
  ce_stream :: "conn option"
  ce_fault :: "(nat \<times> ioerr) option"
  ce_reply :: reader
  ce_agent :: "agent \<Rightarrow> agent"

text \<open>
  The map of proxies of an agent is that of its client, and the proxies are pointers: what the
  agent has marked and counted stays when it is gone.
\<close>

definition agent_over :: "agent \<Rightarrow> client \<Rightarrow> client" where
  "agent_over a c = c\<lparr>cl_Config := (cl_Config c)\<lparr>ccfg_Proxies := ag_Proxies a\<rparr>\<rparr>"

text \<open>
  One turn: how it went, the client after it, and what was closed.  \<open>Agent.Close\<close>, deferred in
  \<open>Agent.Run\<close>, closes the agent's stream.
\<close>

definition client_turn :: "gostring \<Rightarrow> int \<Rightarrow> client_env \<Rightarrow> client \<Rightarrow> attempt \<times> client \<times> effect list" where
  "client_turn goos now e c =
     (case connectServer (ce_dial e) (ce_yamux_ok e) (ce_stream e) c of
        (None, c1) \<Rightarrow> (ConnectFails, c1, [])
      | (Some s, c1) \<Rightarrow>
          (case Login goos (ce_fault e) (ce_reply e) c1 of
             ((Some err, c2), sent, shut) \<Rightarrow> (LoginFails, c2, if shut then [CloseConn s] else [])
           | ((None, c2), sent, shut) \<Rightarrow>
               (SessionRuns, agent_over (ce_agent e (NewAgent s c2 now)) c2, [CloseConn s])))"

text \<open>\<open>Run\<close> over some turns, with the count of failures, the seconds slept and what was closed.\<close>

fun client_run :: "gostring \<Rightarrow> (int \<times> client_env) list \<Rightarrow> nat \<Rightarrow> client \<Rightarrow> nat \<times> nat list \<times> client \<times> effect list" where
  "client_run goos [] n c = (n, [], c, [])"
| "client_run goos ((now, e) # es) n c =
     (case client_turn goos now e c of (a, c1, closed1) \<Rightarrow>
      case run_turn a n of (n1, slept1) \<Rightarrow>
      case client_run goos es n1 c1 of (n2, slept2, c2, closed2) \<Rightarrow>
        (n2, slept1 @ slept2, c2, closed1 @ closed2))"

text \<open>The sleeping is that of the turns' outcomes.\<close>

fun client_attempts :: "gostring \<Rightarrow> (int \<times> client_env) list \<Rightarrow> client \<Rightarrow> attempt list" where
  "client_attempts goos [] c = []"
| "client_attempts goos ((now, e) # es) c =
     (case client_turn goos now e c of (a, c1, closed1) \<Rightarrow> a # client_attempts goos es c1)"

lemma client_run_turns:
  "client_run goos es n c = (n', slept, c', shut) \<Longrightarrow> run_turns (client_attempts goos es c) n = (n', slept)"
  by (induction es arbitrary: n c n' slept c' shut) (auto split: prod.splits)

text \<open>
  Only the first streams of the sessions are closed here: the client never closes the connection
  of a session that has failed or ended.
\<close>

lemma client_turn_closes:
  "client_turn goos now e c = (a, c', shut) \<Longrightarrow> CloseConn k \<in> set shut \<Longrightarrow> ce_stream e = Some k"
  by (auto simp: client_turn_def connectServer_def Let_def split: option.splits prod.splits if_splits)

lemma client_run_closes:
  "client_run goos es n c = (n', slept, c', shut) \<Longrightarrow> CloseConn k \<in> set shut \<Longrightarrow>
   Some k \<in> (ce_stream \<circ> snd) ` set es"
proof (induction es arbitrary: n c n' slept c' shut)
  case (Cons x es)
  obtain now e where x: "x = (now, e)" by fastforce
  obtain a c1 shut1 n1 slept1 slept2 shut2 where r: "client_turn goos now e c = (a, c1, shut1)"
    "client_run goos es n1 c1 = (n', slept2, c', shut2)" "shut = shut1 @ shut2"
    using Cons.prems(1) by (auto simp: x split: prod.splits)
  from Cons.prems(2) r(3) have "CloseConn k \<in> set shut1 \<or> CloseConn k \<in> set shut2" by simp
  then show ?case
  proof
    assume "CloseConn k \<in> set shut1"
    with client_turn_closes [OF r(1)] show ?thesis by (simp add: x)
  next
    assume "CloseConn k \<in> set shut2"
    with Cons.IH [OF r(2)] show ?thesis by auto
  qed
qed simp

theorem client_never_disconnects:
  assumes "client_run goos es n c = (n', slept, c', shut)"
    "(ce_stream \<circ> snd) ` set es \<inter> (ce_dial \<circ> snd) ` set es \<subseteq> {None}" "(now, e) \<in> set es" "ce_dial e = Some k"
  shows "CloseConn k \<notin> set shut"
proof
  assume "CloseConn k \<in> set shut"
  with client_run_closes [OF assms(1)] have "Some k \<in> (ce_stream \<circ> snd) ` set es" by blast
  moreover have "Some k \<in> (ce_dial \<circ> snd) ` set es" using assms(3,4) by force
  ultimately show False using assms(2) by blast
qed

text \<open>A proxy that was started under one agent is started under the next, before the server has
  confirmed it again.\<close>

theorem started_over_sessions:
  assumes "ag_Proxies a name = Some p" "cpx_Started p"
  shows "ag_Proxies (NewAgent s (agent_over a c) now) name = Some p"
    and "fst (message_Get stream) = Inr (MConnRequest req) \<Longrightarrow> connReq_ProxyName req = name \<Longrightarrow> dial (cpx_LocalAddr p) \<Longrightarrow>
      fst (awaitWork (Some l) stream dial copied (NewAgent s (agent_over a c) now)) = Joined (cpx_LocalAddr p)"
  using assms by (simp_all add: NewAgent_def agent_over_def awaitWork_def)

text \<open>A configuration for the witnesses.\<close>

definition demo_config :: "int \<Rightarrow> ClientConfig" where
  "demo_config h = \<lparr>ccfg_Name = ''host'', ccfg_Tag = ''t'', ccfg_ServerAddr = ''s:8080'', ccfg_AuthCode = ''pw'',
     ccfg_PoolSize = 2, ccfg_LogFile = [], ccfg_Proxies = Map.empty, ccfg_HeartbeatInterval = h, ccfg_Debug = False\<rparr>"

section \<open>Properties\<close>

text \<open>A target list written as \<open>name@address@port\<close> elements with distinct names sets up
  exactly those proxies, each under its name, not started.\<close>

theorem client_setup_targets:
  assumes "ts \<noteq> []" "list_all plain_target ts" "distinct (map fst ts)"
    "ccfg_Name cfg \<noteq> []" "ccfg_Tag cfg \<noteq> []" "ccfg_Proxies cfg = Map.empty"
  shows "client_setup (strings_Join (map target_text ts) '','') cfg =
    Some (cfg\<lparr>ccfg_Proxies := map_of (map (\<lambda>t. (fst t, target_proxy t)) ts)\<rparr>)"
proof -
  have "CHR '','' \<notin> set x" if "x \<in> set (map target_text ts)" for x
    using that assms(2) by (auto simp: list_all_iff target_text_def plain_target_def)
  then have s: "strings_Split (strings_Join (map target_text ts) '','') '','' = map target_text ts"
    using assms(1) by (intro Split_Join_char) auto
  have "strings_Join (map target_text ts) '','' \<noteq> []"
  proof
    assume "strings_Join (map target_text ts) '','' = []"
    with s have "map target_text ts = [[]]" by (simp add: Split_char_absent)
    then show False by (auto simp: target_text_def)
  qed
  moreover have "targets_loop 0 (map target_text ts) Map.empty =
      Some (Map.empty ++ map_of (map (\<lambda>t. (fst t, target_proxy t)) ts))"
    using assms(2,3) by (intro targets_loop_texts) auto
  ultimately show ?thesis using s assms(4-6) by (simp add: client_setup_def)
qed

lemma client_setup_targets_witness:
  "client_setup ''a@h:1@80,b@h:2@0'' (demo_config 60) =
     Some ((demo_config 60)\<lparr>ccfg_Proxies := map_of [(''a'', target_proxy (''a'', ''h:1'', ''80'')),
       (''b'', target_proxy (''b'', ''h:2'', ''0''))]\<rparr>)"
  using client_setup_targets [of "[(''a'', ''h:1'', ''80''), (''b'', ''h:2'', ''0'')]" "demo_config 60"]
  by (simp add: plain_target_def target_text_def demo_config_def)

text \<open>C28: Detection of a silent server.  The ticker of an agent with an interval of \<open>h\<close> seconds is
  made at \<open>begun\<close>, the time of the last beat is taken \<open>d\<close> later, and tick \<open>k\<close> reads the clock
  \<open>l k\<close> after it is due; \<open>d\<close> and each \<open>l k\<close> differ by less than half a second.  An agent that
  hears nothing sends a heartbeat at the first tick.  At the second it gives up when \<open>h\<close> is three
  or more; with \<open>h = 2\<close> the wait is exactly the limit and it gives up just if that tick is later
  than the taking of the time was, \<open>d < l 2\<close>; with \<open>h = 1\<close> it does not.  At the third it always
  gives up.  With an interval of zero it panics at once.\<close>

theorem heartbeat_gives_up:
  fixes l :: "nat \<Rightarrow> int"
  assumes "0 \<le> h" "h \<le> 9000000000" "ccfg_HeartbeatInterval (cl_Config cl) = h"
    "\<And>k. \<bar>l k - d\<bar> < second div 2"
  shows "case start_ticker (begun + d) (NewAgent c cl t) of
      Panics \<Rightarrow> h = 0
    | Returns a \<Rightarrow> 0 < h \<and>
        agent_tick (begun + h * second + l 1) now a = Some (MHeartbeatRequest \<lparr>hbReq_Timestamp = UnixMicro now\<rparr>) \<and>
        (agent_tick (begun + 2 * (h * second) + l 2) now a = None \<longleftrightarrow> 3 \<le> h \<or> h = 2 \<and> d < l 2) \<and>
        agent_tick (begun + 3 * (h * second) + l 3) now a = None
    | Blocks \<Rightarrow> False"
proof -
  have len: "duration x = x" if "0 \<le> x" "x < 2 ^ 63" for x
    using that by (simp add: duration_def signed_of_int signed_take_bit_int_eq_self)
  have I: "ag_HeartbeatInterval (NewAgent c cl t) = h * second"
    using assms len [of "second * h"] by (simp add: NewAgent_def second_def)
  have lim: "duration (h * second + second) = h * second + second"
    using assms by (intro len) (simp_all add: second_def)
  have half: "h * second div 2 = h * 500000000" by (simp add: second_def)
  have lat: "\<bar>l 1 - d\<bar> < 500000000" "\<bar>l 2 - d\<bar> < 500000000" "\<bar>l 3 - d\<bar> < 500000000"
    using assms(4) [of 1] assms(4) [of 2] assms(4) [of 3] by (simp_all add: second_def)
  show ?thesis
    using I lim half assms(1) lat by (auto simp: start_ticker_def agent_tick_def second_def)
qed

lemma heartbeat_gives_up_witness:
  "\<exists>a. start_ticker 3000 (NewAgent 1 (NewClient (demo_config 2)) 0) = Returns a \<and>
     agent_tick (4 * second + 5000) 0 a = None \<and> agent_tick (6 * second) 0 a = None"
proof -
  have h: "ccfg_HeartbeatInterval (cl_Config (NewClient (demo_config 2))) = 2"
    by (simp add: NewClient_def demo_config_def)
  define l :: "nat \<Rightarrow> int" where "l = (\<lambda>k. if k = 2 then 5000 else 0)"
  have "\<bar>l k - 3000\<bar> < second div 2" for k by (simp add: l_def second_def)
  from heartbeat_gives_up [where l = l and d = 3000 and begun = 0 and c = 1 and t = 0 and now = 0, OF _ _ h this] show ?thesis
    by (cases "start_ticker 3000 (NewAgent 1 (NewClient (demo_config 2)) 0)") (simp_all add: l_def second_def)
qed

text \<open>C27: A pipe is joined to a local address only when a connection request names a proxy that
  is marked as confirmed by the server, and then to that proxy's address; a pipe that was
  opened is closed on every path.\<close>

theorem awaitWork_safe:
  assumes "awaitWork pipe stream dial copied a = (result, is_closed, a')"
  shows "(pipe \<noteq> None \<longleftrightarrow> is_closed) \<and>
    (\<forall>addr. result = Joined addr \<longrightarrow> (\<exists>req p. fst (message_Get stream) = Inr (MConnRequest req) \<and>
       ag_Proxies a (connReq_ProxyName req) = Some p \<and> cpx_Started p \<and> cpx_LocalAddr p = addr \<and> dial addr)) \<and>
    ((\<forall>addr. result \<noteq> Joined addr) \<longrightarrow> a' = a)"
  using assms
  by (auto simp: awaitWork_def split: option.splits sum.splits message.splits if_splits)

lemma awaitWork_safe_witness:
  "snd (awaitWork (Some 1) \<lparr>chunks = [], final_err = EOF\<rparr> (\<lambda>_. True) (0, 0) (NewAgent 1 (NewClient (demo_config 60)) 0)) =
     (True, NewAgent 1 (NewClient (demo_config 60)) 0)"
proof -
  let ?a = "NewAgent 1 (NewClient (demo_config 60)) 0"
  obtain result is_closed a' where w: "awaitWork (Some 1) \<lparr>chunks = [], final_err = EOF\<rparr> (\<lambda>_. True) (0, 0) ?a = (result, is_closed, a')"
    by (metis prod_cases3)
  moreover have "\<forall>addr. result \<noteq> Joined addr"
    using w by (auto simp: awaitWork_def message_Get_def message_Read_def conn_Read_def)
  ultimately show ?thesis using awaitWork_safe [OF w] by simp
qed

text \<open>The back-off of the client: \<open>k\<close> failures in a row leave the count at \<open>k\<close> and have
  slept six seconds each and, at every tenth, twice the count more; a session that ran resets
  the count.\<close>

theorem client_back_off:
  assumes "list_all (\<lambda>a. a \<noteq> SessionRuns) as"
  shows "fst (run_turns as 0) = length as \<and> sum_list (snd (run_turns as 0)) = back_off (length as) \<and>
    fst (run_turns (as @ [SessionRuns]) 0) = 0"
proof -
  have "fst (run_turn SessionRuns n) = 0" for n
    by (simp add: run_turn_def Let_def)
  then have "fst (run_turns [SessionRuns] n) = 0" for n
    by (simp add: case_prod_beta)
  then have "fst (run_turns (as @ [SessionRuns]) 0) = 0"
    by (simp add: run_turns_append case_prod_beta)
  then show ?thesis using failures_run [OF assms, of 0] by (simp add: back_off_def)
qed

lemma client_back_off_witness: "sum_list (snd (run_turns (replicate 10 LoginFails) 0)) = 80"
  using client_back_off [of "replicate 10 LoginFails"] by (simp add: back_off_def list_all_iff)

end
