(* ===== verification/Session.thy ===== *)
theory Session
  imports Server ProxyServe Client
begin

text \<open>
  Client and server together: when a message written by one side reaches the other, and the
  exchanges built on it.  A connection is a reader whose content is what the peer wrote, cut
  into chunks by the network with the two header bytes in the first one.
\<close>

section \<open>Messages of modest size\<close>

text \<open>A message whose strings are valid UTF-8 of less than a megabyte arrives as it was sent.\<close>

definition modest :: "message \<Rightarrow> bool" where
  "modest m \<longleftrightarrow> m \<noteq> OtherValue \<and> list_all (\<lambda>s. ValidString s \<and> length s < 1048576) (message_strings m)"

definition delivers :: "reader \<Rightarrow> gostring \<Rightarrow> bool" where
  "delivers r sent \<longleftrightarrow> header_whole r \<and> (\<exists>rest. content r = sent @ rest)"

lemma length_escape: "length (escape s) \<le> 6 * length s"
proof (induction s rule: escape.induct)
  case 1
  then show ?case by (simp add: escape.simps)
next
  case (2 a s)
  have w: "snd (DecodeRune (a # s)) \<le> Suc (length s)" "1 \<le> snd (DecodeRune (a # s))"
    using DecodeRune_width [of "a # s"] by auto
  have a: "length (escape_ascii a) \<le> 6" by (simp add: escape_ascii_def)
  have r: "length (escape_rune (a # s)) \<le> 6 * snd (DecodeRune (a # s))"
    using w by (cases "DecodeRune (a # s)") (auto simp: escape_rune_def Let_def simp del: DecodeRune.simps)
  show ?case using 2 a r w by (auto simp: escape.simps(2) [of a s] simp del: DecodeRune.simps)
qed

lemma length_show_nat: "n < 10 ^ k \<Longrightarrow> 0 < k \<Longrightarrow> length (show_nat n) \<le> k"
proof (induction k arbitrary: n)
  case 0
  then show ?case by simp
next
  case (Suc k)
  show ?case
  proof (cases "n < 10")
    case True
    then show ?thesis by (simp add: show_nat.simps [of n])
  next
    case False
    then have "0 < k" using Suc.prems by (cases k) auto
    moreover have "n div 10 < 10 ^ k" using Suc.prems by (simp add: less_mult_imp_div_less mult.commute)
    ultimately have "length (show_nat (n div 10)) \<le> k" by (rule Suc.IH [rotated])
    with False show ?thesis by (simp add: show_nat.simps [of n])
  qed
qed

lemma length_Itoa: "- (2 ^ 63) \<le> i \<Longrightarrow> i < 2 ^ 63 \<Longrightarrow> length (strconv_Itoa i) \<le> 20"
proof -
  assume i: "- (2 ^ 63) \<le> i" "i < 2 ^ 63"
  then have "nat i < 10 ^ 19" "nat (- i) < 10 ^ 19" by simp_all
  then have "length (show_nat (nat i)) \<le> 19" "length (show_nat (nat (- i))) \<le> 19"
    by (intro length_show_nat; simp)+
  then show ?thesis by (simp add: strconv_Itoa_def)
qed

text \<open>How long the JSON text of a value can be.\<close>

fun value_bound :: "fval \<Rightarrow> nat" where
  "value_bound (FStr s) = 6 * length s + 2"
| "value_bound _ = 20"

lemma length_json_value: "length (json_value v) \<le> value_bound v"
proof (cases v)
  case (FStr s)
  then show ?thesis using length_escape [of s] by (simp add: json_string_def)
next
  case (FI64 i)
  have "- (2 ^ 63) \<le> sint i" "sint i < 2 ^ 63"
    using sint_ge [of i] sint_lt [of i] by simp_all
  then show ?thesis using length_Itoa FI64 by simp
next
  case (FU8 n)
  have "unat n < 2 ^ LENGTH(8)" by (rule unsigned_less)
  then have "length (strconv_Itoa (int (unat n))) \<le> 20"
    by (intro length_Itoa) (simp_all del: int_nat_eq of_nat_unat)
  then show ?thesis using FU8 by simp
qed auto

lemma length_Join_le: "length (strings_Join xs sep) \<le> (\<Sum>x\<leftarrow>xs. length x + length sep)"
  by (induction xs sep rule: strings_Join.induct) auto

lemma length_json_Marshal:
  "length (json_Marshal t) \<le> 2 + (\<Sum>(n, v)\<leftarrow>t. 6 * length n + value_bound v + 4)"
proof -
  let ?f = "filter (\<lambda>(n, v). \<not> is_empty_val v) t"
  have m: "length (json_member p) + 1 \<le> (case p of (n, v) \<Rightarrow> 6 * length n + value_bound v + 4)" for p
    using length_escape [of "fst p"] length_json_value [of "snd p"]
    by (cases p) (simp add: json_string_def)
  have "(\<Sum>x\<leftarrow>map json_member ps. length x + length '','') \<le> (\<Sum>(n, v)\<leftarrow>ps. 6 * length n + value_bound v + 4)" for ps
  proof (induction ps)
    case (Cons p ps)
    from add_mono [OF m [of p] Cons.IH] show ?case by simp
  qed simp
  then have "length (strings_Join (map json_member ?f) '','') \<le> (\<Sum>(n, v)\<leftarrow>?f. 6 * length n + value_bound v + 4)"
    using length_Join_le [of "map json_member ?f" "'',''"] by (rule le_trans [rotated])
  also have "\<dots> \<le> (\<Sum>(n, v)\<leftarrow>t. 6 * length n + value_bound v + 4)"
    by (induction t) auto
  finally show ?thesis by (simp add: json_Marshal_def)
qed

lemma modest_sendable: "modest m \<Longrightarrow> sendable m"
  using length_json_Marshal [of "fields_of m"]
  by (cases m) (auto simp: modest_def sendable_def message_strings_def List.map_filter_def)

lemma modest_Get: "modest m \<Longrightarrow> delivers r (wire m) \<Longrightarrow> fst (message_Get r) = Inr m"
  using modest_sendable [of m] Get_wire [of m r] sanitize_message_valid [of m]
  by (fastforce simp: modest_def delivers_def list_all_iff)

lemma modest_Send: "modest m \<Longrightarrow> message_Send m None out = (None, out @ wire m)"
  by (simp add: modest_sendable sendable_Send)

section \<open>Logging in\<close>

definition login_reply :: "gostring \<Rightarrow> message" where
  "login_reply key = MLoginResponse \<lparr>loginResp_ClientId = key, loginResp_Result = ''ok''\<rparr>"

definition pipe_call :: "gostring \<Rightarrow> message" where
  "pipe_call key = MPipeRequest \<lparr>pipeReq_ClientId = key\<rparr>"

lemma base62_ascii: "set base62 \<subseteq> {c. code c < 128}"
  by (simp add: base62_def)

lemma modest_key:
  assumes "length key = 8" "set key \<subseteq> set base62"
  shows "modest (login_reply key)" "modest (pipe_call key)"
proof -
  have "ValidString key" using assms(2) base62_ascii by (intro ValidString_ascii) auto
  moreover have "ValidString ''ok''" by (rule ValidString_ascii) auto
  ultimately show "modest (login_reply key)" "modest (pipe_call key)"
    using assms(1) by (simp_all add: modest_def login_reply_def pipe_call_def message_strings_def List.map_filter_def)
qed

lemma Login_reply:
  assumes "modest (login_request goos c)" "modest (login_reply key)" "delivers down (wire (login_reply key))"
  shows "Login goos None down c = ((None, c\<lparr>cl_ClientId := key\<rparr>), wire (login_request goos c), False)"
  using modest_Send [OF assms(1), of "[]"] modest_Get [OF assms(2,3)]
  by (simp add: Login_def) (simp add: login_reply_def)

lemma NewPipeConn_call:
  "modest (pipe_call (cl_ClientId c)) \<Longrightarrow>
   NewPipeConn (Some k) None c = (Some k, wire (pipe_call (cl_ClientId c)), False)"
  using modest_Send [of "pipe_call (cl_ClientId c)" "[]"] by (simp add: NewPipeConn_def pipe_call_def)

text \<open>The request a client logs in with, as the record the server reads.\<close>

definition login_of :: "gostring \<Rightarrow> client \<Rightarrow> LoginRequest" where
  "login_of goos c = (case login_request goos c of MLoginRequest v \<Rightarrow> v)"

lemma login_of: "login_request goos c = MLoginRequest (login_of goos c)"
  by (simp add: login_of_def login_request_def)

lemma first_pipe:
  assumes "server_inv srv" "managers srv key = Some (NewManager key conn v now)"
    "delivers up (wire (pipe_call key))"
  shows "HandleStream src now' k up srv = Some ([], srv\<lparr>managers := (managers srv)(key \<mapsto>
    (NewManager key conn v now)\<lparr>pipeConnPool := (pipeConnPool (NewManager key conn v now))\<lparr>ch_buf := [k]\<rparr>\<rparr>)\<rparr>)"
proof -
  have "length key = 8" "set key \<subseteq> set base62"
    using server_inv_listed [OF assms(1,2)] by (simp_all add: listed_def)
  then have "fst (message_Get up) = Inr (pipe_call key)"
    using modest_Get [OF modest_key(2) assms(3)] by simp
  then have "fst (message_Get up) = Inr (MPipeRequest \<lparr>pipeReq_ClientId = key\<rparr>)" by (simp add: pipe_call_def)
  from HandleStream_pipe [OF assms(1) this] assms(2) show ?thesis
    by (simp add: NewManager_def pool_size_def make_chan_def MaxPoolSize_def Let_def)
qed

section \<open>A proxy's way\<close>

definition registration :: "cproxy \<Rightarrow> message" where
  "registration p = MProxyRequest
     \<lparr>proxyReq_Name = cpx_Name p, proxyReq_Type = cpx_Type p, proxyReq_Port = cpx_RemotePort p,
      proxyReq_Target = cpx_LocalAddr p, proxyReq_Enable = True\<rparr>"

lemma RegisterProxy_sent:
  "modest (registration p) \<Longrightarrow> Agent_RegisterProxy p None (a, out) =
     (None, a\<lparr>ag_Proxies := (ag_Proxies a)(cpx_Name p \<mapsto> p)\<rparr>, out @ wire (registration p))"
  using modest_Send [of "registration p" out] by (simp add: Agent_RegisterProxy_def registration_def)

text \<open>A registration the server confirms: both sides then hold the proxy.\<close>

lemma handle_registration:
  assumes "handle_message os ks now (registration p) (m, prts) = Returns (Some (MProxyResponse resp), (m', prts'), eff)"
    "proxyResp_Result resp = ''ok''"
  obtains sp where "Proxies m' (cpx_Name p) = Some sp" "px_Name sp = cpx_Name p" "px_Remote sp = cpx_LocalAddr p"
    "proxyResp_Name resp = cpx_Name p" "proxyResp_Port resp = px_Port sp" "eff = [OpenListener (px_Port sp)]"
proof -
  let ?req = "\<lparr>proxyReq_Name = cpx_Name p, proxyReq_Type = cpx_Type p, proxyReq_Port = cpx_RemotePort p,
      proxyReq_Target = cpx_LocalAddr p, proxyReq_Enable = True\<rparr>"
  obtain m1 where r: "RegisterProxy os ?req (m, prts) = Returns (resp, (m1, prts'), eff)" "m' = ListProxies ks m1"
    using assms(1) by (auto simp: handle_message_def registration_def split: outcome.splits)
  from RegisterProxy_ok [OF r(1) assms(2)] obtain sp where sp: "px_Name sp = cpx_Name p" "px_Remote sp = cpx_LocalAddr p"
    "proxyResp_Name resp = px_Name sp" "proxyResp_Port resp = px_Port sp"
    "m1 = m\<lparr>Proxies := (Proxies m)(cpx_Name p \<mapsto> sp)\<rparr>" "eff = [OpenListener (px_Port sp)]"
    by auto
  then have "Proxies m' (cpx_Name p) = Some sp" by (simp add: r(2) ListProxies_def Let_def)
  with sp that show thesis by simp
qed

lemma confirm_starts:
  "proxyResp_Result resp = ''ok'' \<Longrightarrow> proxyResp_Name resp = cpx_Name p \<Longrightarrow> ag_Proxies a (cpx_Name p) = Some p \<Longrightarrow>
   agent_handle now (MProxyResponse resp) a = ([], a\<lparr>ag_Proxies := (ag_Proxies a)(cpx_Name p \<mapsto> Proxy_Start p)\<rparr>)"
  by (simp add: agent_handle_def)

lemma work_joined:
  assumes "modest (conn_request sp u)" "delivers down (wire (conn_request sp u))"
    "ag_Proxies a (px_Name sp) = Some p" "cpx_Started p" "dial (cpx_LocalAddr p)"
  shows "\<exists>a'. awaitWork (Some c) down dial copied a = (Joined (cpx_LocalAddr p), True, a')"
  using modest_Get [OF assms(1,2)] assms(3-5)
  by (simp add: awaitWork_def) (simp add: conn_request_def)

text \<open>What \<open>handle\<close> sends when it serves.\<close>

lemma handle_sent:
  "Proxy_handle w sp u m = Returns (Serving c sent, shut, m') \<Longrightarrow> sent = wire (conn_request sp u)"
  by (drule handle_result) (simp add: handle_ok_def)

end
