(* ===== verification/Machine.thy ===== *)
theory Machine
  imports Prelude
begin

text \<open>
  Interleavings: a system of goroutines is a function that performs one atomic step of one
  of them, if it can; a schedule is a list of such steps.  The interface of an invariant is
  a locale, which the systems of the development interpret.
\<close>

fun exec :: "('e \<Rightarrow> 's \<Rightarrow> 's option) \<Rightarrow> 'e list \<Rightarrow> 's \<Rightarrow> 's option" where
  "exec step [] s = Some s"
| "exec step (e # es) s = (case step e s of None \<Rightarrow> None | Some s' \<Rightarrow> exec step es s')"

lemma exec_append:
  "exec step (es @ fs) s = (case exec step es s of None \<Rightarrow> None | Some s' \<Rightarrow> exec step fs s')"
  by (induction es arbitrary: s) (auto split: option.splits)

lemma exec_snoc: "exec step es s = Some t \<Longrightarrow> exec step (es @ [e]) s = step e t"
  by (simp add: exec_append split: option.splits)

locale invariant_system =
  fixes init :: "'s \<Rightarrow> bool"
    and step :: "'e \<Rightarrow> 's \<Rightarrow> 's option"
    and inv :: "'s \<Rightarrow> bool"
  assumes init_inv: "init s \<Longrightarrow> inv s"
    and step_inv: "inv s \<Longrightarrow> step e s = Some s' \<Longrightarrow> inv s'"
begin

lemma exec_inv: "inv s \<Longrightarrow> exec step es s = Some t \<Longrightarrow> inv t"
  by (induction es arbitrary: s) (auto split: option.splits intro: step_inv)

lemma reachable_inv: "init s \<Longrightarrow> exec step es s = Some t \<Longrightarrow> inv t"
  using exec_inv init_inv by blast

text \<open>What the invariant implies holds after every prefix of a schedule.\<close>

lemma always: "init s \<Longrightarrow> exec step (es @ fs) s = Some t \<Longrightarrow> \<exists>u. exec step es s = Some u \<and> inv u"
  using reachable_inv by (auto simp: exec_append split: option.splits)

end

text \<open>
  A system that implements an abstract one: every step, seen through the abstraction, is a run
  of steps of the specification, possibly of none.
\<close>

locale simulation = invariant_system init step inv
  for init :: "'s \<Rightarrow> bool" and step :: "'e \<Rightarrow> 's \<Rightarrow> 's option" and inv :: "'s \<Rightarrow> bool" +
  fixes abs_of :: "'s \<Rightarrow> 'a"
    and spec :: "'a \<Rightarrow> 'a \<Rightarrow> bool"
  assumes step_sim: "inv s \<Longrightarrow> step e s = Some s' \<Longrightarrow> spec\<^sup>*\<^sup>* (abs_of s) (abs_of s')"
begin

lemma exec_sim: "inv s \<Longrightarrow> exec step es s = Some t \<Longrightarrow> spec\<^sup>*\<^sup>* (abs_of s) (abs_of t)"
proof (induction es arbitrary: s)
  case (Cons e es)
  then obtain u where u: "step e s = Some u" "exec step es u = Some t" by (auto split: option.splits)
  from step_sim [OF Cons.prems(1) u(1)] Cons.IH [OF step_inv [OF Cons.prems(1) u(1)] u(2)]
  show ?case by (rule rtranclp_trans)
qed simp

lemma reachable_sim: "init s \<Longrightarrow> exec step es s = Some t \<Longrightarrow> spec\<^sup>*\<^sup>* (abs_of s) (abs_of t)"
  using exec_sim init_inv by blast

end

end
