(* ===== verification/ServerRun.thy ===== *)
theory ServerRun
  imports Machine Server
begin

text \<open>
  The goroutines of \<open>server/server.go\<close> around the map of managers, interleaved: one per
  stream, which for a login draws an id, makes and starts the manager, files it and answers, and
  for a pipe looks up the manager, tests whether it is closed and sends on its pool;
  \<open>awaitManagerDone\<close>; the loops of the managers, which handle messages and close.  A step
  is what happens between two points where another goroutine can be seen: filling the buffer
  of \<open>RandStr8Base62\<close>, copying the key out of it, the lookup under the read lock, starting
  the manager, the insertion under the lock, the answer.  The single bytes of the buffer are
  not interleaved.  \<open>Close\<close> of a manager is one step here, as only the closing of its pool is seen
  by the goroutines of this theory: a pipe that is sent between the setting of the flag and the
  closing of the pool is one sent before \<open>Close\<close>.  \<open>ManagerRun\<close> has its statements.
\<close>

section \<open>Accepting\<close>

text \<open>
  The loops of \<open>Run\<close> and \<open>Handle\<close>: what \<open>Accept\<close> gives in turn, up to the first error; a
  goroutine is started for each.  \<open>None\<close> as the error: still waiting.
\<close>

fun accept_each :: "('e + 'c) list \<Rightarrow> 'c list \<times> 'e option" where
  "accept_each [] = ([], None)"
| "accept_each (Inl e # rs) = ([], Some e)"
| "accept_each (Inr c # rs) = (case accept_each rs of (cs, e) \<Rightarrow> (c # cs, e))"

text \<open>The connections handled and the error that \<open>Run\<close> returns.\<close>

definition Server_Run :: "'e option \<Rightarrow> ('e + 'c) list \<Rightarrow> 'c list \<times> 'e option" where
  "Server_Run listen_err accepted = (case listen_err of Some e \<Rightarrow> ([], Some e) | None \<Rightarrow> accept_each accepted)"

text \<open>\<open>session\<close>: what \<open>yamux.Server\<close> gives, the streams it accepts; the streams handled.\<close>

definition Server_Handle :: "'e + ('e + conn) list \<Rightarrow> conn list" where
  "Server_Handle session = (case session of Inl e \<Rightarrow> [] | Inr accepted \<Rightarrow> fst (accept_each accepted))"

lemma accept_loop_all: "accept_each (map Inr cs @ Inl e # rs) = (cs, Some e)"
  by (induction cs) auto

section \<open>State\<close>

text \<open>Where the goroutine of an accepted login is; the manager it has started but not filed.\<close>

datatype login_pc =
    LFill | LCopy | LTest gostring | LNew gostring | LFile manager | LReply gostring | LServed gostring

record login_run =
  lg_conn :: conn
  lg_req :: LoginRequest
  lg_pc :: login_pc
  lg_done :: bool

text \<open>
  Where the goroutine of a pipe request is that has found a manager: before the test of the closed
  flag, before the \<open>select\<close> on the pool, or at its end, with the stream in the pool, closed, or
  neither.  The manager it holds is a pointer; \<open>pp_mgr\<close>, the stream of the manager's login, says
  which one it is, whatever the map holds under \<open>pp_key\<close> later.
\<close>

datatype pipe_pc = PTest | PPush | PPooled | PClosed | PLost

record pipe_run =
  pp_conn :: conn
  pp_key :: gostring
  pp_mgr :: conn
  pp_pc :: pipe_pc

text \<open>
  \<open>pooled\<close> and \<open>handed\<close> are the history of the pools: each stream put into one and each one
  received from one, with the manager whose pool it was.
\<close>

record server_run =
  the_server :: server
  logins :: "login_run list"
  answers :: "(conn \<times> message) list"
  pipes :: "pipe_run list"
  pooled :: "(conn \<times> conn) list"
  handed :: "(conn \<times> conn) list"

text \<open>
  What happens to a manager of the map.  \<open>OpPopRequest\<close> and \<open>OpPopReceive\<close> are the two halves of
  \<open>PopPipeConn\<close>; \<open>OpChannels\<close> stands for the goroutines that fill and drain its two message
  channels.
\<close>

datatype mgr_op =
    OpMessage os_answers "gostring list" i64 message
  | OpClose "gostring list"
  | OpPing i64
  | OpPopRequest
  | OpPopReceive bool
  | OpChannels "message chan" "message chan"

datatype server_event =
    EvStream conn reader i64
  | EvLoginStep nat i64
  | EvManagerDone nat manager "gostring list"
  | EvManager gostring mgr_op
  | EvPipeStep nat pipe_pc

definition serve :: "server \<Rightarrow> server_run" where
  "serve s = \<lparr>the_server = s, logins = [], answers = [], pipes = [], pooled = [], handed = []\<rparr>"

section \<open>Steps\<close>

fun sends :: "conn \<Rightarrow> stream_action list \<Rightarrow> (conn \<times> message) list" where
  "sends c [] = []"
| "sends c (SendMsg m # as) = (c, m) # sends c as"
| "sends c (CloseStream # as) = sends c as"

text \<open>
  \<open>HandleStream\<close> up to the call of \<open>RegisterManager\<close> or of \<open>PushPipeConn\<close>; the other cases are
  one step.
\<close>

definition stream_step :: "int63_source \<Rightarrow> conn \<Rightarrow> reader \<Rightarrow> i64 \<Rightarrow> server_run \<Rightarrow> server_run option" where
  "stream_step src c stream now s =
     (let handled = (case HandleStream src now c stream (the_server s) of
          None \<Rightarrow> None
        | Some (acts, sv) \<Rightarrow> Some (s\<lparr>the_server := sv, answers := answers s @ sends c acts\<rparr>)) in
      case fst (message_Get stream) of
        Inr (MLoginRequest v) \<Rightarrow>
          (if CheckLogin (config (the_server s)) v = None
           then Some (s\<lparr>logins := logins s @ [\<lparr>lg_conn = c, lg_req = v, lg_pc = LFill, lg_done = False\<rparr>]\<rparr>)
           else handled)
      | Inr (MPipeRequest v) \<Rightarrow>
          (case managers (the_server s) (pipeReq_ClientId v) of
             None \<Rightarrow> handled
           | Some m \<Rightarrow>
               Some (s\<lparr>pipes := pipes s @ [\<lparr>pp_conn = c, pp_key = pipeReq_ClientId v, pp_mgr = mconn m, pp_pc = PTest\<rparr>]\<rparr>))
      | _ \<Rightarrow> handled)"

text \<open>
  \<open>PushPipeConn\<close> on the manager it was called for, and what \<open>HandleStream\<close> does with its result:
  on an error the stream is closed; a nil result ends the goroutine, also when it comes from a
  recovered panic and the stream is not in the pool.
\<close>

definition push_step :: "conn \<Rightarrow> pipe_pc \<Rightarrow> manager \<Rightarrow> (pipe_pc \<times> manager) option" where
  "push_step c pc m =
     (case pc of
        PTest \<Rightarrow> Some (if IsClosed m then PClosed else PPush, m)
      | PPush \<Rightarrow>
          (case PushPipeConn_send m c of
             (Some e, m') \<Rightarrow> Some (PClosed, m')
           | (None, m') \<Rightarrow> Some (if ch_buf (pipeConnPool m') = ch_buf (pipeConnPool m) @ [c] then PPooled else PLost, m'))
      | _ \<Rightarrow> None)"

text \<open>\<open>genId\<close>, \<open>RegisterManager\<close> and the answer, one statement at a time.\<close>

definition login_step :: "int63_source \<Rightarrow> i64 \<Rightarrow> conn \<Rightarrow> LoginRequest \<Rightarrow> login_pc \<Rightarrow> server \<Rightarrow>
    (login_pc \<times> server \<times> (conn \<times> message) list) option" where
  "login_step src now c req pc sv =
     (case pc of
        LFill \<Rightarrow>
          (case RandStr8Base62 src (rand_pos sv) (id_buf sv) of (key, p) \<Rightarrow>
             Some (LCopy, sv\<lparr>rand_pos := p, id_buf := key\<rparr>, []))
      | LCopy \<Rightarrow> Some (LTest (id_buf sv), sv, [])
      | LTest key \<Rightarrow> Some (if managers sv key = None then LNew key else LFill, sv, [])
      | LNew key \<Rightarrow> Some (LFile (NewManager key c req now), sv, [])
      | LFile m \<Rightarrow> Some (LReply (ClientId m), sv\<lparr>managers := (managers sv)(ClientId m \<mapsto> m)\<rparr>, [])
      | LReply key \<Rightarrow>
          Some (LServed key, sv, [(c, MLoginResponse \<lparr>loginResp_ClientId = key, loginResp_Result = ''ok''\<rparr>)])
      | LServed key \<Rightarrow> None)"

text \<open>
  \<open>awaitManagerDone\<close> gets the manager that login \<open>i\<close> has started, once.  A manager that
  is not filed yet is closed where it is.  A filed one is \<open>m\<close>: the one in the map, if that
  is this login's.
\<close>

definition done_event :: "nat \<Rightarrow> manager \<Rightarrow> gostring list \<Rightarrow> server_run \<Rightarrow> server_run option" where
  "done_event i m ks s =
     (if i < length (logins s) \<and> \<not> lg_done (logins s ! i) then
        (let l = logins s ! i;
             filed = (\<lambda>key.
               if ClientId m = key \<and> mconn m = lg_conn l \<and>
                  (\<forall>m'. managers (the_server s) key = Some m' \<longrightarrow> mconn m' = lg_conn l \<longrightarrow> m' = m)
               then (case manager_done ks m (the_server s) of
                       Returns (sv, eff) \<Rightarrow> Some (s\<lparr>the_server := sv, logins := (logins s)[i := l\<lparr>lg_done := True\<rparr>]\<rparr>)
                     | _ \<Rightarrow> None)
               else None) in
         case lg_pc l of
           LFile m0 \<Rightarrow>
             (case Manager_Close ks m0 of
                Returns (m1, eff) \<Rightarrow>
                  Some (s\<lparr>the_server := (the_server s)\<lparr>managers := (managers (the_server s))(ClientId m0 := None)\<rparr>,
                          logins := (logins s)[i := l\<lparr>lg_pc := LFile m1, lg_done := True\<rparr>]\<rparr>)
              | _ \<Rightarrow> None)
         | LReply key \<Rightarrow> filed key
         | LServed key \<Rightarrow> filed key
         | _ \<Rightarrow> None)
      else None)"

definition set_manager :: "gostring \<Rightarrow> manager \<Rightarrow> server_run \<Rightarrow> server_run" where
  "set_manager k m s = s\<lparr>the_server := (the_server s)\<lparr>managers := (managers (the_server s))(k \<mapsto> m)\<rparr>\<rparr>"

definition pipe_to :: "nat \<Rightarrow> pipe_pc \<Rightarrow> server_run \<Rightarrow> server_run" where
  "pipe_to i pc s = (let p = pipes s ! i in
     s\<lparr>pipes := (pipes s)[i := p\<lparr>pp_pc := pc\<rparr>],
       pooled := pooled s @ (if pc = PPooled then [(pp_mgr p, pp_conn p)] else [])\<rparr>)"

text \<open>
  A step of a pipe's goroutine.  When its manager has gone from the map, the model has no state
  of that manager and allows each end that the code has (\<open>pc\<close>).
\<close>

definition own_manager :: "pipe_run \<Rightarrow> server \<Rightarrow> manager option" where
  "own_manager p sv =
     (case managers sv (pp_key p) of
        Some m \<Rightarrow> (if mconn m = pp_mgr p then Some m else None)
      | None \<Rightarrow> None)"

fun may_become :: "pipe_pc \<Rightarrow> pipe_pc \<Rightarrow> bool" where
  "may_become PTest pc \<longleftrightarrow> pc = PPush \<or> pc = PClosed"
| "may_become PPush pc \<longleftrightarrow> pc = PPooled \<or> pc = PClosed \<or> pc = PLost"
| "may_become _ pc \<longleftrightarrow> False"

definition pipe_event :: "nat \<Rightarrow> pipe_pc \<Rightarrow> server_run \<Rightarrow> server_run option" where
  "pipe_event i pc s =
     (if i < length (pipes s) then
        (let p = pipes s ! i in
         case own_manager p (the_server s) of
           Some m \<Rightarrow> map_option (\<lambda>(pc', m'). pipe_to i pc' (set_manager (pp_key p) m' s)) (push_step (pp_conn p) (pp_pc p) m)
         | None \<Rightarrow> (if may_become (pp_pc p) pc then Some (pipe_to i pc s) else None))
      else None)"

definition result_of :: "'a outcome \<Rightarrow> 'a option" where
  "result_of x = (case x of Returns v \<Rightarrow> Some v | _ \<Rightarrow> None)"

fun mgr_op_step :: "mgr_op \<Rightarrow> manager \<times> port_state \<Rightarrow> (manager \<times> port_state) option" where
  "mgr_op_step (OpMessage os ks now msg) (m, ps) =
     map_option (\<lambda>(resp, mp, eff). mp) (result_of (handle_message os ks now msg (m, ps)))"
| "mgr_op_step (OpClose ks) (m, ps) = map_option (\<lambda>(m', eff). (m', ps)) (result_of (Manager_Close ks m))"
| "mgr_op_step (OpPing now) (m, ps) = map_option (\<lambda>(t, m'). (m', ps)) (result_of (Ping now m))"
| "mgr_op_step OpPopRequest (m, ps) = map_option (\<lambda>(e, m'). (m', ps)) (result_of (ReqPipeConn m))"
| "mgr_op_step (OpPopReceive timeout) (m, ps) =
     map_option (\<lambda>(r, m'). (m', ps)) (result_of (PopPipeConn_recv timeout m))"
| "mgr_op_step (OpChannels rc sc) (m, ps) =
     (let m' = m\<lparr>recvChan := rc, sendChan := sc\<rparr> in if mgr_inv m' then Some (m', ps) else None)"

text \<open>The pipe that \<open>PopPipeConn\<close> receives.\<close>

fun pop_result :: "mgr_op \<Rightarrow> manager \<Rightarrow> conn list" where
  "pop_result (OpPopReceive timeout) m = (case PopPipeConn_recv timeout m of Returns (Inr c, m') \<Rightarrow> [c] | _ \<Rightarrow> [])"
| "pop_result _ m = []"

text \<open>The stream of a new event is one that no login and no pipe has.\<close>

fun server_step :: "int63_source \<Rightarrow> server_event \<Rightarrow> server_run \<Rightarrow> server_run option" where
  "server_step src (EvStream c stream now) s =
     (if c \<in> lg_conn ` set (logins s) \<union> pp_conn ` set (pipes s) then None else stream_step src c stream now s)"
| "server_step src (EvLoginStep i now) s =
     (if i < length (logins s) then
        (case login_step src now (lg_conn (logins s ! i)) (lg_req (logins s ! i)) (lg_pc (logins s ! i)) (the_server s) of
           None \<Rightarrow> None
         | Some (pc, sv, ms) \<Rightarrow>
             Some (s\<lparr>the_server := sv, logins := (logins s)[i := (logins s ! i)\<lparr>lg_pc := pc\<rparr>], answers := answers s @ ms\<rparr>))
      else None)"
| "server_step src (EvManagerDone i m ks) s = done_event i m ks s"
| "server_step src (EvManager k op) s =
     (case managers (the_server s) k of
        None \<Rightarrow> None
      | Some m \<Rightarrow>
          (case mgr_op_step op (m, ports (the_server s)) of
             None \<Rightarrow> None
           | Some (m', ports') \<Rightarrow>
               Some (set_manager k m' (s\<lparr>the_server := (the_server s)\<lparr>ports := ports'\<rparr>,
                 handed := handed s @ map (Pair (mconn m)) (pop_result op m)\<rparr>))))"
| "server_step src (EvPipeStep i pc) s = pipe_event i pc s"

section \<open>The invariant of a run\<close>

definition id_key :: "gostring \<Rightarrow> bool" where
  "id_key k \<longleftrightarrow> length k = 8 \<and> set k \<subseteq> set base62"

text \<open>What holds of a login on its way, given the buffer of \<open>RandStr8Base62\<close>.\<close>

fun pc_ok :: "server_config \<Rightarrow> gostring \<Rightarrow> login_pc \<Rightarrow> bool" where
  "pc_ok cfg buf LFill = True"
| "pc_ok cfg buf LCopy = id_key buf"
| "pc_ok cfg buf (LTest key) = id_key key"
| "pc_ok cfg buf (LNew key) = id_key key"
| "pc_ok cfg buf (LFile m) \<longleftrightarrow> listed cfg (ClientId m) m \<and> ch_buf (pipeConnPool m) = []"
| "pc_ok cfg buf (LReply key) = id_key key"
| "pc_ok cfg buf (LServed key) = id_key key"

definition login_ok :: "server_config \<Rightarrow> gostring \<Rightarrow> login_run \<Rightarrow> bool" where
  "login_ok cfg buf l \<longleftrightarrow> CheckLogin cfg (lg_req l) = None \<and> pc_ok cfg buf (lg_pc l)"

text \<open>Who has logged in on which stream: this never changes.\<close>

definition users :: "server_run \<Rightarrow> (conn \<times> LoginRequest) set" where
  "users s = (\<lambda>l. (lg_conn l, lg_req l)) ` set (logins s)"

text \<open>An "ok" goes to a stream on which the authentication code came.\<close>

definition answer_ok :: "server_config \<Rightarrow> (conn \<times> LoginRequest) set \<Rightarrow> conn \<times> message \<Rightarrow> bool" where
  "answer_ok cfg us a \<longleftrightarrow>
     (\<forall>r. snd a = MLoginResponse r \<longrightarrow> loginResp_Result r = ''ok'' \<longrightarrow>
        id_key (loginResp_ClientId r) \<and> (\<exists>v. (fst a, v) \<in> us \<and> login_AuthCode v = cfg_AuthCode cfg))"

definition server_run_inv :: "server_config \<Rightarrow> server_run \<Rightarrow> bool" where
  "server_run_inv cfg s \<longleftrightarrow>
     config (the_server s) = cfg \<and> server_inv (the_server s) \<and>
     (\<forall>l \<in> set (logins s). login_ok cfg (id_buf (the_server s)) l) \<and>
     (\<forall>a \<in> set (answers s). answer_ok cfg (users s) a)"

definition server_init :: "server_config \<Rightarrow> server_run \<Rightarrow> bool" where
  "server_init cfg s \<longleftrightarrow> (\<exists>perms sv. NewServer perms cfg = Returns sv \<and> s = serve sv)"

lemma NewServer_config: "NewServer perms cfg = Returns sv \<Longrightarrow> config sv = cfg"
  by (auto simp: NewServer_def split: outcome.splits)

lemma server_run_inv_init: "server_init cfg s \<Longrightarrow> server_run_inv cfg s"
  using NewServer_config server_inv_New by (auto simp: server_init_def server_run_inv_def serve_def)

lemma users_update:
  assumes "i < length (logins s)" "lg_conn l = lg_conn (logins s ! i)" "lg_req l = lg_req (logins s ! i)"
    "logins t = (logins s)[i := l]"
  shows "users t = users s"
proof -
  let ?f = "\<lambda>l. (lg_conn l, lg_req l)"
  have "map ?f ((logins s)[i := l]) = (map ?f (logins s))[i := ?f (logins s ! i)]"
    using assms(2,3) by (simp add: map_update)
  also have "\<dots> = map ?f (logins s)"
    using assms(1) list_update_id [of "map ?f (logins s)" i] by simp
  finally show ?thesis unfolding users_def set_map [symmetric] assms(4) by (rule arg_cong)
qed

text \<open>Changing the server and nothing else.\<close>

lemma server_run_inv_srv:
  "server_run_inv cfg s \<Longrightarrow> config sv = cfg \<Longrightarrow> server_inv sv \<Longrightarrow> id_buf sv = id_buf (the_server s) \<Longrightarrow>
   server_run_inv cfg (s\<lparr>the_server := sv\<rparr>)"
  by (simp add: server_run_inv_def users_def)

text \<open>Moving a login on.\<close>

lemma server_run_inv_login:
  assumes "server_run_inv cfg s" "i < length (logins s)" "config sv = cfg" "server_inv sv"
    "id_buf sv = id_buf (the_server s) \<or> id_key (id_buf sv)"
    "pc_ok cfg (id_buf sv) pc" "\<forall>a \<in> set as. answer_ok cfg (users s) a"
  shows "server_run_inv cfg (s\<lparr>the_server := sv, logins := (logins s)[i := (logins s ! i)\<lparr>lg_pc := pc, lg_done := d\<rparr>],
    answers := answers s @ as\<rparr>)"
proof -
  let ?t = "s\<lparr>the_server := sv, logins := (logins s)[i := (logins s ! i)\<lparr>lg_pc := pc, lg_done := d\<rparr>], answers := answers s @ as\<rparr>"
  have u: "users ?t = users s" using assms(2) by (rule users_update) simp_all
  have ok: "login_ok cfg (id_buf sv) l" if "l \<in> set (logins s)" for l
  proof -
    have "login_ok cfg (id_buf (the_server s)) l" using assms(1) that by (simp add: server_run_inv_def)
    with assms(5) show ?thesis by (cases "lg_pc l") (auto simp: login_ok_def)
  qed
  have "login_ok cfg (id_buf sv) l" if "l \<in> set (logins ?t)" for l
  proof -
    from that have "l = (logins s ! i)\<lparr>lg_pc := pc, lg_done := d\<rparr> \<or> l \<in> set (logins s)"
      using set_update_subset_insert [of "logins s" i] by auto
    with ok [OF nth_mem [OF assms(2)]] ok assms(6) show ?thesis by (auto simp: login_ok_def)
  qed
  with u assms show ?thesis by (auto simp: server_run_inv_def)
qed

section \<open>Every step keeps it\<close>

lemma listed_New:
  "CheckLogin cfg v = None \<Longrightarrow> id_key k \<Longrightarrow> listed cfg k (NewManager k c v now)"
  using mgr_inv_New [of k c v now]
  by (auto simp: listed_def id_key_def CheckLogin_def CheckLegal_eq NewManager_def split: if_splits)

lemma server_inv_file:
  "server_inv sv \<Longrightarrow> listed (config sv) k m \<Longrightarrow> server_inv (sv\<lparr>managers := (managers sv)(k \<mapsto> m)\<rparr>)"
  by (simp add: server_inv_def)

lemma server_inv_forget: "server_inv sv \<Longrightarrow> server_inv (sv\<lparr>managers := (managers sv)(k := None)\<rparr>)"
  by (simp add: server_inv_def)

text \<open>What no operation of a manager changes; a closed one stays closed.\<close>

definition same_client :: "manager \<Rightarrow> manager \<Rightarrow> bool" where
  "same_client m m' \<longleftrightarrow>
     ClientId m' = ClientId m \<and> Tag m' = Tag m \<and> Meta m' = Meta m \<and> PoolSize m' = PoolSize m \<and>
     mconn m' = mconn m \<and> (closed m \<longrightarrow> closed m')"

lemma same_client_Close: "Manager_Close ks m = Returns (m', eff) \<Longrightarrow> same_client m m'"
  by (auto simp: Manager_Close_def Close_body_def IsClosed_def chan_close_def Let_def same_client_def
      split: if_splits)

lemma Close_pool: "Manager_Close ks m = Returns (m', eff) \<Longrightarrow> ch_buf (pipeConnPool m') = ch_buf (pipeConnPool m)"
  by (auto simp: Manager_Close_def Close_body_def IsClosed_def chan_close_def Let_def split: if_splits)

lemma same_client_SendMassage: "SendMassage m msg = Returns (e, m') \<Longrightarrow> same_client m m'"
  by (auto simp: SendMassage_def SendMassage_send_def same_client_def split: if_splits outcome.splits)

lemma same_client_RegisterProxy:
  "RegisterProxy os v (m, ps) = Returns (r, (m', ps'), eff) \<Longrightarrow> same_client m m'"
  by (auto simp: RegisterProxy_def Let_def same_client_def split: outcome.splits prod.splits sum.splits)

lemma same_client_handle_message:
  "handle_message os ks now msg (m, ps) = Returns (r, (m', ps'), eff) \<Longrightarrow> same_client m m'"
  using same_client_RegisterProxy
  by (cases msg) (fastforce simp: handle_message_def same_client_def RemoveProxy_def ListProxies_def Let_def
      split: if_splits outcome.splits option.splits prod.splits)+

lemma same_client_PushPipeConn: "PushPipeConn m c = (e, m') \<Longrightarrow> same_client m m'"
  by (auto simp: PushPipeConn_def PushPipeConn_send_def same_client_def split: if_splits outcome.splits option.splits)

text \<open>The \<open>select\<close> on the pool: nothing happens to a closed one, and there is no error.\<close>

lemma PushPipeConn_send_cases:
  assumes "mgr_inv m"
  shows "PushPipeConn_send m c =
    (if closed m then (None, m)
     else if nat (PoolSize m * 2) \<le> length (ch_buf (pipeConnPool m)) then (Some ErrPoolFull, m)
     else (None, m\<lparr>pipeConnPool := (pipeConnPool m)\<lparr>ch_buf := ch_buf (pipeConnPool m) @ [c]\<rparr>\<rparr>))"
proof (cases "closed m")
  case True
  with assms have "ch_closed (pipeConnPool m)" by (simp add: mgr_inv_def)
  with True show ?thesis by (simp add: PushPipeConn_send_def chan_try_send_def chan_send_def)
next
  case False
  then show ?thesis using PushPipeConn_cases [OF assms, of c] by (simp add: PushPipeConn_def IsClosed_def)
qed

lemma push_step_cases:
  assumes "push_step c pc m = Some (pc', m')" "mgr_inv m"
  obtains (pooled) "pc = PPush" "pc' = PPooled" "\<not> closed m"
      "m' = m\<lparr>pipeConnPool := (pipeConnPool m)\<lparr>ch_buf := ch_buf (pipeConnPool m) @ [c]\<rparr>\<rparr>" "PushPipeConn m c = (None, m')"
    | (lost) "pc = PPush" "pc' = PLost" "closed m" "m' = m"
    | (still) "pc = PTest \<or> pc = PPush" "pc' = PPush \<or> pc' = PClosed" "m' = m"
proof (cases "pc = PPush")
  case True
  with assms(1) show thesis
    using PushPipeConn_cases [OF assms(2), of c] pooled lost still
    by (auto simp: push_step_def PushPipeConn_send_cases [OF assms(2)] split: if_splits)
next
  case False
  with assms(1) still show thesis by (auto simp: push_step_def split: pipe_pc.splits if_splits)
qed

text \<open>Left alone, the two steps are \<open>PushPipeConn\<close>: the stream is in the pool or closed.\<close>

lemma push_steps_PushPipeConn:
  assumes "mgr_inv m"
  shows "(case push_step c PTest m of Some (PPush, m1) \<Rightarrow> push_step c PPush m1 | r \<Rightarrow> r) =
    Some (case PushPipeConn m c of (None, m') \<Rightarrow> (PPooled, m') | (Some e, m') \<Rightarrow> (PClosed, m'))"
  by (simp add: push_step_def IsClosed_def PushPipeConn_cases [OF assms] PushPipeConn_send_cases [OF assms])

lemma same_client_push_step: "push_step c pc m = Some (pc', m') \<Longrightarrow> same_client m m'"
  by (auto simp: push_step_def PushPipeConn_send_def same_client_def split: pipe_pc.splits prod.splits option.splits
      outcome.splits if_splits)

lemma push_step_keeps:
  assumes "push_step c pc m = Some (pc', m')" "mgr_inv m"
  shows "same_client m m' \<and> mgr_inv m'"
  using assms
proof (cases rule: push_step_cases)
  case pooled
  then show ?thesis using same_client_PushPipeConn mgr_inv_PushPipeConn [OF assms(2)] by blast
qed (use assms(2) in \<open>simp_all add: same_client_def\<close>)

lemma same_client_PopPipeConn_recv: "PopPipeConn_recv t m = Returns (r, m') \<Longrightarrow> same_client m m'"
  by (auto simp: PopPipeConn_recv_def same_client_def split: if_splits outcome.splits option.splits)

lemma result_of_Some: "result_of x = Some v \<longleftrightarrow> x = Returns v"
  by (auto simp: result_of_def split: outcome.splits)

lemma mgr_op_keeps:
  assumes "mgr_op_step op (m, ps) = Some (m', ps')"
  shows "same_client m m' \<and> (mgr_inv m \<longrightarrow> mgr_inv m')"
proof (cases op)
  case (OpMessage os ks now msg)
  then obtain r eff where "handle_message os ks now msg (m, ps) = Returns (r, (m', ps'), eff)"
    using assms by (auto simp: result_of_Some)
  then show ?thesis using same_client_handle_message mgr_inv_handle_message by blast
next
  case (OpClose ks)
  then obtain eff where "Manager_Close ks m = Returns (m', eff)" using assms by (auto simp: result_of_Some)
  then show ?thesis using same_client_Close mgr_inv_Close by blast
next
  case (OpPing now)
  then obtain e where "SendMassage m (MHeartbeatRequest \<lparr>hbReq_Timestamp = now\<rparr>) = Returns (e, m')"
    using assms by (auto simp: result_of_Some Ping_def split: outcome.splits)
  then show ?thesis using same_client_SendMassage mgr_inv_SendMassage by blast
next
  case OpPopRequest
  then obtain e where "ReqPipeConn m = Returns (e, m')" using assms by (auto simp: result_of_Some)
  then show ?thesis using same_client_SendMassage mgr_inv_SendMassage unfolding ReqPipeConn_def by blast
next
  case (OpPopReceive t)
  then obtain r where "PopPipeConn_recv t m = Returns (r, m')" using assms by (auto simp: result_of_Some)
  then show ?thesis using same_client_PopPipeConn_recv mgr_inv_PopPipeConn_recv by blast
qed (use assms in \<open>auto simp: Let_def same_client_def split: if_splits\<close>)

lemma listed_same:
  "listed cfg k m \<Longrightarrow> same_client m m' \<Longrightarrow> (mgr_inv m \<Longrightarrow> mgr_inv m') \<Longrightarrow> listed cfg k m'"
  by (simp add: listed_def same_client_def)

lemma login_step_inv:
  assumes "login_step src now c req pc sv = Some (pc', sv', as)" "server_inv sv" "config sv = cfg"
    "CheckLogin cfg req = None" "pc_ok cfg (id_buf sv) pc" "(c, req) \<in> us"
  shows "config sv' = cfg \<and> server_inv sv' \<and> (id_buf sv' = id_buf sv \<or> id_key (id_buf sv')) \<and>
    pc_ok cfg (id_buf sv') pc' \<and> (\<forall>a \<in> set as. answer_ok cfg us a)"
proof (cases pc)
  case LFill
  have b: "length (id_buf sv) = 8" using assms(2) by (simp add: server_inv_def)
  show ?thesis using assms LFill RandStr8Base62_key [OF b, of src "rand_pos sv"]
    by (auto simp: login_step_def server_inv_def id_key_def)
next
  case (LNew key)
  with assms listed_New show ?thesis by (auto simp: login_step_def NewManager_def make_chan_def)
next
  case (LFile m)
  with assms server_inv_file show ?thesis by (auto simp: login_step_def listed_def id_key_def)
next
  case (LReply key)
  have "login_AuthCode req = cfg_AuthCode cfg" using assms(4) by (simp add: CheckLogin_def split: if_splits)
  with assms LReply show ?thesis by (auto simp: login_step_def answer_ok_def)
qed (use assms in \<open>auto simp: login_step_def split: if_splits\<close>)

lemma server_run_inv_set_manager:
  assumes "server_run_inv cfg s" "listed cfg k m"
  shows "server_run_inv cfg (set_manager k m s)"
  using assms by (auto simp: server_run_inv_def set_manager_def users_def intro: server_inv_file)

text \<open>\<open>HandleStream\<close> without a login answers "ok" to nobody and draws no id.\<close>

lemma HandleStream_no_login:
  assumes "HandleStream src now c stream sv = Some (acts, sv')"
    "\<forall>v. fst (message_Get stream) = Inr (MLoginRequest v) \<longrightarrow> CheckLogin (config sv) v \<noteq> None"
  shows "config sv' = config sv \<and> id_buf sv' = id_buf sv \<and> (\<forall>a \<in> set (sends c acts). answer_ok cfg us a)"
proof (cases "fst (message_Get stream)")
  case (Inl e)
  with assms(1) show ?thesis by (simp add: HandleStream_def) (auto simp: answer_ok_def)
next
  case (Inr msg)
  then show ?thesis
    using assms
    by (cases msg) (fastforce simp: HandleStream_def answer_ok_def split: option.splits prod.splits)+
qed

lemma HandleStream_managers:
  assumes "HandleStream src now c stream sv = Some (acts, sv')"
    "\<forall>v. fst (message_Get stream) = Inr (MLoginRequest v) \<longrightarrow> CheckLogin (config sv) v \<noteq> None"
    "\<forall>v. fst (message_Get stream) = Inr (MPipeRequest v) \<longrightarrow> managers sv (pipeReq_ClientId v) = None"
  shows "sv' = sv"
  using assms
  by (auto simp: HandleStream_def split: option.splits prod.splits sum.splits message.splits)

text \<open>A stream makes a new login or a new pipe, or is handled at once.\<close>

lemma stream_step_cases:
  assumes "stream_step src c stream now s = Some t"
  obtains (login) v where "t = s\<lparr>logins := logins s @ [\<lparr>lg_conn = c, lg_req = v, lg_pc = LFill, lg_done = False\<rparr>]\<rparr>"
      "CheckLogin (config (the_server s)) v = None"
    | (pipe) k m where "managers (the_server s) k = Some m"
        "t = s\<lparr>pipes := pipes s @ [\<lparr>pp_conn = c, pp_key = k, pp_mgr = mconn m, pp_pc = PTest\<rparr>]\<rparr>"
    | (handled) acts where "HandleStream src now c stream (the_server s) = Some (acts, the_server s)"
        "t = s\<lparr>answers := answers s @ sends c acts\<rparr>"
        "\<forall>v. fst (message_Get stream) = Inr (MLoginRequest v) \<longrightarrow> CheckLogin (config (the_server s)) v \<noteq> None"
proof -
  consider (a) v where "fst (message_Get stream) = Inr (MLoginRequest v)" "CheckLogin (config (the_server s)) v = None"
    | (b) v m where "fst (message_Get stream) = Inr (MPipeRequest v)" "managers (the_server s) (pipeReq_ClientId v) = Some m"
    | (c) "\<forall>v. fst (message_Get stream) = Inr (MLoginRequest v) \<longrightarrow> CheckLogin (config (the_server s)) v \<noteq> None"
        "\<forall>v. fst (message_Get stream) = Inr (MPipeRequest v) \<longrightarrow> managers (the_server s) (pipeReq_ClientId v) = None"
    by (metis option.exhaust)
  then show thesis
  proof cases
    case a
    with assms show ?thesis by (intro login) (auto simp: stream_step_def)
  next
    case b
    with assms show ?thesis by (intro pipe) (auto simp: stream_step_def Let_def)
  next
    case c
    then obtain acts sv where h: "HandleStream src now c stream (the_server s) = Some (acts, sv)"
      "t = s\<lparr>the_server := sv, answers := answers s @ sends c acts\<rparr>"
      using assms by (auto simp: stream_step_def Let_def split: option.splits sum.splits message.splits)
    from HandleStream_managers [OF h(1) c] h show ?thesis by (intro handled [OF _ _ c(1)]) auto
  qed
qed

text \<open>A pipe's goroutine works on its manager in the map, or that manager has gone.\<close>

lemma own_manager_Some: "own_manager p sv = Some m \<longleftrightarrow> managers sv (pp_key p) = Some m \<and> mconn m = pp_mgr p"
  by (auto simp: own_manager_def split: option.splits)

lemma pipe_event_cases:
  assumes "pipe_event i pc s = Some t"
  obtains (own) m pc' m' where "i < length (pipes s)" "managers (the_server s) (pp_key (pipes s ! i)) = Some m"
      "mconn m = pp_mgr (pipes s ! i)"
      "push_step (pp_conn (pipes s ! i)) (pp_pc (pipes s ! i)) m = Some (pc', m')"
      "t = pipe_to i pc' (set_manager (pp_key (pipes s ! i)) m' s)"
    | (gone) "i < length (pipes s)" "own_manager (pipes s ! i) (the_server s) = None"
        "may_become (pp_pc (pipes s ! i)) pc" "t = pipe_to i pc s"
  using assms
  by (auto simp: pipe_event_def Let_def own_manager_Some split: option.splits if_splits)

lemma pipe_to_simps [simp]:
  "the_server (pipe_to i pc s) = the_server s" "logins (pipe_to i pc s) = logins s" "answers (pipe_to i pc s) = answers s"
  "handed (pipe_to i pc s) = handed s" "users (pipe_to i pc s) = users s"
  by (simp_all add: pipe_to_def Let_def users_def)

lemma stream_step_inv:
  assumes "server_run_inv cfg s" "stream_step src c stream now s = Some t"
  shows "server_run_inv cfg t"
  using assms(2)
proof (cases rule: stream_step_cases)
  case (login v)
  have "users t = insert (c, v) (users s)" by (auto simp: login(1) users_def)
  moreover have "answer_ok cfg (insert (c, v) (users s)) a" if "answer_ok cfg (users s) a" for a
    using that by (auto simp: answer_ok_def)
  ultimately show ?thesis using assms(1) login(2)
    by (auto simp: server_run_inv_def login_ok_def login(1))
next
  case (pipe k m)
  with assms(1) show ?thesis by (simp add: server_run_inv_def users_def)
next
  case (handled acts)
  note k = HandleStream_no_login [OF handled(1,3), of cfg "users s"]
  with assms(1) handled(2) show ?thesis by (auto simp: server_run_inv_def users_def)
qed

lemma pipe_event_inv:
  assumes "server_run_inv cfg s" "pipe_event i pc s = Some t"
  shows "server_run_inv cfg t"
  using assms(2)
proof (cases rule: pipe_event_cases)
  case (own m pc' m')
  have m: "listed cfg (pp_key (pipes s ! i)) m" using assms(1) own(2) server_inv_listed by (auto simp: server_run_inv_def)
  then have "mgr_inv m" by (simp add: listed_def)
  from listed_same [OF m] push_step_keeps [OF own(4) this] have "listed cfg (pp_key (pipes s ! i)) m'" by blast
  from server_run_inv_set_manager [OF assms(1) this] show ?thesis by (simp add: own(5) server_run_inv_def)
next
  case gone
  with assms(1) show ?thesis by (simp add: server_run_inv_def)
qed

lemma done_event_inv:
  assumes "server_run_inv cfg s" "done_event i m ks s = Some t"
  shows "server_run_inv cfg t"
proof -
  let ?l = "logins s ! i"
  have i: "i < length (logins s)" using assms(2) by (simp add: done_event_def split: if_splits)
  have inv: "config (the_server s) = cfg" "server_inv (the_server s)" "login_ok cfg (id_buf (the_server s)) ?l"
    using assms(1) nth_mem [OF i] by (auto simp: server_run_inv_def)
  have move: "server_run_inv cfg (s\<lparr>the_server := sv, logins := (logins s)[i := ?l\<lparr>lg_pc := pc, lg_done := True\<rparr>]\<rparr>)"
    if "config sv = cfg" "server_inv sv" "id_buf sv = id_buf (the_server s)" "pc_ok cfg (id_buf sv) pc" for sv pc
    using server_run_inv_login [OF assms(1) i that(1,2) _ that(4), of "[]" True] that(3) by simp
  have filed: "server_run_inv cfg (s\<lparr>the_server := sv, logins := (logins s)[i := ?l\<lparr>lg_done := True\<rparr>]\<rparr>)"
    if d: "manager_done ks m (the_server s) = Returns (sv, eff)" for sv eff
  proof -
    have "sv = (the_server s)\<lparr>managers := (managers (the_server s))(ClientId m := None)\<rparr>"
      using d by (auto simp: manager_done_def Let_def split: outcome.splits)
    moreover have "?l\<lparr>lg_pc := lg_pc ?l, lg_done := True\<rparr> = ?l\<lparr>lg_done := True\<rparr>" by simp
    ultimately show ?thesis
      using move [of sv "lg_pc ?l"] inv server_inv_forget by (simp add: login_ok_def)
  qed
  show ?thesis
  proof (cases "lg_pc ?l")
    case (LFile m0)
    then obtain m1 eff where c: "Manager_Close ks m0 = Returns (m1, eff)"
      "t = s\<lparr>the_server := (the_server s)\<lparr>managers := (managers (the_server s))(ClientId m0 := None)\<rparr>,
             logins := (logins s)[i := ?l\<lparr>lg_pc := LFile m1, lg_done := True\<rparr>]\<rparr>"
      using assms(2) by (auto simp: done_event_def Let_def split: outcome.splits if_splits)
    have "listed cfg (ClientId m0) m0" "ch_buf (pipeConnPool m1) = []"
      using inv(3) LFile Close_pool [OF c(1)] by (simp_all add: login_ok_def)
    from this(1) have "listed cfg (ClientId m0) m1"
      using same_client_Close [OF c(1)] mgr_inv_Close [OF _ c(1)] by (auto simp: listed_def same_client_def)
    with \<open>ch_buf (pipeConnPool m1) = []\<close> have "pc_ok cfg (id_buf (the_server s)) (LFile m1)"
      by (auto simp: listed_def)
    then show ?thesis unfolding c(2) using inv server_inv_forget by (intro move) simp_all
  next
    case (LReply key)
    with assms(2) show ?thesis
      by (auto simp: done_event_def Let_def intro: filed split: outcome.splits if_splits)
  next
    case (LServed key)
    with assms(2) show ?thesis
      by (auto simp: done_event_def Let_def intro: filed split: outcome.splits if_splits)
  qed (use assms(2) in \<open>auto simp: done_event_def Let_def split: if_splits\<close>)
qed

lemma server_step_inv:
  assumes "server_run_inv cfg s" "server_step src e s = Some t"
  shows "server_run_inv cfg t"
proof (cases e)
  case (EvStream c stream now)
  with assms show ?thesis by (auto intro: stream_step_inv split: if_splits)
next
  case (EvLoginStep i now)
  let ?l = "logins s ! i"
  have i: "i < length (logins s)" using assms(2) EvLoginStep by (simp split: if_splits)
  obtain pc sv as where st: "login_step src now (lg_conn ?l) (lg_req ?l) (lg_pc ?l) (the_server s) = Some (pc, sv, as)"
    "t = s\<lparr>the_server := sv, logins := (logins s)[i := ?l\<lparr>lg_pc := pc\<rparr>], answers := answers s @ as\<rparr>"
    using assms(2) EvLoginStep by (auto split: if_splits option.splits)
  have "login_ok cfg (id_buf (the_server s)) ?l" "(lg_conn ?l, lg_req ?l) \<in> users s"
    using assms(1) nth_mem [OF i] by (auto simp: server_run_inv_def users_def)
  with assms(1) login_step_inv [OF st(1), of cfg "users s"]
  have "config sv = cfg \<and> server_inv sv \<and> (id_buf sv = id_buf (the_server s) \<or> id_key (id_buf sv)) \<and>
    pc_ok cfg (id_buf sv) pc \<and> (\<forall>a \<in> set as. answer_ok cfg (users s) a)"
    by (simp add: server_run_inv_def login_ok_def)
  moreover have "?l\<lparr>lg_pc := pc, lg_done := lg_done ?l\<rparr> = ?l\<lparr>lg_pc := pc\<rparr>" by simp
  ultimately show ?thesis
    using server_run_inv_login [OF assms(1) i, of sv pc as "lg_done ?l"] by (simp add: st(2))
next
  case (EvManagerDone i m ks)
  with assms show ?thesis by (auto intro: done_event_inv)
next
  case (EvManager k op)
  then obtain m m' ps where m: "managers (the_server s) k = Some m" "mgr_op_step op (m, ports (the_server s)) = Some (m', ps)"
    "t = set_manager k m' (s\<lparr>the_server := (the_server s)\<lparr>ports := ps\<rparr>,
      handed := handed s @ map (Pair (mconn m)) (pop_result op m)\<rparr>)"
    using assms(2) by (auto split: option.splits)
  have "listed cfg k m" using assms(1) m(1) server_inv_listed by (auto simp: server_run_inv_def)
  then have "listed cfg k m'" using mgr_op_keeps [OF m(2)] listed_same by blast
  moreover have "server_run_inv cfg (s\<lparr>the_server := (the_server s)\<lparr>ports := ps\<rparr>,
      handed := handed s @ map (Pair (mconn m)) (pop_result op m)\<rparr>)"
    using assms(1) by (auto simp: server_run_inv_def server_inv_def users_def)
  ultimately show ?thesis unfolding m(3) by (intro server_run_inv_set_manager)
next
  case (EvPipeStep i pc)
  with assms show ?thesis by (auto intro: pipe_event_inv)
qed

interpretation servers: invariant_system "server_init cfg" "server_step src" "server_run_inv cfg" for cfg src
  by unfold_locales (auto intro: server_run_inv_init server_step_inv)

section \<open>A login that is left alone\<close>

text \<open>\<open>s\<close> with one more login, and with the server and the answers it has produced.\<close>

definition with_login :: "server_run \<Rightarrow> conn \<Rightarrow> LoginRequest \<Rightarrow> login_pc \<Rightarrow> server \<Rightarrow> (conn \<times> message) list \<Rightarrow> server_run" where
  "with_login s c v pc sv as =
     s\<lparr>the_server := sv, logins := logins s @ [\<lparr>lg_conn = c, lg_req = v, lg_pc = pc, lg_done = False\<rparr>],
       answers := answers s @ as\<rparr>"

lemma with_login_step:
  "login_step src now c v pc sv = Some (pc', sv', as') \<Longrightarrow>
   server_step src (EvLoginStep (length (logins s)) now) (with_login s c v pc sv as) =
     Some (with_login s c v pc' sv' (as @ as'))"
  by (simp add: with_login_def)

lemma replicate_Suc_run:
  "step e s = Some t \<Longrightarrow> exec step (replicate n e) t = r \<Longrightarrow> exec step (replicate (Suc n) e) s = r"
  by simp

lemma genId_steps:
  "genId_loop mgrs src p buf = Some r \<Longrightarrow> mgrs = managers sv \<Longrightarrow> p = rand_pos sv \<Longrightarrow> buf = id_buf sv \<Longrightarrow>
   \<exists>n. exec (server_step src) (replicate n (EvLoginStep (length (logins s)) now)) (with_login s c v LFill sv as) =
     Some (with_login s c v (LNew (fst r)) (sv\<lparr>rand_pos := snd r, id_buf := fst r\<rparr>) as)"
proof (induction arbitrary: sv rule: genId_loop.raw_induct [rotated, consumes 1, case_names step])
  case (step f mgrs src p buf r)
  let ?e = "EvLoginStep (length (logins s)) now"
  obtain key q where k: "RandStr8Base62 src p buf = (key, q)" by fastforce
  let ?sv = "sv\<lparr>rand_pos := q, id_buf := key\<rparr>"
  let ?next = "if managers sv key = None then LNew key else LFill"
  have three: "exec (server_step src) (replicate (Suc (Suc (Suc n))) ?e) (with_login s c v LFill sv as) =
      exec (server_step src) (replicate n ?e) (with_login s c v ?next ?sv as)" for n
  proof (intro replicate_Suc_run)
    show "server_step src ?e (with_login s c v LFill sv as) = Some (with_login s c v LCopy ?sv as)"
      using with_login_step [where pc = LFill and as' = "[]"] k step.prems by (simp add: login_step_def)
    show "server_step src ?e (with_login s c v LCopy ?sv as) = Some (with_login s c v (LTest key) ?sv as)"
      using with_login_step [where pc = LCopy and as' = "[]"] by (simp add: login_step_def)
    show "server_step src ?e (with_login s c v (LTest key) ?sv as) = Some (with_login s c v ?next ?sv as)"
      using with_login_step [where pc = "LTest key" and as' = "[]" and sv = ?sv and pc' = ?next]
      by (simp add: login_step_def)
  qed simp
  show ?case
  proof (cases "managers sv key = None")
    case True
    with step.hyps step.prems k have "r = (key, q)" by simp
    with three [of 0] True show ?thesis by (intro exI [of _ 3]) (simp add: numeral_3_eq_3)
  next
    case False
    with step.hyps step.prems k have "f mgrs src q key = Some r" by (auto split: if_splits)
    from step.IH [OF this, of ?sv] step.prems obtain n where
      "exec (server_step src) (replicate n ?e) (with_login s c v LFill ?sv as) =
        Some (with_login s c v (LNew (fst r)) (sv\<lparr>rand_pos := snd r, id_buf := fst r\<rparr>) as)" by auto
    with three [of n] False show ?thesis by (intro exI [of _ "Suc (Suc (Suc n))"]) simp
  qed
qed

text \<open>The three steps after the id is found.\<close>

lemma login_finishes:
  "exec (server_step src) (replicate 3 (EvLoginStep (length (logins s)) now)) (with_login s c v (LNew key) sv as) =
   Some (with_login s c v (LServed key) (sv\<lparr>managers := (managers sv)(key \<mapsto> NewManager key c v now)\<rparr>)
     (as @ [(c, MLoginResponse \<lparr>loginResp_ClientId = key, loginResp_Result = ''ok''\<rparr>)]))"
proof -
  let ?m = "NewManager key c v now"
  have id: "ClientId ?m = key" by (simp add: NewManager_def)
  have "exec (server_step src) (replicate (Suc (Suc (Suc 0))) (EvLoginStep (length (logins s)) now))
      (with_login s c v (LNew key) sv as) =
    Some (with_login s c v (LServed key) (sv\<lparr>managers := (managers sv)(key \<mapsto> ?m)\<rparr>)
      (as @ [(c, MLoginResponse \<lparr>loginResp_ClientId = key, loginResp_Result = ''ok''\<rparr>)]))"
  proof (intro replicate_Suc_run)
    show "server_step src (EvLoginStep (length (logins s)) now) (with_login s c v (LNew key) sv as) =
        Some (with_login s c v (LFile ?m) sv as)"
      using with_login_step [where pc = "LNew key" and as' = "[]"] by (simp add: login_step_def)
    show "server_step src (EvLoginStep (length (logins s)) now) (with_login s c v (LFile ?m) sv as) =
        Some (with_login s c v (LReply key) (sv\<lparr>managers := (managers sv)(key \<mapsto> ?m)\<rparr>) as)"
      using with_login_step [where pc = "LFile ?m" and as' = "[]"] id by (simp add: login_step_def)
    show "server_step src (EvLoginStep (length (logins s)) now)
        (with_login s c v (LReply key) (sv\<lparr>managers := (managers sv)(key \<mapsto> ?m)\<rparr>) as) =
        Some (with_login s c v (LServed key) (sv\<lparr>managers := (managers sv)(key \<mapsto> ?m)\<rparr>)
          (as @ [(c, MLoginResponse \<lparr>loginResp_ClientId = key, loginResp_Result = ''ok''\<rparr>)]))"
      by (rule with_login_step) (simp add: login_step_def)
  qed simp
  then show ?thesis by (simp add: numeral_3_eq_3)
qed

section \<open>A manager that is closed before it is filed\<close>

text \<open>
  Under \<open>k\<close> a closed manager is filed, and no login is about to file another one there or
  has one there that is not done yet.
\<close>

definition not_at :: "gostring \<Rightarrow> login_run \<Rightarrow> bool" where
  "not_at k l \<longleftrightarrow>
     lg_pc l \<noteq> LNew k \<and> (\<forall>m. lg_pc l = LFile m \<longrightarrow> ClientId m \<noteq> k) \<and>
     (lg_pc l = LReply k \<or> lg_pc l = LServed k \<longrightarrow> lg_done l)"

definition dead_manager :: "gostring \<Rightarrow> server_run \<Rightarrow> bool" where
  "dead_manager k s \<longleftrightarrow>
     (\<exists>m. managers (the_server s) k = Some m \<and> closed m \<and> ClientId m = k) \<and>
     (\<forall>l \<in> set (logins s). not_at k l)"

lemma dead_manager_same:
  assumes "dead_manager k s" "managers (the_server s) k' = Some m" "same_client m m'" "logins t = logins s"
    "managers (the_server t) = (managers (the_server s))(k' \<mapsto> m')"
  shows "dead_manager k t"
  using assms by (auto simp: dead_manager_def same_client_def)

lemma dead_manager_stream:
  assumes "dead_manager k s" "stream_step src c stream now s = Some t"
  shows "dead_manager k t"
  using assms(2)
proof (cases rule: stream_step_cases)
  case login
  with assms(1) show ?thesis by (auto simp: dead_manager_def not_at_def)
next
  case (pipe k' m)
  with assms(1) show ?thesis by (simp add: dead_manager_def)
next
  case (handled acts)
  with assms(1) show ?thesis by (simp add: dead_manager_def)
qed

lemma dead_manager_pipe:
  assumes "dead_manager k s" "pipe_event i pc s = Some t"
  shows "dead_manager k t"
  using assms(2)
proof (cases rule: pipe_event_cases)
  case (own m pc' m')
  from dead_manager_same [OF assms(1) own(2) same_client_push_step [OF own(4)]] show ?thesis
    by (simp add: own(5) set_manager_def)
next
  case gone
  with assms(1) show ?thesis by (simp add: dead_manager_def)
qed

lemma dead_manager_login:
  assumes "dead_manager k s" "i < length (logins s)" "logins s ! i = l"
    "login_step src now (lg_conn l) (lg_req l) (lg_pc l) (the_server s) = Some (pc, sv, as)"
  shows "dead_manager k (s\<lparr>the_server := sv, logins := (logins s)[i := l\<lparr>lg_pc := pc\<rparr>], answers := answers s @ as\<rparr>)"
proof -
  obtain m where m: "managers (the_server s) k = Some m" "closed m" "ClientId m = k"
    using assms(1) by (auto simp: dead_manager_def)
  have l: "not_at k l" using assms(1-3) nth_mem by (auto simp: dead_manager_def)
  have "not_at k (l\<lparr>lg_pc := pc\<rparr>) \<and> managers sv k = Some m"
    using l m assms(4)
    by (cases "lg_pc l") (auto simp: login_step_def not_at_def NewManager_def split: if_splits prod.splits)
  moreover have "not_at k l'" if "l' \<in> set ((logins s)[i := l\<lparr>lg_pc := pc\<rparr>])" "not_at k (l\<lparr>lg_pc := pc\<rparr>)" for l'
    using that assms(1) set_update_subset_insert [of "logins s" i] by (auto simp: dead_manager_def)
  ultimately show ?thesis using m by (simp add: dead_manager_def)
qed

lemma dead_manager_done:
  assumes "dead_manager k s" "done_event i m ks s = Some t"
  shows "dead_manager k t"
proof -
  let ?l = "logins s ! i"
  have i: "i < length (logins s)" "\<not> lg_done ?l" using assms(2) by (auto simp: done_event_def split: if_splits)
  have l: "not_at k ?l" using assms(1) nth_mem [OF i(1)] by (auto simp: dead_manager_def)
  have move: "dead_manager k (s\<lparr>the_server := (the_server s)\<lparr>managers := (managers (the_server s))(k' := None)\<rparr>,
      logins := (logins s)[i := l']\<rparr>)" if "k' \<noteq> k" "not_at k l'" for k' l'
    using that assms(1) set_update_subset_insert [of "logins s" i l'] by (auto simp: dead_manager_def)
  have filed: "dead_manager k (s\<lparr>the_server := sv, logins := (logins s)[i := ?l\<lparr>lg_done := True\<rparr>]\<rparr>)"
    if d: "manager_done ks m (the_server s) = Returns (sv, eff)" "ClientId m \<noteq> k" for sv eff
  proof -
    have "sv = (the_server s)\<lparr>managers := (managers (the_server s))(ClientId m := None)\<rparr>"
      using d by (auto simp: manager_done_def Let_def split: outcome.splits)
    moreover have "not_at k (?l\<lparr>lg_done := True\<rparr>)" using l by (simp add: not_at_def)
    ultimately show ?thesis using move [OF d(2)] by simp
  qed
  show ?thesis
  proof (cases "lg_pc ?l")
    case (LFile m0)
    then obtain m1 eff where c: "Manager_Close ks m0 = Returns (m1, eff)"
      "t = s\<lparr>the_server := (the_server s)\<lparr>managers := (managers (the_server s))(ClientId m0 := None)\<rparr>,
             logins := (logins s)[i := ?l\<lparr>lg_pc := LFile m1, lg_done := True\<rparr>]\<rparr>"
      using assms(2) by (auto simp: done_event_def Let_def split: outcome.splits if_splits)
    have "ClientId m0 \<noteq> k" using l LFile by (simp add: not_at_def)
    then show ?thesis unfolding c(2)
      using same_client_Close [OF c(1)] by (intro move) (simp_all add: not_at_def same_client_def)
  next
    case (LReply key)
    with assms(2) l i(2) show ?thesis
      by (auto simp: done_event_def Let_def not_at_def intro: filed split: outcome.splits if_splits)
  next
    case (LServed key)
    with assms(2) l i(2) show ?thesis
      by (auto simp: done_event_def Let_def not_at_def intro: filed split: outcome.splits if_splits)
  qed (use assms(2) in \<open>auto simp: done_event_def Let_def split: if_splits\<close>)
qed

lemma dead_manager_step:
  assumes "dead_manager k s" "server_step src e s = Some t"
  shows "dead_manager k t"
proof (cases e)
  case (EvStream c stream now)
  with assms show ?thesis by (auto intro: dead_manager_stream split: if_splits)
next
  case (EvLoginStep i now)
  with assms show ?thesis by (auto intro: dead_manager_login split: if_splits option.splits)
next
  case (EvManagerDone i m ks)
  with assms show ?thesis by (auto intro: dead_manager_done)
next
  case (EvManager k' op)
  then obtain m m' ps where m: "managers (the_server s) k' = Some m" "mgr_op_step op (m, ports (the_server s)) = Some (m', ps)"
    "t = set_manager k' m' (s\<lparr>the_server := (the_server s)\<lparr>ports := ps\<rparr>,
      handed := handed s @ map (Pair (mconn m)) (pop_result op m)\<rparr>)"
    using assms(2) by (auto split: option.splits)
  have "same_client m m'" using mgr_op_keeps [OF m(2)] by simp
  from dead_manager_same [OF assms(1) m(1) this] show ?thesis by (simp add: m(3) set_manager_def)
next
  case (EvPipeStep i pc)
  with assms show ?thesis by (auto intro: dead_manager_pipe)
qed

interpretation dead: invariant_system "dead_manager k" "server_step src" "dead_manager k" for k src
  by unfold_locales (auto intro: dead_manager_step)

section \<open>Two schedules\<close>

definition demo_stream :: reader where
  "demo_stream = \<lparr>chunks = [wire (MLoginRequest demo_login)], final_err = EOF\<rparr>"

abbreviation ok_answer :: "gostring \<Rightarrow> message" where
  "ok_answer key \<equiv> MLoginResponse \<lparr>loginResp_ClientId = key, loginResp_Result = ''ok''\<rparr>"

lemma demo_stream_read: "fst (message_Get demo_stream) = Inr (MLoginRequest demo_login)"
  unfolding demo_stream_def by (rule demo_login_read)

lemma demo_draws:
  "RandStr8Base62 src 0 (replicate 8 (byte 0)) = (drawn_key src 0, Suc 0)"
  "RandStr8Base62 src (Suc 0) (drawn_key src 0) = (drawn_key src (Suc 0), 2)"
  using RandStr8Base62_key [of "replicate 8 (byte 0)" src 0]
    RandStr8Base62_key(1) [of "drawn_key src 0" src "Suc 0"] by (simp_all add: numeral_2_eq_2)

text \<open>Two logins; each fills the buffer before either copies its key out.\<close>

definition collide :: "server_event list" where
  "collide = [EvStream 1 demo_stream 0, EvStream 2 demo_stream 0, EvLoginStep 0 0, EvLoginStep 1 0,
     EvLoginStep 0 0, EvLoginStep 1 0, EvLoginStep 0 0, EvLoginStep 1 0, EvLoginStep 0 0, EvLoginStep 1 0,
     EvLoginStep 0 0, EvLoginStep 1 0, EvLoginStep 0 0, EvLoginStep 1 0]"

text \<open>One login whose manager ends before it is filed, and the state it is in then.\<close>

definition ends_early :: "int63_source \<Rightarrow> server_event list" where
  "ends_early src = [EvStream 1 demo_stream 0, EvLoginStep 0 0, EvLoginStep 0 0, EvLoginStep 0 0, EvLoginStep 0 0,
     EvManagerDone 0 (NewManager (drawn_key src 0) 1 demo_login 0) []]"

definition early :: "int63_source \<Rightarrow> login_pc \<Rightarrow> (gostring \<rightharpoonup> manager) \<Rightarrow> server_run" where
  "early src pc ms = \<lparr>the_server = demo_server\<lparr>rand_pos := 1, id_buf := drawn_key src 0, managers := ms\<rparr>,
     logins = [\<lparr>lg_conn = 1, lg_req = demo_login, lg_pc = pc, lg_done = True\<rparr>],
     answers = [], pipes = [], pooled = [], handed = []\<rparr>"

lemma demo_stream_step:
  "config (the_server s) = config demo_server \<Longrightarrow>
   stream_step src c demo_stream now s =
     Some (s\<lparr>logins := logins s @ [\<lparr>lg_conn = c, lg_req = demo_login, lg_pc = LFill, lg_done = False\<rparr>]\<rparr>)"
  using CheckLogin_demo by (simp add: stream_step_def demo_stream_read)

lemma collide_run:
  "exec (server_step src) collide (serve demo_server) =
    Some \<lparr>the_server = demo_server\<lparr>rand_pos := 2, id_buf := drawn_key src 1,
            managers := [drawn_key src 1 \<mapsto> NewManager (drawn_key src 1) 2 demo_login 0]\<rparr>,
          logins = map (\<lambda>c. \<lparr>lg_conn = c, lg_req = demo_login, lg_pc = LServed (drawn_key src 1), lg_done = False\<rparr>) [1, 2],
          answers = [(1, ok_answer (drawn_key src 1)), (2, ok_answer (drawn_key src 1))],
          pipes = [], pooled = [], handed = []\<rparr>"
proof -
  have s: "rand_pos demo_server = 0" "id_buf demo_server = replicate 8 (byte 0)" "managers demo_server = (\<lambda>_. None)"
    by (simp_all add: demo_server_def)
  have id: "ClientId (NewManager key c v now) = key" for key c v now by (simp add: NewManager_def)
  show ?thesis
    by (simp add: collide_def serve_def demo_stream_step login_step_def demo_draws s id del: replicate.simps)
qed

lemma ends_early_run:
  "\<exists>m. closed m \<and> ClientId m = drawn_key src 0 \<and>
     exec (server_step src) (ends_early src) (serve demo_server) = Some (early src (LFile m) Map.empty) \<and>
     server_step src (EvLoginStep 0 0) (early src (LFile m) Map.empty) =
       Some (early src (LReply (drawn_key src 0)) [drawn_key src 0 \<mapsto> m])"
proof -
  let ?m0 = "NewManager (drawn_key src 0) 1 demo_login 0"
  have s: "rand_pos demo_server = 0" "id_buf demo_server = replicate 8 (byte 0)" "managers demo_server = (\<lambda>_. None)"
    by (simp_all add: demo_server_def)
  have m0: "ClientId ?m0 = drawn_key src 0" "\<not> closed ?m0" by (simp_all add: NewManager_def)
  obtain m eff where m: "Manager_Close [] ?m0 = Returns (m, eff)" "closed m"
    using Close_open [OF mgr_inv_New m0(2)] by blast
  have id: "ClientId m = drawn_key src 0" using same_client_Close [OF m(1)] m0(1) by (simp add: same_client_def)
  show ?thesis
  proof (intro exI [of _ m] conjI)
    show "exec (server_step src) (ends_early src) (serve demo_server) = Some (early src (LFile m) Map.empty)"
      using m m0 by (simp add: ends_early_def early_def serve_def demo_stream_step login_step_def done_event_def demo_draws s
        fun_upd_idem del: replicate.simps)
    show "server_step src (EvLoginStep 0 0) (early src (LFile m) Map.empty) =
        Some (early src (LReply (drawn_key src 0)) [drawn_key src 0 \<mapsto> m])"
      by (simp add: early_def login_step_def id)
  qed (rule m(2), rule id)
qed

section \<open>Properties\<close>

text \<open>C7: In every state the server can get into, from its start on and however its goroutines
  are interleaved: every manager of the map is filed under its own id of eight base-62
  characters, satisfies the manager's invariant and belongs to a client that knew the
  authentication code and has a legal tag; and "ok" is answered only on streams on which a
  login request with that code came.\<close>

theorem server_always_authorised:
  assumes "NewServer perms cfg = Returns sv" "exec (server_step src) es (serve sv) = Some t"
  shows "(\<forall>k m. managers (the_server t) k = Some m \<longrightarrow> listed cfg k m) \<and>
    (\<forall>c r. (c, MLoginResponse r) \<in> set (answers t) \<longrightarrow> loginResp_Result r = ''ok'' \<longrightarrow>
       (\<exists>v. (c, v) \<in> users t \<and> login_AuthCode v = cfg_AuthCode cfg))"
proof -
  have "server_init cfg (serve sv)" using assms(1) by (auto simp: server_init_def)
  then have "server_run_inv cfg t" using assms(2) by (rule servers.reachable_inv)
  then show ?thesis
    using server_inv_listed by (fastforce simp: server_run_inv_def answer_ok_def)
qed

text \<open>The single steps of a login, when no other goroutine comes between, are
  \<open>HandleStream\<close>: they lead to the same server and send the same answer.\<close>

theorem login_steps_refine:
  assumes "fst (message_Get stream) = Inr (MLoginRequest v)" "CheckLogin (config (the_server s)) v = None"
    "HandleStream src now c stream (the_server s) = Some (acts, sv)"
    "c \<notin> lg_conn ` set (logins s) \<union> pp_conn ` set (pipes s)"
  shows "\<exists>n key. exec (server_step src) (EvStream c stream now # replicate n (EvLoginStep (length (logins s)) now)) s =
    Some (with_login s c v (LServed key) sv (sends c acts))"
proof -
  obtain m where R: "RegisterManager src now c v (the_server s) = Some (m, sv)"
    "acts = [SendMsg (MLoginResponse \<lparr>loginResp_ClientId = ClientId m, loginResp_Result = ''ok''\<rparr>)]"
    using assms(1-3) by (auto simp: HandleStream_def split: option.splits)
  then obtain key p where g: "genId_loop (managers (the_server s)) src (rand_pos (the_server s)) (id_buf (the_server s)) = Some (key, p)"
    "m = NewManager key c v now"
    "sv = (the_server s)\<lparr>rand_pos := p, id_buf := key, managers := (managers (the_server s))(key \<mapsto> m)\<rparr>"
    by (auto simp: RegisterManager_def genId_def Let_def NewManager_def split: option.splits)
  have acts: "sends c acts = [(c, MLoginResponse \<lparr>loginResp_ClientId = key, loginResp_Result = ''ok''\<rparr>)]"
    by (simp add: R(2) g(2) NewManager_def)
  have "server_step src (EvStream c stream now) s = Some (with_login s c v LFill (the_server s) [])"
    using assms(1,2,4) by (simp add: stream_step_def with_login_def)
  moreover obtain n where
    "exec (server_step src) (replicate n (EvLoginStep (length (logins s)) now)) (with_login s c v LFill (the_server s) []) =
      Some (with_login s c v (LNew key) ((the_server s)\<lparr>rand_pos := p, id_buf := key\<rparr>) [])"
    using genId_steps [OF g(1) refl refl refl, of s now c v "[]"] by auto
  ultimately have "exec (server_step src)
      (EvStream c stream now # replicate (n + 3) (EvLoginStep (length (logins s)) now)) s =
    Some (with_login s c v (LServed key) sv (sends c acts))"
    by (simp add: replicate_add exec_append login_finishes acts g(2,3) del: server_step.simps)
  then show ?thesis by blast
qed

lemma server_always_authorised_witness:
  "\<exists>sv t. NewServer (\<lambda>_. [0, 1]) (config demo_server) = Returns sv \<and>
     exec (server_step (\<lambda>_. 0)) [EvStream 1 demo_stream 0] (serve sv) = Some t \<and> users t = {(1, demo_login)} \<and>
     (\<forall>k m. managers (the_server t) k = Some m \<longrightarrow> listed (config demo_server) k m)"
proof -
  have "\<exists>st. SetPortRange 30000 30002 False (\<lambda>_. [0, 1]) = Returns st"
    by (simp add: SetPortRange_def randInts_def Let_def)
  then obtain sv where n: "NewServer (\<lambda>_. [0, 1]) (config demo_server) = Returns sv"
    by (auto simp: NewServer_def demo_server_def)
  have "config (the_server (serve sv)) = config demo_server" using NewServer_config [OF n] by (simp add: serve_def)
  then obtain t where t: "exec (server_step (\<lambda>_. 0)) [EvStream 1 demo_stream 0] (serve sv) = Some t" "users t = {(1, demo_login)}"
    by (simp add: demo_stream_step serve_def users_def)
  with n server_always_authorised [OF n t(1)] show ?thesis by blast
qed

lemma login_steps_refine_witness:
  "\<exists>es t key. exec (server_step (\<lambda>_. 0)) es (serve demo_server) = Some t \<and> answers t = [(1, ok_answer key)] \<and>
     managers (the_server t) key = Some (NewManager key 1 demo_login 7)"
proof -
  have the: "the_server (serve demo_server) = demo_server" "users (serve demo_server) = {}" "answers (serve demo_server) = []"
    "logins (serve demo_server) = []" "pipes (serve demo_server) = []"
    by (simp_all add: serve_def users_def)
  have "managers demo_server (drawn_key (\<lambda>_. 0) (rand_pos demo_server + 0)) = None"
    by (simp add: demo_server_def)
  from HandleStream_login [OF server_inv_demo CheckLogin_demo demo_stream_read this, where c = 1 and now = 7]
  obtain key sv where h: "HandleStream (\<lambda>_. 0) 7 1 demo_stream demo_server = Some ([SendMsg (ok_answer key)], sv)"
    "managers sv = (managers demo_server)(key \<mapsto> NewManager key 1 demo_login 7)" by blast
  from login_steps_refine [where s = "serve demo_server", unfolded the, OF demo_stream_read CheckLogin_demo h(1)]
  obtain es k where "exec (server_step (\<lambda>_. 0)) es (serve demo_server) =
      Some (with_login (serve demo_server) 1 demo_login (LServed k) sv (sends 1 [SendMsg (ok_answer key)]))"
    by (auto simp del: exec.simps)
  then show ?thesis by (intro exI) (auto simp: with_login_def the h(2))
qed

text \<open>C34: Ids are not unique: two logins that run at the same time can both be answered with
  the same id, because both copy their key out of the one buffer of \<open>RandStr8Base62\<close>.  The
  second manager then replaces the first in the map, and when the first is done, the second,
  still running, is taken out.\<close>

theorem logins_can_collide:
  "\<exists>es t u key m ks. exec (server_step src) es (serve demo_server) = Some t \<and>
     answers t = [(1, ok_answer key), (2, ok_answer key)] \<and>
     managers (the_server t) = [key \<mapsto> NewManager key 2 demo_login 0] \<and>
     server_step src (EvManagerDone 0 m ks) t = Some u \<and>
     managers (the_server u) key = None \<and> \<not> lg_done (logins u ! 1)"
proof -
  let ?k = "drawn_key src 1"
  let ?m = "NewManager ?k 1 demo_login 0"
  let ?t = "\<lparr>the_server = demo_server\<lparr>rand_pos := 2, id_buf := ?k, managers := [?k \<mapsto> NewManager ?k 2 demo_login 0]\<rparr>,
    logins = map (\<lambda>c. \<lparr>lg_conn = c, lg_req = demo_login, lg_pc = LServed ?k, lg_done = False\<rparr>) [1, 2],
    answers = [(1, ok_answer ?k), (2, ok_answer ?k)], pipes = [], pooled = [], handed = []\<rparr>"
  have m: "ClientId ?m = ?k" "\<not> closed ?m" "mconn ?m = 1" "mconn (NewManager ?k 2 demo_login 0) = 2"
    by (simp_all add: NewManager_def)
  obtain m1 eff where c: "Manager_Close [] ?m = Returns (m1, eff)"
    using Close_open [OF mgr_inv_New m(2)] by blast
  have "\<exists>u. server_step src (EvManagerDone 0 ?m []) ?t = Some u \<and>
      managers (the_server u) ?k = None \<and> \<not> lg_done (logins u ! 1)"
    using m c by (simp add: done_event_def manager_done_def)
  then show ?thesis using collide_run [of src] by (fastforce simp: exec_append)
qed

text \<open>C33: A dead manager can stay in the map for ever.  There is a schedule, for every source of
  random numbers, in which the client of a login leaves between the start of the manager's
  goroutine and its filing: at that moment nothing is filed under its id and \<open>awaitManagerDone\<close>
  has had its one turn for this login, and the login then files the closed manager.  From there,
  whatever streams, messages and other logins follow, it is never removed.\<close>

theorem dead_manager_filed:
  "\<exists>es t now u key. exec (server_step src) es (serve demo_server) = Some t \<and>
     (\<exists>m. lg_pc (logins t ! 0) = LFile m \<and> ClientId m = key \<and> closed m) \<and> lg_done (logins t ! 0) \<and>
     managers (the_server t) key = None \<and>
     server_step src (EvLoginStep 0 now) t = Some u \<and>
     (\<forall>fs v. exec (server_step src) fs u = Some v \<longrightarrow>
        (\<exists>m. managers (the_server v) key = Some m \<and> closed m))"
proof -
  let ?k = "drawn_key src 0"
  obtain m where m: "closed m" "ClientId m = ?k"
    "exec (server_step src) (ends_early src) (serve demo_server) = Some (early src (LFile m) Map.empty)"
    "server_step src (EvLoginStep 0 0) (early src (LFile m) Map.empty) = Some (early src (LReply ?k) [?k \<mapsto> m])"
    using ends_early_run by blast
  have d: "dead_manager ?k (early src (LReply ?k) [?k \<mapsto> m])"
    using m(1,2) by (simp add: early_def dead_manager_def not_at_def)
  have "\<exists>m. managers (the_server v) ?k = Some m \<and> closed m"
    if "exec (server_step src) fs (early src (LReply ?k) [?k \<mapsto> m]) = Some v" for fs v
    using dead.exec_inv [OF d that] unfolding dead_manager_def by blast
  moreover have "lg_pc (logins (early src (LFile m) Map.empty) ! 0) = LFile m"
    "lg_done (logins (early src (LFile m) Map.empty) ! 0)" "managers (the_server (early src (LFile m) Map.empty)) ?k = None"
    by (simp_all add: early_def)
  ultimately show ?thesis using m by blast
qed

lemma dead_manager_filed_witness:
  "\<exists>es t u key m. exec (server_step (\<lambda>_. 0)) es (serve demo_server) = Some t \<and> lg_done (logins t ! 0) \<and>
     managers (the_server t) key = None \<and> (\<exists>now. server_step (\<lambda>_. 0) (EvLoginStep 0 now) t = Some u) \<and>
     managers (the_server u) key = Some m \<and> closed m"
proof -
  obtain es t now u key where t: "exec (server_step (\<lambda>_. 0)) es (serve demo_server) = Some t" "lg_done (logins t ! 0)"
    "managers (the_server t) key = None" "server_step (\<lambda>_. 0) (EvLoginStep 0 now) t = Some u"
    "\<forall>fs v. exec (server_step (\<lambda>_. 0)) fs u = Some v \<longrightarrow> (\<exists>m. managers (the_server v) key = Some m \<and> closed m)"
    using dead_manager_filed by blast
  have "exec (server_step (\<lambda>_. 0)) [] u = Some u" by simp
  with t show ?thesis by blast
qed

end
