(* ===== verification/ServerSpec.thy ===== *)
theory ServerSpec
  imports ServerRun
begin

text \<open>
  The server as its clients see it: a registry of sessions, each with a bounded queue of pipes.
  The interleaved goroutines of \<open>ServerRun\<close> implement it.
\<close>

section \<open>Specification\<close>

record session =
  ss_tag :: gostring
  ss_open :: bool
  ss_pool :: "conn list"
  ss_limit :: nat

type_synonym registry = "gostring \<rightharpoonup> session"

text \<open>
  A login files a session without pipes; a pipe is added at the end of an open session's queue
  that is not full; the first pipe is taken; a session closes; a session goes.
\<close>

inductive registry_step :: "registry \<Rightarrow> registry \<Rightarrow> bool" where
  login: "id_key k \<Longrightarrow> list_all legal_char tag \<Longrightarrow> 2 \<le> n \<Longrightarrow> int n \<le> 2 * MaxPoolSize \<Longrightarrow>
    registry_step r (r(k \<mapsto> \<lparr>ss_tag = tag, ss_open = b, ss_pool = [], ss_limit = n\<rparr>))"
| deliver: "r k = Some s \<Longrightarrow> ss_open s \<Longrightarrow> length (ss_pool s) < ss_limit s \<Longrightarrow>
    registry_step r (r(k \<mapsto> s\<lparr>ss_pool := ss_pool s @ [c]\<rparr>))"
| take_pipe: "r k = Some s \<Longrightarrow> ss_pool s = c # cs \<Longrightarrow> registry_step r (r(k \<mapsto> s\<lparr>ss_pool := cs\<rparr>))"
| close_session: "r k = Some s \<Longrightarrow> registry_step r (r(k \<mapsto> s\<lparr>ss_open := False\<rparr>))"
| gone: "registry_step r (r(k := None))"




section \<open>Abstraction\<close>

definition session_of :: "manager \<Rightarrow> session" where
  "session_of m = \<lparr>ss_tag = Tag m, ss_open = (\<not> closed m), ss_pool = ch_buf (pipeConnPool m),
     ss_limit = nat (PoolSize m * 2)\<rparr>"

definition registry_of :: "server_run \<Rightarrow> registry" where
  "registry_of s = (\<lambda>k. map_option session_of (managers (the_server s) k))"

lemma registry_of_eq: "managers (the_server t) = managers (the_server s) \<Longrightarrow> registry_of t = registry_of s"
  by (simp add: registry_of_def)

lemma registry_of_file:
  "managers (the_server t) = (managers (the_server s))(k \<mapsto> m) \<Longrightarrow> registry_of t = (registry_of s)(k \<mapsto> session_of m)"
  by (auto simp: registry_of_def)

lemma registry_of_forget:
  "managers (the_server t) = (managers (the_server s))(k := None) \<Longrightarrow> registry_of t = (registry_of s)(k := None)"
  by (auto simp: registry_of_def)

text \<open>What an operation of a manager does to its session.\<close>

lemma session_SendMassage: "SendMassage m msg = Returns (e, m') \<Longrightarrow> session_of m' = session_of m"
  by (auto simp: SendMassage_def SendMassage_send_def session_of_def split: if_splits outcome.splits)

lemma session_RegisterProxy:
  "RegisterProxy os v (m, ps) = Returns (r, (m', ps'), eff) \<Longrightarrow> session_of m' = session_of m"
  by (auto simp: RegisterProxy_def Let_def session_of_def split: outcome.splits prod.splits sum.splits)

lemma session_handle_message:
  "handle_message os ks now msg (m, ps) = Returns (r, (m', ps'), eff) \<Longrightarrow> session_of m' = session_of m"
  using session_RegisterProxy
  by (cases msg) (fastforce simp: handle_message_def session_of_def RemoveProxy_def ListProxies_def Let_def
      split: if_splits outcome.splits option.splits prod.splits)+

lemma session_Close:
  "Manager_Close ks m = Returns (m', eff) \<Longrightarrow> session_of m' = (session_of m)\<lparr>ss_open := False\<rparr>"
  by (auto simp: Manager_Close_def Close_body_def IsClosed_def chan_close_def Let_def session_of_def split: if_splits)

lemma session_op:
  assumes "mgr_op_step op (m, ps) = Some (m', ps')" "mgr_inv m" "r k = Some (session_of m)"
  shows "registry_step\<^sup>*\<^sup>* r (r(k \<mapsto> session_of m'))"
proof -
  have same: ?thesis if "session_of m' = session_of m"
    using that assms(3) by (simp add: fun_upd_idem)
  show ?thesis
  proof (cases op)
    case (OpMessage os ks now msg)
    then obtain q eff where "handle_message os ks now msg (m, ps) = Returns (q, (m', ps'), eff)"
      using assms(1) by (auto simp: result_of_Some)
    then show ?thesis by (intro same session_handle_message)
  next
    case (OpClose ks)
    then obtain eff where "Manager_Close ks m = Returns (m', eff)" using assms(1) by (auto simp: result_of_Some)
    from session_Close [OF this] close_session [of r k, OF assms(3)] show ?thesis by auto
  next
    case (OpPing now)
    then obtain e where "SendMassage m (MHeartbeatRequest \<lparr>hbReq_Timestamp = now\<rparr>) = Returns (e, m')"
      using assms(1) by (auto simp: result_of_Some Ping_def split: outcome.splits)
    then show ?thesis by (intro same session_SendMassage)
  next
    case OpPopRequest
    then obtain e where "ReqPipeConn m = Returns (e, m')" using assms(1) by (auto simp: result_of_Some)
    then show ?thesis unfolding ReqPipeConn_def by (intro same session_SendMassage)
  next
    case (OpPopReceive t)
    then obtain q where q: "PopPipeConn_recv t m = Returns (q, m')" using assms(1) by (auto simp: result_of_Some)
    show ?thesis
    proof (cases "m' = m")
      case False
      with q obtain c cs where p: "ch_buf (pipeConnPool m) = c # cs"
        "m' = m\<lparr>pipeConnPool := (pipeConnPool m)\<lparr>ch_buf := cs\<rparr>\<rparr>"
        by (auto simp: PopPipeConn_recv_cases [OF assms(2)] split: if_splits list.splits)
      then have "session_of m' = (session_of m)\<lparr>ss_pool := cs\<rparr>" "ss_pool (session_of m) = c # cs"
        by (simp_all add: session_of_def)
      with take_pipe [of r k, OF assms(3)] show ?thesis by auto
    next
      case True
      then show ?thesis by (intro same) simp
    qed
  next
    case (OpChannels rc sc)
    with assms(1) have "session_of m' = session_of m" by (auto simp: Let_def session_of_def split: if_splits)
    then show ?thesis by (rule same)
  qed
qed

section \<open>Simulation\<close>

lemma sim_deliver:
  assumes "mgr_inv m" "PushPipeConn m c = (e, m')" "r k = Some (session_of m)"
  shows "registry_step\<^sup>*\<^sup>* r (r(k \<mapsto> session_of m'))"
proof (cases "\<not> closed m \<and> length (ch_buf (pipeConnPool m)) < nat (PoolSize m * 2)")
  case True
  with assms(2) have "session_of m' = (session_of m)\<lparr>ss_pool := ss_pool (session_of m) @ [c]\<rparr>"
    by (auto simp: PushPipeConn_cases [OF assms(1)] session_of_def)
  with deliver [of r k, OF assms(3)] True show ?thesis by (auto simp: session_of_def)
next
  case False
  with assms(2) have "m' = m" by (auto simp: PushPipeConn_cases [OF assms(1)] split: if_splits)
  with assms(3) show ?thesis by (simp add: fun_upd_idem)
qed

lemma sim_push:
  assumes "mgr_inv m" "push_step c pc m = Some (pc', m')" "r k = Some (session_of m)"
  shows "registry_step\<^sup>*\<^sup>* r (r(k \<mapsto> session_of m'))"
  using assms(2,1)
proof (cases rule: push_step_cases)
  case pooled
  with sim_deliver [where r = r and k = k, OF assms(1) pooled(5) assms(3)] show ?thesis by simp
qed (use assms(3) in \<open>simp_all add: fun_upd_idem\<close>)

lemma sim_login:
  assumes "listed cfg (ClientId m) m" "ch_buf (pipeConnPool m) = []"
  shows "registry_step r (r(ClientId m \<mapsto> session_of m))"
proof -
  have "id_key (ClientId m)" "list_all legal_char (Tag m)" "1 \<le> PoolSize m" "PoolSize m \<le> MaxPoolSize"
    using assms(1) by (auto simp: listed_def id_key_def mgr_inv_def)
  then show ?thesis
    using login [of "ClientId m" "Tag m" "nat (PoolSize m * 2)" r "\<not> closed m"] assms(2) by (simp add: session_of_def)
qed

lemma sim_login_step:
  assumes "login_step src now c req pc sv = Some (pc', managed, as)" "pc_ok cfg buf pc"
  shows "managers managed = managers sv \<or>
    (\<exists>m. listed cfg (ClientId m) m \<and> ch_buf (pipeConnPool m) = [] \<and>
       managers managed = (managers sv)(ClientId m \<mapsto> m))"
  using assms by (cases pc) (auto simp: login_step_def split: prod.splits if_splits)

lemma done_event_managers:
  assumes "done_event i m ks s = Some t"
  shows "\<exists>k. managers (the_server t) = (managers (the_server s))(k := None)"
  using assms
  by (auto simp: done_event_def manager_done_def Let_def split: if_splits login_pc.splits outcome.splits)

lemma server_step_sim:
  assumes "server_run_inv cfg s" "server_step src e s = Some t"
  shows "registry_step\<^sup>*\<^sup>* (registry_of s) (registry_of t)"
proof -
  have inv: "mgr_inv m" if "managers (the_server s) k = Some m" for k m
    using assms(1) that server_inv_listed by (auto simp: server_run_inv_def listed_def)
  have reg: "registry_of s k = Some (session_of m)" if "managers (the_server s) k = Some m" for k m
    using that by (simp add: registry_of_def)
  show ?thesis
  proof (cases e)
    case (EvStream c stream now)
    with assms(2) have "stream_step src c stream now s = Some t" by (simp split: if_splits)
    then show ?thesis
      by (cases rule: stream_step_cases) (simp_all add: registry_of_def)
  next
    case (EvLoginStep i now)
    let ?l = "logins s ! i"
    have i: "i < length (logins s)" using assms(2) EvLoginStep by (simp split: if_splits)
    obtain pc sv as where st: "login_step src now (lg_conn ?l) (lg_req ?l) (lg_pc ?l) (the_server s) = Some (pc, sv, as)"
      "the_server t = sv"
      using assms(2) EvLoginStep by (auto split: if_splits option.splits)
    have "pc_ok cfg (id_buf (the_server s)) (lg_pc ?l)"
      using assms(1) nth_mem [OF i] by (auto simp: server_run_inv_def login_ok_def)
    from sim_login_step [OF st(1) this] show ?thesis
      using registry_of_eq registry_of_file sim_login st(2) by (metis (no_types, lifting) r_into_rtranclp rtranclp.rtrancl_refl)
  next
    case (EvManagerDone i m ks)
    with assms(2) have "done_event i m ks s = Some t" by simp
    from done_event_managers [OF this] obtain k where "registry_of t = (registry_of s)(k := None)"
      using registry_of_forget by blast
    then show ?thesis using gone by auto
  next
    case (EvManager k op)
    then obtain m m' ps where m: "managers (the_server s) k = Some m" "mgr_op_step op (m, ports (the_server s)) = Some (m', ps)"
      "t = set_manager k m' (s\<lparr>the_server := (the_server s)\<lparr>ports := ps\<rparr>,
        handed := handed s @ map (Pair (mconn m)) (pop_result op m)\<rparr>)"
      using assms(2) by (auto split: option.splits)
    have "registry_of t = (registry_of s)(k \<mapsto> session_of m')"
      by (rule registry_of_file) (simp add: m(3) set_manager_def)
    with session_op [where r = "registry_of s" and k = k, OF m(2) inv [OF m(1)] reg [OF m(1)]] show ?thesis by simp
  next
    case (EvPipeStep i pc)
    with assms(2) have "pipe_event i pc s = Some t" by simp
    then show ?thesis
    proof (cases rule: pipe_event_cases)
      case (own m pc' m')
      let ?k = "pp_key (pipes s ! i)"
      have "registry_of t = (registry_of s)(?k \<mapsto> session_of m')"
        by (rule registry_of_file) (simp add: own(5) set_manager_def)
      with sim_push [where r = "registry_of s" and k = ?k, OF inv [OF own(2)] own(4) reg [OF own(2)]] show ?thesis by simp
    next
      case gone
      then show ?thesis by (simp add: registry_of_def)
    qed
  qed
qed

interpretation registry: simulation "server_init cfg" "server_step src" "server_run_inv cfg" registry_of registry_step for cfg src
  by unfold_locales (rule server_step_sim)

section \<open>Properties\<close>



end
