(* ===== verification/ServerPipes.thy ===== *)
theory ServerPipes
  imports ServerRun Session
begin

text \<open>
  What becomes of the streams on which pipes are requested, with the goroutines of the server
  interleaved: between the lookup of the manager, the test of its flag and the send on its pool
  the manager may be closed, taken out of the map or replaced in it.  The history of the pools
  says where each stream went.
\<close>

section \<open>The history of the pools\<close>



text \<open>The part of a history that belongs to one manager.\<close>

definition of_mgr :: "conn \<Rightarrow> (conn \<times> conn) list \<Rightarrow> conn list" where
  "of_mgr d xs = map snd (filter (\<lambda>x. fst x = d) xs)"

lemma of_mgr_simps [simp]:
  "of_mgr d [] = []" "of_mgr d (xs @ ys) = of_mgr d xs @ of_mgr d ys"
  "of_mgr d [(e, c)] = (if e = d then [c] else [])" "of_mgr d (map (Pair e) cs) = (if e = d then cs else [])"
  by (simp_all add: of_mgr_def o_def filter_map)









section \<open>Steps of logins\<close>







section \<open>Steps of pools\<close>










section \<open>A schedule\<close>

text \<open>
  The client of stream 1 logs in and opens two pipes, streams 2 and 3.  Both goroutines find the
  manager open; one sends on the pool, then the manager is closed, then the other sends.
\<close>

definition pipe_stream :: "gostring \<Rightarrow> reader" where
  "pipe_stream key = \<lparr>chunks = [wire (pipe_call key)], final_err = EOF\<rparr>"

definition late_pipe :: "gostring \<Rightarrow> server_event list" where
  "late_pipe key =
     [EvStream 1 demo_stream 0, EvLoginStep 0 0, EvLoginStep 0 0, EvLoginStep 0 0, EvLoginStep 0 0, EvLoginStep 0 0,
      EvStream 2 (pipe_stream key) 0, EvStream 3 (pipe_stream key) 0,
      EvPipeStep 0 PTest, EvPipeStep 1 PTest, EvPipeStep 0 PTest, EvManager key (OpClose []), EvPipeStep 1 PTest]"

lemma pipe_stream_read:
  "length key = 8 \<Longrightarrow> set key \<subseteq> set base62 \<Longrightarrow> fst (message_Get (pipe_stream key)) = Inr (MPipeRequest \<lparr>pipeReq_ClientId = key\<rparr>)"
  using modest_Get [OF modest_key(2), of key "pipe_stream key"]
  by (simp add: delivers_def header_whole_def content_def pipe_stream_def length_wire)
    (simp add: pipe_call_def length_wire)

lemma pipe_stream_step:
  "length key = 8 \<Longrightarrow> set key \<subseteq> set base62 \<Longrightarrow> managers (the_server s) key = Some m \<Longrightarrow>
   stream_step src c (pipe_stream key) now s =
     Some (s\<lparr>pipes := pipes s @ [\<lparr>pp_conn = c, pp_key = key, pp_mgr = mconn m, pp_pc = PTest\<rparr>]\<rparr>)"
  by (simp add: stream_step_def pipe_stream_read)

text \<open>The manager of the schedule, without and with the first pipe.\<close>

lemma late_pipe_manager:
  fixes key
  defines "m0 \<equiv> NewManager key 1 demo_login 0"
  defines "m1 \<equiv> m0\<lparr>pipeConnPool := (pipeConnPool m0)\<lparr>ch_buf := [2]\<rparr>\<rparr>"
  shows "mconn m0 = 1" "mconn m1 = 1" "ClientId m0 = key" "push_step 2 PTest m0 = Some (PPush, m0)"
    "push_step 3 PTest m0 = Some (PPush, m0)" "push_step 2 PPush m0 = Some (PPooled, m1)"
    "\<exists>m2 eff. Manager_Close [] m1 = Returns (m2, eff) \<and> closed m2 \<and> mconn m2 = 1 \<and>
       ch_buf (pipeConnPool m2) = [2] \<and> push_step 3 PPush m2 = Some (PLost, m2)"
proof -
  show m: "mconn m0 = 1" "mconn m1 = 1" "ClientId m0 = key" by (simp_all add: m0_def m1_def NewManager_def)
  show "push_step 2 PTest m0 = Some (PPush, m0)" "push_step 3 PTest m0 = Some (PPush, m0)"
    by (simp_all add: push_step_def IsClosed_def m0_def NewManager_def)
  have "pool_size demo_login = 2" by (simp add: pool_size_def demo_login_def MaxPoolSize_def)
  then have send: "PushPipeConn_send m0 2 = (None, m1)"
    by (simp add: PushPipeConn_send_cases [OF mgr_inv_New] m0_def m1_def) (simp add: NewManager_def make_chan_def)
  have "ch_buf (pipeConnPool m0) = []" by (simp add: m0_def NewManager_def make_chan_def)
  with send show "push_step 2 PPush m0 = Some (PPooled, m1)" by (simp add: push_step_def) (simp add: m1_def)
  have inv1: "mgr_inv m1" using mgr_inv_PushPipeConn [of m0 2 None m1] send mgr_inv_New
    by (simp add: PushPipeConn_def IsClosed_def m0_def NewManager_def)
  have "\<not> closed m1" by (simp add: m0_def m1_def NewManager_def)
  from Close_open [OF inv1 this, of "[]"] obtain m2 eff where m2: "Manager_Close [] m1 = Returns (m2, eff)" "closed m2"
    by blast
  have "mgr_inv m2" using mgr_inv_Close [OF inv1 m2(1)] .
  with m2 have "PushPipeConn_send m2 3 = (None, m2)" by (simp add: PushPipeConn_send_cases)
  then have "push_step 3 PPush m2 = Some (PLost, m2)" by (simp add: push_step_def)
  moreover have "mconn m2 = 1" "ch_buf (pipeConnPool m2) = [2]"
    using same_client_Close [OF m2(1)] Close_pool [OF m2(1)] m by (simp_all add: same_client_def) (simp add: m1_def)
  ultimately show "\<exists>m2 eff. Manager_Close [] m1 = Returns (m2, eff) \<and> closed m2 \<and> mconn m2 = 1 \<and>
      ch_buf (pipeConnPool m2) = [2] \<and> push_step 3 PPush m2 = Some (PLost, m2)" using m2 by blast
qed

lemma late_pipe_run:
  fixes src
  defines "key \<equiv> drawn_key src 0"
  shows "\<exists>t m. exec (server_step src) (late_pipe key) (serve demo_server) = Some t \<and>
    managers (the_server t) key = Some m \<and> closed m \<and> mconn m = 1 \<and> ch_buf (pipeConnPool m) = [2] \<and>
    pipes t = [\<lparr>pp_conn = 2, pp_key = key, pp_mgr = 1, pp_pc = PPooled\<rparr>, \<lparr>pp_conn = 3, pp_key = key, pp_mgr = 1, pp_pc = PLost\<rparr>] \<and>
    pooled t = [(1, 2)] \<and> handed t = []"
proof -
  have s: "rand_pos demo_server = 0" "id_buf demo_server = replicate 8 (byte 0)" "managers demo_server = (\<lambda>_. None)"
    by (simp_all add: demo_server_def)
  have key: "length key = 8" "set key \<subseteq> set base62"
    using RandStr8Base62_key [of "replicate 8 (byte 0)" src 0] by (simp_all add: key_def)
  obtain m2 eff where m2: "Manager_Close [] ((NewManager key 1 demo_login 0)\<lparr>pipeConnPool :=
      (pipeConnPool (NewManager key 1 demo_login 0))\<lparr>ch_buf := [2]\<rparr>\<rparr>) = Returns (m2, eff)"
    "closed m2" "mconn m2 = 1" "ch_buf (pipeConnPool m2) = [2]" "push_step 3 PPush m2 = Some (PLost, m2)"
    using late_pipe_manager(7) by blast
  have two: "[x, y] ! 1 = y" "[x, y][1 := z] = [x, z]" "[x, y][0 := z] = [z, y]" for x y z :: pipe_run by simp_all
  have one: "[x][0 := z] = [z]" for x z :: login_run by simp
  show ?thesis
    using m2
    by (simp add: late_pipe_def one two Let_def serve_def demo_stream_step login_step_def demo_draws [of src, folded key_def] s key late_pipe_manager(1-6)
        pipe_stream_step pipe_event_def own_manager_def pipe_to_def set_manager_def result_of_def
        del: replicate.simps One_nat_def list_update.simps)
qed


section \<open>Properties\<close>



text \<open>C32: A pipe can get lost: there is a schedule, for every source of random numbers, in which two
  goroutines find the manager that their client names open, one puts its stream into the pool, the
  manager is closed, and the other goroutine then panics at its send, recovers and returns nil,
  so that \<open>HandleStream\<close> neither closes its stream nor is it in the pool.\<close>

theorem pipe_can_be_lost:
  "\<exists>es t key m. exec (server_step src) es (serve demo_server) = Some t \<and>
     pipes t = [\<lparr>pp_conn = 2, pp_key = key, pp_mgr = 1, pp_pc = PPooled\<rparr>, \<lparr>pp_conn = 3, pp_key = key, pp_mgr = 1, pp_pc = PLost\<rparr>] \<and>
     managers (the_server t) key = Some m \<and> mconn m = 1 \<and> closed m \<and> ch_buf (pipeConnPool m) = [2]"
  using late_pipe_run [of src] by blast

end
