(* ===== verification/Mux.thy ===== *)
theory Mux
  imports Server
begin

text \<open>
  \<open>server/mux.go\<close>: the round-robin balancers, the choice of a port for a tag and a proxy
  name, and the two routings of the HTTP multiplexer, by path and by sub-domain.  The web
  framework's parts of a request (parameters, host, URL, protocol) are arguments.
\<close>

section \<open>Balancers\<close>

record RoundRobin =
  rr_current :: nat
  rr_pool :: "gostring list"

text \<open>
  \<open>GetRobin\<close> returns a pointer: to the balancer in the package's map, or to a new one,
  which it does not put there.
\<close>

datatype robin = Stored gostring RoundRobin | Fresh RoundRobin

fun the_robin :: "robin \<Rightarrow> RoundRobin" where
  "the_robin (Stored tag rb) = rb"
| "the_robin (Fresh rb) = rb"

type_synonym balancers = "gostring \<rightharpoonup> RoundRobin"

definition GetRobin :: "balancers \<Rightarrow> gostring \<Rightarrow> robin" where
  "GetRobin tagBalancer tag =
     (case tagBalancer tag of
        Some rb \<Rightarrow> Stored tag rb
      | None \<Rightarrow> Fresh \<lparr>rr_current = 0, rr_pool = []\<rparr>)"

definition rr_update :: "RoundRobin \<Rightarrow> gostring list \<Rightarrow> gostring \<times> RoundRobin" where
  "rr_update r pool =
     (let r1 = r\<lparr>rr_pool := pool\<rparr> in
      if length pool = 0 then ([], r1)
      else let r2 = (if length (rr_pool r1) \<le> rr_current r1
                     then r1\<lparr>rr_current := rr_current r1 mod length (rr_pool r1)\<rparr> else r1)
           in (rr_pool r2 ! rr_current r2, r2\<lparr>rr_current := Suc (rr_current r2)\<rparr>))"

text \<open>Updating through the pointer: only a stored balancer is seen again.\<close>

definition robin_update :: "robin \<Rightarrow> gostring list \<Rightarrow> balancers \<Rightarrow> gostring \<times> balancers" where
  "robin_update rb pool bal =
     (case rr_update (the_robin rb) pool of (result, r) \<Rightarrow>
        (result, case rb of Stored tag _ \<Rightarrow> bal(tag \<mapsto> r) | Fresh _ \<Rightarrow> bal))"

section \<open>selectPort\<close>

definition selectPort ::
  "gostring list \<Rightarrow> server \<Rightarrow> gostring \<Rightarrow> gostring \<Rightarrow> balancers \<Rightarrow> gostring \<times> balancers" where
  "selectPort ks srv tag name bal =
     (if strings_HasSuffix tag ''@'' then
        (case managers srv (strings_TrimSuffix tag ''@'') of
           None \<Rightarrow> ([], bal)
         | Some mgr \<Rightarrow>
             (case Proxies mgr name of None \<Rightarrow> ([], bal) | Some proxy \<Rightarrow> (px_Port proxy, bal)))
      else
        (let avail = MapFiltered (filterManagers ks srv [tag])
               (\<lambda>mgr. case Proxies mgr name of Some proxy \<Rightarrow> (px_Port proxy, True) | None \<Rightarrow> ([], False))
         in if length avail = 0 then ([], bal)
            else robin_update (GetRobin bal tag) avail bal))"

section \<open>Routing\<close>

datatype mux_answer = NotFound | ForwardTo gostring

definition upstream :: "gostring \<Rightarrow> gostring \<Rightarrow> gostring" where
  "upstream protocol port = protocol @ ''://localhost:'' @ port"

text \<open>The handler of \<open>/:tag/:name/*\<close>.\<close>

definition mux_path ::
  "gostring list \<Rightarrow> server \<Rightarrow> gostring \<Rightarrow> gostring \<Rightarrow> gostring \<Rightarrow> gostring \<Rightarrow> balancers \<Rightarrow> mux_answer \<times> balancers" where
  "mux_path ks srv protocol url tag name bal =
     (case selectPort ks srv tag name bal of (selected, bal') \<Rightarrow>
        if selected = [] then (NotFound, bal')
        else (ForwardTo (upstream protocol selected @ strings_TrimPrefix url (''/'' @ tag @ ''/'' @ name)), bal'))"

text \<open>The sub-domain handler: indexing the split host panics when it has too few parts.\<close>

definition mux_domain ::
  "gostring \<Rightarrow> gostring list \<Rightarrow> server \<Rightarrow> gostring \<Rightarrow> gostring \<Rightarrow> gostring \<Rightarrow> balancers \<Rightarrow> (mux_answer \<times> balancers) outcome" where
  "mux_domain domain ks srv protocol host url bal =
     (let tagname = SplitX (strings_TrimSuffix host domain) ''.'' in
      if length tagname < 2 then Panics
      else case selectPort ks srv (tagname ! 0) (tagname ! 1) bal of (selected, bal') \<Rightarrow>
        Returns (if selected = [] then (NotFound, bal')
                 else (ForwardTo (upstream protocol selected @ url), bal')))"

text \<open>
  \<open>MuxServer\<close>: nothing for an empty address, and one of the two handlers otherwise.  The
  request holds what \<open>fiber\<close> gives; the parameters are those of the route.
\<close>

record http_request =
  rq_protocol :: gostring
  rq_host :: gostring
  rq_url :: gostring
  rq_tag :: gostring
  rq_name :: gostring

definition MuxServer ::
  "gostring \<Rightarrow> gostring \<Rightarrow> gostring list \<Rightarrow> server \<Rightarrow>
    (http_request \<Rightarrow> balancers \<Rightarrow> (mux_answer \<times> balancers) outcome) option" where
  "MuxServer addr domain ks srv =
     (if addr = [] then None
      else if domain = [] then
        Some (\<lambda>rq bal. Returns (mux_path ks srv (rq_protocol rq) (rq_url rq) (rq_tag rq) (rq_name rq) bal))
      else Some (\<lambda>rq bal. mux_domain domain ks srv (rq_protocol rq) (rq_host rq) (rq_url rq) bal))"

section \<open>Lemmas\<close>

lemma rr_update_nth:
  "pool \<noteq> [] \<Longrightarrow> rr_update r pool =
     (pool ! (rr_current r mod length pool),
      \<lparr>rr_current = Suc (rr_current r mod length pool), rr_pool = pool\<rparr>)"
  by (cases r) (simp add: rr_update_def Let_def not_le)

text \<open>A run of updates with the same pool.\<close>

fun rr_run :: "nat \<Rightarrow> RoundRobin \<Rightarrow> gostring list \<Rightarrow> gostring list" where
  "rr_run 0 r pool = []"
| "rr_run (Suc n) r pool = (case rr_update r pool of (x, r') \<Rightarrow> x # rr_run n r' pool)"

lemma Suc_mod_eq: "Suc (a mod n) mod n = Suc a mod n"
  by (metis mod_Suc_eq)

lemma rr_run_eq:
  "pool \<noteq> [] \<Longrightarrow> rr_run n r pool = map (\<lambda>i. pool ! ((rr_current r + i) mod length pool)) [0..<n]"
proof (induction n arbitrary: r)
  case 0
  then show ?case by simp
next
  case (Suc n)
  have "(Suc (rr_current r mod length pool) + i) mod length pool = (rr_current r + Suc i) mod length pool" for i
    using mod_add_left_eq [of "rr_current r" "length pool" "Suc i"] by simp
  then have "rr_run n \<lparr>rr_current = Suc (rr_current r mod length pool), rr_pool = pool\<rparr> pool =
      map (\<lambda>i. pool ! ((rr_current r + Suc i) mod length pool)) [0..<n]"
    using Suc by simp
  then show ?case using Suc.prems
    by (simp add: rr_update_nth upt_conv_Cons map_Suc_upt [symmetric] comp_def del: upt_Suc)
qed

text \<open>The ports the managers of a tag offer under a name, in the order of the map.\<close>

definition offered :: "gostring list \<Rightarrow> server \<Rightarrow> gostring \<Rightarrow> gostring \<Rightarrow> gostring list" where
  "offered ks srv tag name =
     List.map_filter (\<lambda>m. if Tag m = tag then map_option px_Port (Proxies m name) else None)
       (range_map ks (managers srv))"

lemma MapFiltered_offered:
  "MapFiltered (filterManagers ks srv [tag])
     (\<lambda>mgr. case Proxies mgr name of Some proxy \<Rightarrow> (px_Port proxy, True) | None \<Rightarrow> ([], False)) =
   offered ks srv tag name"
proof -
  have "MapFiltered (filter (\<lambda>m. [tag] = [] \<or> Tag m \<in> set [tag]) ms)
     (\<lambda>mgr. case Proxies mgr name of Some proxy \<Rightarrow> (px_Port proxy, True) | None \<Rightarrow> ([], False)) =
    List.map_filter (\<lambda>m. if Tag m = tag then map_option px_Port (Proxies m name) else None) ms" for ms
    by (induction ms) (auto simp: MapFiltered_eq List.map_filter_def split: option.splits)
  then show ?thesis by (simp only: filterManagers_eq offered_def)
qed

lemma selectPort_tag:
  assumes "\<not> strings_HasSuffix tag ''@''" "bal tag = None"
  shows "selectPort ks srv tag name bal =
    (case offered ks srv tag name of [] \<Rightarrow> ([], bal) | p # _ \<Rightarrow> (p, bal))"
  using assms
  by (cases "offered ks srv tag name")
    (simp_all add: selectPort_def MapFiltered_offered GetRobin_def robin_update_def rr_update_nth)

lemma selectPort_stored:
  assumes "\<not> strings_HasSuffix tag ''@''" "bal tag = Some rb"
  shows "selectPort ks srv tag name bal =
    (let av = offered ks srv tag name in
     if av = [] then ([], bal)
     else (av ! (rr_current rb mod length av),
           bal(tag \<mapsto> \<lparr>rr_current = Suc (rr_current rb mod length av), rr_pool = av\<rparr>)))"
  using assms
  by (simp add: selectPort_def MapFiltered_offered GetRobin_def robin_update_def rr_update_nth Let_def)

lemma offered_proxy:
  "p \<in> set (offered ks srv tag name) \<longleftrightarrow>
   (\<exists>k m px. k \<in> set ks \<and> managers srv k = Some m \<and> Tag m = tag \<and> Proxies m name = Some px \<and> px_Port px = p)"
proof -
  have "p \<in> set (offered ks srv tag name) \<longleftrightarrow>
      (\<exists>m \<in> set (range_map ks (managers srv)). Tag m = tag \<and> (\<exists>px. Proxies m name = Some px \<and> px_Port px = p))"
    by (force simp: offered_def List.map_filter_def split: if_splits)
  then show ?thesis by (auto simp: set_range_map)
qed

lemma selectPort_offered:
  assumes "\<not> strings_HasSuffix tag ''@''"
  shows "fst (selectPort ks srv tag name bal) \<in> insert [] (set (offered ks srv tag name)) \<and>
    (offered ks srv tag name \<noteq> [] \<longrightarrow> fst (selectPort ks srv tag name bal) \<in> set (offered ks srv tag name))"
proof (cases "bal tag")
  case None
  from selectPort_tag [OF assms, of bal ks srv name, OF this] show ?thesis by (simp split: list.splits)
next
  case (Some rb)
  from selectPort_stored [OF assms, of bal rb ks srv name, OF this] show ?thesis by (simp add: Let_def)
qed

section \<open>Properties\<close>

text \<open>A manager with one proxy and a second one of the same tag, for the witnesses.\<close>

definition demo_manager :: "gostring \<Rightarrow> gostring \<Rightarrow> manager" where
  "demo_manager cid port = (NewManager cid 1 demo_login 0)
     \<lparr>Proxies := [''web'' \<mapsto> \<lparr>px_Name = ''web'', px_Port = port, px_Remote = []\<rparr>]\<rparr>"

definition demo_mux :: server where
  "demo_mux = demo_server\<lparr>managers := [''A'' \<mapsto> demo_manager ''A'' ''1001'', ''B'' \<mapsto> demo_manager ''B'' ''1002'']\<rparr>"

lemma demo_offered: "offered [''A'', ''B''] demo_mux ''t'' ''web'' = [''1001'', ''1002'']"
  by (simp add: offered_def demo_mux_def demo_manager_def NewManager_def demo_login_def List.map_filter_def)

text \<open>A balancer that is kept and given the same pool each time goes round it: the
  \<open>i\<close>-th choice is the \<open>i\<close>-th member of the pool, counting on from where it stands and
  starting over at the end, so every member is chosen once in as many turns as there are
  members.\<close>

theorem RoundRobin_rounds:
  assumes "pool \<noteq> []"
  shows "rr_run n r pool = map (\<lambda>i. pool ! ((rr_current r + i) mod length pool)) [0..<n]"
  using assms by (rule rr_run_eq)

lemma RoundRobin_rounds_witness:
  "rr_run 3 \<lparr>rr_current = 5, rr_pool = []\<rparr> [''a'', ''b''] = [''b'', ''a'', ''b'']"
  using RoundRobin_rounds [of "[''a'', ''b'']" 3 "\<lparr>rr_current = 5, rr_pool = []\<rparr>"]
  by (simp add: upt_rec [of _ 3] flip: numeral_2_eq_2)

text \<open>C31: The server never keeps a balancer: starting from the empty table the program starts
  with, choosing a port leaves the table empty, whatever the managers, and so the choice for a
  tag is always the first manager in the order of the map, never the next one in turn.\<close>

theorem selectPort_never_rotates:
  assumes "\<not> strings_HasSuffix tag ''@''"
  shows "selectPort ks srv tag name Map.empty =
    (case offered ks srv tag name of [] \<Rightarrow> ([], Map.empty) | p # _ \<Rightarrow> (p, Map.empty))"
  using assms by (intro selectPort_tag) simp_all

lemma selectPort_never_rotates_witness:
  "selectPort [''A'', ''B''] demo_mux ''t'' ''web'' Map.empty = (''1001'', Map.empty)"
  using selectPort_never_rotates [of "''t''" "[''A'', ''B'']" demo_mux "''web''"]
  by (simp add: demo_offered strings_HasSuffix_def suffix_def)

text \<open>C30: A port is only ever chosen from a proxy registered under the name, of a manager with
  the tag or, for a tag ending in an at sign, of the manager with that id; with a tag and some
  manager offering the name, a port of theirs is chosen.\<close>

theorem selectPort_sound:
  assumes "enumerates ks (managers srv)" "fst (selectPort ks srv tag name bal) = p" "p \<noteq> []"
  shows "\<exists>k m px. managers srv k = Some m \<and> Proxies m name = Some px \<and> px_Port px = p \<and>
    (if strings_HasSuffix tag ''@'' then tag = k @ ''@'' else Tag m = tag)"
proof (cases "strings_HasSuffix tag ''@''")
  case True
  then obtain k where k: "tag = k @ ''@''" by (auto simp: strings_HasSuffix_def suffix_def)
  with True assms(2,3) show ?thesis
    by (auto simp: selectPort_def split: option.splits)
next
  case False
  from selectPort_offered [OF False, of ks srv name bal] assms(2,3)
  have "p \<in> set (offered ks srv tag name)" by auto
  with False show ?thesis by (auto simp: offered_proxy)
qed

lemma selectPort_sound_witness:
  "\<exists>k m px. managers demo_mux k = Some m \<and> Proxies m ''web'' = Some px \<and> px_Port px = ''1001'' \<and> Tag m = ''t''"
  using selectPort_sound [of "[''A'', ''B'']" demo_mux "''t''" "''web''" Map.empty "''1001''"]
    selectPort_tag [of "''t''" Map.empty "[''A'', ''B'']" demo_mux "''web''"]
  by (simp add: demo_offered enumerates_def strings_HasSuffix_def suffix_def) (simp add: demo_mux_def insert_commute)

text \<open>Path routing sends a request for \<open>/tag/name/rest\<close> to the chosen port of this machine
  with the rest of the path, and answers 404 exactly when no port was chosen.\<close>

theorem mux_path_routes:
  "mux_path ks srv protocol (''/'' @ tag @ ''/'' @ name @ rest) tag name bal =
    (let (p, bal') = selectPort ks srv tag name bal in
     (if p = [] then NotFound else ForwardTo (protocol @ ''://localhost:'' @ p @ rest), bal'))"
proof -
  have "strings_TrimPrefix (''/'' @ tag @ ''/'' @ name @ rest) (''/'' @ tag @ ''/'' @ name) = rest"
    using TrimPrefix_append [of "''/'' @ tag @ ''/'' @ name" rest] by simp
  then show ?thesis by (simp add: mux_path_def upstream_def split: prod.splits)
qed

text \<open>Sub-domain routing reads tag and name off a host \<open>tag.name.domain\<close>; a host with no dot
  before the configured domain makes the handler index out of range and panic, and no other
  host does.\<close>

theorem mux_domain_routes:
  "(CHR ''.'' \<notin> set tag \<longrightarrow> CHR ''.'' \<notin> set name \<longrightarrow>
      mux_domain domain ks srv protocol (tag @ ''.'' @ name @ ''.'' @ domain) url bal =
      Returns (let (p, bal') = selectPort ks srv tag name bal in
        (if p = [] then NotFound else ForwardTo (protocol @ ''://localhost:'' @ p @ url), bal'))) \<and>
   (mux_domain domain ks srv protocol host url bal = Panics \<longleftrightarrow>
      CHR ''.'' \<notin> set (strings_TrimSuffix host domain))"
proof (intro conjI impI)
  assume t: "CHR ''.'' \<notin> set tag" and n: "CHR ''.'' \<notin> set name"
  have "strings_Split (tag @ ''.'' @ name @ ''.'') ''.'' = [tag, name, []]"
    using t n by (simp add: Split_char_step Split_char_absent)
  moreover have "strings_TrimSuffix (tag @ ''.'' @ name @ ''.'' @ domain) domain = tag @ ''.'' @ name @ ''.''"
    using TrimSuffix_append [of "tag @ ''.'' @ name @ ''.''" domain] by simp
  ultimately show "mux_domain domain ks srv protocol (tag @ ''.'' @ name @ ''.'' @ domain) url bal =
      Returns (let (p, bal') = selectPort ks srv tag name bal in
        (if p = [] then NotFound else ForwardTo (protocol @ ''://localhost:'' @ p @ url), bal'))"
    by (simp add: mux_domain_def SplitX_def upstream_def split: prod.splits)
next
  let ?h = "strings_TrimSuffix host domain"
  have "length (SplitX ?h ''.'') < 2 \<longleftrightarrow> CHR ''.'' \<notin> set ?h"
  proof (cases "CHR ''.'' \<in> set ?h")
    case True
    then obtain a b where "?h = a @ CHR ''.'' # b" "CHR ''.'' \<notin> set a" by (metis split_list_first)
    then show ?thesis using Split_nonempty [of b "''.''"]
      by (cases "strings_Split b ''.''") (simp_all add: SplitX_def Split_char_step)
  next
    case False
    then show ?thesis by (simp add: SplitX_def Split_char_absent)
  qed
  then show "mux_domain domain ks srv protocol host url bal = Panics \<longleftrightarrow> CHR ''.'' \<notin> set ?h"
    by (simp add: mux_domain_def Let_def split: prod.splits)
qed

lemma mux_domain_routes_witness:
  "mux_domain ''ex.org'' [''A'', ''B''] demo_mux ''http'' ''ex.org'' ''/'' Map.empty = Panics \<and>
   mux_domain ''ex.org'' [''A'', ''B''] demo_mux ''http'' ''t.web.ex.org'' ''/x'' Map.empty =
     Returns (ForwardTo ''http://localhost:1001/x'', Map.empty)"
proof
  have "strings_TrimSuffix ''ex.org'' ''ex.org'' = []"
    using TrimSuffix_append [of "[]" "''ex.org''"] by simp
  then show "mux_domain ''ex.org'' [''A'', ''B''] demo_mux ''http'' ''ex.org'' ''/'' Map.empty = Panics"
    using mux_domain_routes [where domain = "''ex.org''" and host = "''ex.org''"] by simp
  have "selectPort [''A'', ''B''] demo_mux ''t'' ''web'' Map.empty = (''1001'', Map.empty)"
    using selectPort_tag [of "''t''" Map.empty "[''A'', ''B'']" demo_mux "''web''"]
    by (simp add: demo_offered strings_HasSuffix_def suffix_def)
  then show "mux_domain ''ex.org'' [''A'', ''B''] demo_mux ''http'' ''t.web.ex.org'' ''/x'' Map.empty =
      Returns (ForwardTo ''http://localhost:1001/x'', Map.empty)"
    using mux_domain_routes [where domain = "''ex.org''" and tag = "''t''" and name = "''web''" and url = "''/x''"
        and protocol = "''http''" and srv = demo_mux and ks = "[''A'', ''B'']" and bal = Map.empty]
    by simp
qed

end
