(* ===== verification/ManagerRun.thy ===== *)
theory ManagerRun
  imports Machine ManagerLaws GoIO
begin

text \<open>
  The goroutines around one manager of \<open>server/manager.go\<close>, interleaved: the message loop
  \<open>Run\<close>, \<open>awaitReceive\<close>, \<open>awaitSend\<close>, the server's \<open>awaitManagerDone\<close>, the stream
  handler that still owes the client its login response, and any number of goroutines that
  push and pop pipes and send messages.  A step is what happens between two points where
  another goroutine can be seen: a test of the closed flag, a channel operation, a write.
  Panics are recovered where the code recovers them; elsewhere they end the process.
\<close>

section \<open>Closing in steps\<close>

datatype close_pc = CTest | CSet | CConn | CSend | CRecv | CPool | CProxies | CDone

text \<open>One statement of \<open>Close\<close>; \<open>ks\<close> is the order of the range over the proxies.\<close>

fun close_step :: "gostring list \<Rightarrow> close_pc \<Rightarrow> manager \<Rightarrow> (close_pc \<times> manager \<times> effect list) outcome" where
  "close_step ks CTest m = Returns (if IsClosed m then CDone else CSet, m, [])"
| "close_step ks CSet m = Returns (CConn, m\<lparr>closed := True\<rparr>, [])"
| "close_step ks CConn m = Returns (CSend, m, [CloseConn (mconn m)])"
| "close_step ks CSend m =
     (case chan_close (sendChan m) of Returns c \<Rightarrow> Returns (CRecv, m\<lparr>sendChan := c\<rparr>, []) | _ \<Rightarrow> Panics)"
| "close_step ks CRecv m =
     (case chan_close (recvChan m) of Returns c \<Rightarrow> Returns (CPool, m\<lparr>recvChan := c\<rparr>, []) | _ \<Rightarrow> Panics)"
| "close_step ks CPool m =
     (case chan_close (pipeConnPool m) of Returns c \<Rightarrow> Returns (CProxies, m\<lparr>pipeConnPool := c\<rparr>, []) | _ \<Rightarrow> Panics)"
| "close_step ks CProxies m =
     Returns (CDone, m\<lparr>Proxies := (\<lambda>_. None)\<rparr>, concat (map Proxy_Close (range_map ks (Proxies m))))"
| "close_step ks CDone m = Returns (CDone, m, [])"

text \<open>Left alone, the steps are \<open>Manager_Close\<close>.\<close>

fun close_steps :: "nat \<Rightarrow> gostring list \<Rightarrow> close_pc \<Rightarrow> manager \<Rightarrow> effect list \<Rightarrow> (manager \<times> effect list) outcome" where
  "close_steps 0 ks pc m eff = Blocks"
| "close_steps (Suc n) ks pc m eff =
     (if pc = CDone then Returns (m, eff)
      else case close_step ks pc m of
        Returns (pc', m', e) \<Rightarrow> close_steps n ks pc' m' (eff @ e)
      | _ \<Rightarrow> Panics)"

lemma close_steps_Manager_Close: "close_steps 8 ks CTest m [] = Manager_Close ks m"
  by (simp add: eval_nat_numeral Manager_Close_def Close_body_def IsClosed_def Let_def chan_close_def)

section \<open>The goroutines\<close>

datatype main_pc =
    MReq nat | MReqSend nat
  | MGet | MHandle message | MReply message | MReplySend message
  | MNotify | MEnd

datatype rcv_pc = RTest | RGet | RCheck message | RPut message | RClose close_pc | REnd

datatype snd_pc = SGet | SPut message | SEnd

datatype done_pc = DWait | DDelete | DClose close_pc | DEnd

record mgr_run =
  mgr :: manager
  alloc :: port_state
  main :: main_pc
  rcv :: rcv_pc
  sender :: snd_pc
  dn :: done_pc
  stream_in :: reader
  login_pending :: bool
  done_sent :: bool
  is_listed :: bool
  wire_out :: "message list"
  trace :: "effect list"
  conn_closed :: bool
  crashed :: bool

text \<open>
  The events.  \<open>EvMain\<close> carries what the operating system answers to a proxy registration,
  the order of the range over the proxies and the time; \<open>EvSend\<close> whether the write
  succeeds; \<open>EvRecvFail\<close> is a read failing because the stream was closed.
\<close>

datatype event =
    EvMain os_answers "gostring list" i64
  | EvRecv "gostring list"
  | EvRecvFail
  | EvSend bool
  | EvDone "gostring list"
  | EvLogin
  | EvPush conn
  | EvPop bool
  | EvPost message

fun main_step :: "os_answers \<Rightarrow> gostring list \<Rightarrow> i64 \<Rightarrow> mgr_run \<Rightarrow> mgr_run option" where
  "main_step os ks now s =
     (case main s of
        MReq 0 \<Rightarrow> Some (s\<lparr>main := MGet\<rparr>)
      | MReq (Suc k) \<Rightarrow> Some (s\<lparr>main := (if IsClosed (mgr s) then MReq k else MReqSend k)\<rparr>)
      | MReqSend k \<Rightarrow>
          (case SendMassage_send (mgr s) (MPipeRequest \<lparr>pipeReq_ClientId = []\<rparr>) of
             Returns (_, m) \<Rightarrow> Some (s\<lparr>mgr := m, main := MReq k\<rparr>)
           | Panics \<Rightarrow> Some (s\<lparr>crashed := True\<rparr>)
           | Blocks \<Rightarrow> None)
      | MGet \<Rightarrow>
          (case getMessage (mgr s) of
             Returns (Some msg, m) \<Rightarrow> Some (s\<lparr>mgr := m, main := MHandle msg\<rparr>)
           | Returns (None, m) \<Rightarrow> Some (s\<lparr>main := MNotify\<rparr>)
           | Panics \<Rightarrow> Some (s\<lparr>crashed := True\<rparr>)
           | Blocks \<Rightarrow> None)
      | MHandle msg \<Rightarrow>
          (case handle_message os ks now msg (mgr s, alloc s) of
             Returns (resp, (m, ports), eff) \<Rightarrow>
               Some (s\<lparr>mgr := m, alloc := ports, trace := trace s @ eff,
                       main := (case resp of None \<Rightarrow> MGet | Some r \<Rightarrow> MReply r)\<rparr>)
           | Panics \<Rightarrow> Some (s\<lparr>crashed := True\<rparr>)
           | Blocks \<Rightarrow> None)
      | MReply r \<Rightarrow> Some (s\<lparr>main := (if IsClosed (mgr s) then MNotify else MReplySend r)\<rparr>)
      | MReplySend r \<Rightarrow>
          (case SendMassage_send (mgr s) r of
             Returns (_, m) \<Rightarrow> Some (s\<lparr>mgr := m, main := MGet\<rparr>)
           | Panics \<Rightarrow> Some (s\<lparr>crashed := True\<rparr>)
           | Blocks \<Rightarrow> None)
      | MNotify \<Rightarrow> Some (s\<lparr>done_sent := True, main := MEnd\<rparr>)
      | MEnd \<Rightarrow> None)"

text \<open>The closing statements as steps of a goroutine; closing the stream is recorded.\<close>

definition close_in :: "gostring list \<Rightarrow> close_pc \<Rightarrow> (close_pc \<Rightarrow> mgr_run \<Rightarrow> mgr_run) \<Rightarrow> (mgr_run \<Rightarrow> mgr_run) \<Rightarrow>
    mgr_run \<Rightarrow> mgr_run" where
  "close_in ks pc set_pc on_panic s =
     (case close_step ks pc (mgr s) of
        Returns (pc', m, eff) \<Rightarrow>
          set_pc pc' (s\<lparr>mgr := m, trace := trace s @ eff, conn_closed := (conn_closed s \<or> pc = CConn)\<rparr>)
      | _ \<Rightarrow> on_panic s)"

fun recv_step :: "gostring list \<Rightarrow> mgr_run \<Rightarrow> mgr_run option" where
  "recv_step ks s =
     (case rcv s of
        RTest \<Rightarrow> Some (s\<lparr>rcv := (if IsClosed (mgr s) then REnd else RGet)\<rparr>)
      | RGet \<Rightarrow>
          (case message_Get (stream_in s) of
             (Inl e, r) \<Rightarrow> Some (s\<lparr>stream_in := r, rcv := RClose CTest\<rparr>)
           | (Inr msg, r) \<Rightarrow> Some (s\<lparr>stream_in := r, rcv := RCheck msg\<rparr>))
      | RCheck msg \<Rightarrow> Some (s\<lparr>rcv := (if IsClosed (mgr s) then REnd else RPut msg)\<rparr>)
      | RPut msg \<Rightarrow>
          (case chan_send (recvChan (mgr s)) msg of
             Returns c \<Rightarrow> Some (s\<lparr>mgr := (mgr s)\<lparr>recvChan := c\<rparr>, rcv := RGet\<rparr>)
           | Panics \<Rightarrow> Some (s\<lparr>rcv := REnd\<rparr>)
           | Blocks \<Rightarrow> None)
      | RClose CDone \<Rightarrow> Some (s\<lparr>rcv := REnd\<rparr>)
      | RClose pc \<Rightarrow> Some (close_in ks pc (\<lambda>pc' t. t\<lparr>rcv := RClose pc'\<rparr>) (\<lambda>t. t\<lparr>rcv := REnd\<rparr>) s)
      | REnd \<Rightarrow> None)"

fun send_step :: "bool \<Rightarrow> mgr_run \<Rightarrow> mgr_run option" where
  "send_step written s =
     (case sender s of
        SGet \<Rightarrow>
          (case chan_recv (sendChan (mgr s)) of
             Returns (Some msg, c) \<Rightarrow> Some (s\<lparr>mgr := (mgr s)\<lparr>sendChan := c\<rparr>, sender := SPut msg\<rparr>)
           | Returns (None, c) \<Rightarrow> Some (s\<lparr>sender := SEnd\<rparr>)
           | Panics \<Rightarrow> Some (s\<lparr>crashed := True\<rparr>)
           | Blocks \<Rightarrow> None)
      | SPut msg \<Rightarrow>
          (if written \<and> \<not> conn_closed s
           then Some (s\<lparr>wire_out := wire_out s @ [msg], sender := SGet\<rparr>)
           else Some (s\<lparr>sender := SEnd\<rparr>))
      | SEnd \<Rightarrow> None)"

text \<open>\<open>awaitManagerDone\<close> has no \<open>recover\<close>: a panic in its \<open>Close\<close> ends the server.\<close>

fun done_step :: "gostring list \<Rightarrow> mgr_run \<Rightarrow> mgr_run option" where
  "done_step ks s =
     (case dn s of
        DWait \<Rightarrow> if done_sent s then Some (s\<lparr>dn := DDelete\<rparr>) else None
      | DDelete \<Rightarrow> Some (s\<lparr>is_listed := False, dn := DClose CTest\<rparr>)
      | DClose CDone \<Rightarrow> Some (s\<lparr>dn := DEnd\<rparr>)
      | DClose pc \<Rightarrow> Some (close_in ks pc (\<lambda>pc' t. t\<lparr>dn := DClose pc'\<rparr>) (\<lambda>t. t\<lparr>crashed := True\<rparr>) s)
      | DEnd \<Rightarrow> None)"

text \<open>
  The other goroutines.  Their tests of the closed flag happened at some earlier time, so
  the operations after the test may come at any time.
\<close>

fun mgr_step :: "event \<Rightarrow> mgr_run \<Rightarrow> mgr_run option" where
  "mgr_step (EvMain os ks now) s = main_step os ks now s"
| "mgr_step (EvRecv ks) s = recv_step ks s"
| "mgr_step EvRecvFail s = (if rcv s = RGet \<and> conn_closed s then Some (s\<lparr>rcv := RClose CTest\<rparr>) else None)"
| "mgr_step (EvSend written) s = send_step written s"
| "mgr_step (EvDone ks) s = done_step ks s"
| "mgr_step EvLogin s =
     (if login_pending s
      then Some (s\<lparr>login_pending := False,
                   wire_out := (if conn_closed s then wire_out s
                     else wire_out s @ [MLoginResponse \<lparr>loginResp_ClientId = ClientId (mgr s), loginResp_Result = ''ok''\<rparr>])\<rparr>)
      else None)"
| "mgr_step (EvPush c) s = Some (s\<lparr>mgr := snd (PushPipeConn_send (mgr s) c)\<rparr>)"
| "mgr_step (EvPop t) s =
     (case PopPipeConn_recv t (mgr s) of Returns (_, m) \<Rightarrow> Some (s\<lparr>mgr := m\<rparr>)
      | Panics \<Rightarrow> Some (s\<lparr>crashed := True\<rparr>) | Blocks \<Rightarrow> None)"
| "mgr_step (EvPost msg) s =
     (case SendMassage_send (mgr s) msg of Returns (_, m) \<Rightarrow> Some (s\<lparr>mgr := m\<rparr>)
      | Panics \<Rightarrow> Some (s\<lparr>crashed := True\<rparr>) | Blocks \<Rightarrow> None)"

text \<open>After \<open>RegisterManager\<close>: the manager is filed, \<open>Run\<close> has started its two helpers.\<close>

definition mgr_start :: "gostring \<Rightarrow> conn \<Rightarrow> LoginRequest \<Rightarrow> i64 \<Rightarrow> port_state \<Rightarrow> reader \<Rightarrow> mgr_run" where
  "mgr_start cid conn req now ports r =
     \<lparr>mgr = NewManager cid conn req now, alloc = ports, main = MReq (nat (pool_size req)),
      rcv = RTest, sender = SGet, dn = DWait, stream_in = r, login_pending = True,
      done_sent = False, is_listed = True, wire_out = [], trace = [], conn_closed = False, crashed = False\<rparr>"

definition mgr_init :: "mgr_run \<Rightarrow> bool" where
  "mgr_init s \<longleftrightarrow> (\<exists>cid conn req now ports r. s = mgr_start cid conn req now ports r)"

end
