(* ===== verification/ManagerRunLaws.thy ===== *)
theory ManagerRunLaws
  imports ManagerRun MessageLaws
begin

text \<open>
  Safety of the interleaved goroutines of a manager: the flags and channels are a function
  of how far \<open>awaitReceive\<close> has come, which makes it the only one that closes; nothing
  panics outside a \<open>recover\<close>; the manager is closed before the server hears that it is
  done.
\<close>

section \<open>What every operation keeps\<close>

definition flags :: "manager \<Rightarrow> bool \<times> bool \<times> bool \<times> bool" where
  "flags m = (closed m, ch_closed (sendChan m), ch_closed (recvChan m), ch_closed (pipeConnPool m))"

definition proxies_ok :: "(gostring \<rightharpoonup> srv_proxy) \<Rightarrow> bool" where
  "proxies_ok f \<longleftrightarrow> (\<forall>k p. f k = Some p \<longrightarrow> px_Name p = k) \<and> finite (dom f)"

lemma proxies_ok_intros [simp]:
  "proxies_ok (\<lambda>_. None)" "proxies_ok f \<Longrightarrow> proxies_ok (f(k := None))" "proxies_ok f \<Longrightarrow> proxies_ok (f(px_Name p \<mapsto> p))"
  unfolding proxies_ok_def by (simp_all add: domIff)

definition mgr_shape :: "manager \<Rightarrow> bool" where
  "mgr_shape m \<longleftrightarrow>
     1 \<le> PoolSize m \<and> PoolSize m \<le> MaxPoolSize \<and>
     ch_cap (pipeConnPool m) = nat (PoolSize m * 2) \<and>
     ch_cap (recvChan m) = 10 \<and> ch_cap (sendChan m) = 10 \<and>
     chan_ok (pipeConnPool m) \<and> chan_ok (recvChan m) \<and> chan_ok (sendChan m) \<and> proxies_ok (Proxies m)"

lemma mgr_inv_flags: "mgr_inv m \<longleftrightarrow> mgr_shape m \<and> (\<exists>b. flags m = (b, b, b, b))"
  unfolding mgr_inv_def mgr_shape_def flags_def proxies_ok_def by (auto simp del: split_paired_Ex)

definition keeps :: "manager \<Rightarrow> manager \<Rightarrow> bool" where
  "keeps m m' \<longleftrightarrow> flags m' = flags m \<and> mconn m' = mconn m \<and> (mgr_shape m \<longrightarrow> mgr_shape m')"

named_theorems keeps_intros \<open>operations that keep flags and shape\<close>

lemma keeps_refl [simp]: "keeps m m"
  by (simp add: keeps_def)

lemma keeps_trans: "keeps m m' \<Longrightarrow> keeps m' m'' \<Longrightarrow> keeps m m''"
  by (simp add: keeps_def)

lemma chan_send_keeps:
  "chan_send c x = Returns c' \<Longrightarrow> ch_cap c' = ch_cap c \<and> ch_closed c' = ch_closed c \<and> chan_ok c'"
  using chan_send_ok [of c x c'] by (auto simp: chan_send_def split: if_splits)

lemma chan_recv_keeps:
  "chan_recv c = Returns (v, c') \<Longrightarrow> ch_cap c' = ch_cap c \<and> ch_closed c' = ch_closed c \<and> (chan_ok c \<longrightarrow> chan_ok c')"
  using chan_recv_ok [of c v c'] by (auto simp: chan_recv_def split: if_splits list.splits)

lemma keeps_channels:
  "ch_cap c = ch_cap (sendChan m) \<and> ch_closed c = ch_closed (sendChan m) \<Longrightarrow> chan_ok (sendChan m) \<longrightarrow> chan_ok c \<Longrightarrow>
     keeps m (m\<lparr>sendChan := c\<rparr>)"
  "ch_cap d = ch_cap (recvChan m) \<and> ch_closed d = ch_closed (recvChan m) \<Longrightarrow> chan_ok (recvChan m) \<longrightarrow> chan_ok d \<Longrightarrow>
     keeps m (m\<lparr>recvChan := d\<rparr>)"
  "ch_cap p = ch_cap (pipeConnPool m) \<and> ch_closed p = ch_closed (pipeConnPool m) \<Longrightarrow>
     chan_ok (pipeConnPool m) \<longrightarrow> chan_ok p \<Longrightarrow> keeps m (m\<lparr>pipeConnPool := p\<rparr>)"
  by (simp_all add: keeps_def flags_def mgr_shape_def)

lemma keeps_SendMassage_send [keeps_intros]:
  "SendMassage_send m msg = Returns (e, m') \<Longrightarrow> keeps m m'"
  by (auto simp: SendMassage_send_def split: outcome.splits dest!: chan_send_keeps intro: keeps_channels)

lemma keeps_getMessage [keeps_intros]: "getMessage m = Returns (v, m') \<Longrightarrow> keeps m m'"
  by (auto simp: getMessage_def split: outcome.splits dest!: chan_recv_keeps intro: keeps_channels)

lemma keeps_PushPipeConn_send [keeps_intros]: "keeps m (snd (PushPipeConn_send m c))"
  by (auto simp: PushPipeConn_send_def chan_try_send_def split: outcome.splits option.splits
      dest!: chan_send_keeps intro: keeps_channels)

lemma keeps_PopPipeConn_recv [keeps_intros]: "PopPipeConn_recv t m = Returns (v, m') \<Longrightarrow> keeps m m'"
  by (auto simp: PopPipeConn_recv_def split: outcome.splits option.splits if_splits
      dest!: chan_recv_keeps intro: keeps_channels)

lemma keeps_ListProxies: "keeps m (ListProxies ks m)"
  by (simp add: keeps_def flags_def mgr_shape_def ListProxies_def Let_def)

lemma keeps_Proxies: "(proxies_ok (Proxies m) \<Longrightarrow> proxies_ok f) \<Longrightarrow> keeps m (m\<lparr>Proxies := f\<rparr>)"
  by (simp add: keeps_def flags_def mgr_shape_def)

lemma keeps_delete: "keeps m (m\<lparr>Proxies := (Proxies m)(k := None)\<rparr>)"
  by (simp add: keeps_Proxies del: fun_upd_apply)

lemma keeps_RemoveProxy: "RemoveProxy req m = (m', eff) \<Longrightarrow> keeps m m'"
  by (auto simp del: fun_upd_apply simp: RemoveProxy_def Let_def keeps_delete split: option.splits)

lemma keeps_insert: "keeps m (m\<lparr>Proxies := (Proxies m)(px_Name p \<mapsto> p)\<rparr>)"
  by (simp add: keeps_Proxies del: fun_upd_apply)

lemma keeps_RegisterProxy:
  "RegisterProxy os req (m, ports) = Returns (r, (m', ports'), eff) \<Longrightarrow> keeps m m'"
  unfolding RegisterProxy_def Let_def
  by (auto simp del: fun_upd_apply intro: keeps_insert split: outcome.splits prod.splits sum.splits)

lemma keeps_beat: "keeps m (m\<lparr>LastBeatTime := t, Latency := e\<rparr>)"
  by (simp add: keeps_def flags_def mgr_shape_def)

lemma keeps_handle_message [keeps_intros]:
  assumes "handle_message os ks now msg (m, ports) = Returns (r, (m', ports'), eff)"
  shows "keeps m m'"
proof (cases msg)
  case (MProxyRequest v)
  show ?thesis
  proof (cases "proxyReq_Enable v")
    case True
    then obtain r1 m1 e1 where "RegisterProxy os v (m, ports) = Returns (r1, (m1, ports'), e1)"
      "m' = ListProxies ks m1"
      using assms MProxyRequest by (auto simp: handle_message_def split: outcome.splits)
    then show ?thesis using keeps_RegisterProxy keeps_ListProxies keeps_trans by blast
  next
    case False
    then obtain m1 e1 where "RemoveProxy v m = (m1, e1)" "m' = ListProxies ks m1"
      using assms MProxyRequest by (auto simp: handle_message_def split: prod.splits)
    then show ?thesis using keeps_RemoveProxy keeps_ListProxies keeps_trans by blast
  qed
qed (use assms keeps_beat in \<open>auto simp: handle_message_def\<close>)

section \<open>Nothing else panics\<close>

lemma FindAvailable_loop_Panics: "FindAvailable_loop free st k i \<noteq> Panics"
proof (induction free st k i rule: FindAvailable_loop.induct)
  case (1 free st k i)
  then show ?case by (subst FindAvailable_loop.simps) (auto split: option.splits)
qed

lemma FindAvailablePort_Panics: "FindAvailablePort free init st \<noteq> Panics"
  by (simp add: FindAvailablePort_def Let_def FindAvailable_loop_Panics)

lemma handle_message_Panics: "handle_message os ks now msg mp \<noteq> Panics"
proof (cases mp)
  case (Pair m ports)
  have "RegisterProxy os v (m, ports) \<noteq> Panics" for v
    using FindAvailablePort_Panics
    by (auto simp: RegisterProxy_def Let_def split: outcome.splits prod.splits sum.splits)
  then show ?thesis using Pair
    by (cases msg) (auto simp: handle_message_def split: outcome.splits prod.splits)
qed

lemma recovered:
  "SendMassage_send m msg \<noteq> Panics" "getMessage m \<noteq> Panics" "PopPipeConn_recv t m \<noteq> Panics"
  by (auto simp: SendMassage_send_def getMessage_def PopPipeConn_recv_def chan_recv_def
      split: outcome.splits list.splits option.splits)

section \<open>The invariant\<close>

text \<open>The flags as a function of where \<open>awaitReceive\<close> is.\<close>

fun expected :: "rcv_pc \<Rightarrow> bool \<times> bool \<times> bool \<times> bool" where
  "expected (RClose pc) =
     (case pc of
        CTest \<Rightarrow> (False, False, False, False)
      | CSet \<Rightarrow> (False, False, False, False)
      | CConn \<Rightarrow> (True, False, False, False)
      | CSend \<Rightarrow> (True, False, False, False)
      | CRecv \<Rightarrow> (True, True, False, False)
      | CPool \<Rightarrow> (True, True, True, False)
      | CProxies \<Rightarrow> (True, True, True, True)
      | CDone \<Rightarrow> (True, True, True, True))"
| "expected REnd = (True, True, True, True)"
| "expected _ = (False, False, False, False)"

definition told_done :: "mgr_run \<Rightarrow> bool" where
  "told_done s \<longleftrightarrow> main s \<in> {MNotify, MEnd} \<or> done_sent s \<or> dn s \<noteq> DWait"

definition run_inv :: "mgr_run \<Rightarrow> bool" where
  "run_inv s \<longleftrightarrow>
     \<not> crashed s \<and> mgr_shape (mgr s) \<and> flags (mgr s) = expected (rcv s) \<and>
     (told_done s \<longrightarrow> closed (mgr s)) \<and> (dn s \<noteq> DWait \<longrightarrow> done_sent s) \<and>
     (\<forall>pc. dn s = DClose pc \<longrightarrow> pc = CTest \<or> pc = CDone) \<and>
     (is_listed s \<longleftrightarrow> dn s = DWait \<or> dn s = DDelete)"

lemma run_inv_start: "mgr_init s \<Longrightarrow> run_inv s"
  using pool_size_bounds
  by (auto simp: mgr_init_def mgr_start_def run_inv_def told_done_def mgr_shape_def flags_def
      NewManager_def chan_ok_def make_chan_def)

lemma run_inv_mgr:
  "run_inv s \<Longrightarrow> keeps (mgr s) m \<Longrightarrow> run_inv (s\<lparr>mgr := m\<rparr>)"
proof -
  assume inv: "run_inv s" and k: "keeps (mgr s) m"
  then have f: "flags m = flags (mgr s)" "mgr_shape m" by (simp_all add: run_inv_def keeps_def)
  then have "closed m = closed (mgr s)" by (simp add: flags_def)
  with inv f show ?thesis by (simp add: run_inv_def told_done_def)
qed

text \<open>Steps of the message loop: it tells the server only once the manager is closed.\<close>

lemma run_inv_main:
  "run_inv s \<Longrightarrow> (pc = MNotify \<or> pc = MEnd \<longrightarrow> closed (mgr s)) \<Longrightarrow> run_inv (s\<lparr>main := pc\<rparr>)"
  by (auto simp: run_inv_def told_done_def)

lemma run_inv_other:
  "run_inv (s\<lparr>alloc := a, trace := t\<rparr>) = run_inv s"
  "run_inv (s\<lparr>stream_in := r\<rparr>) = run_inv s"
  "run_inv (s\<lparr>sender := p\<rparr>) = run_inv s"
  "run_inv (s\<lparr>wire_out := w, sender := p\<rparr>) = run_inv s"
  "run_inv (s\<lparr>login_pending := b, wire_out := w\<rparr>) = run_inv s"
  "run_inv (s\<lparr>login_pending := b\<rparr>) = run_inv s"
  "run_inv (s\<lparr>wire_out := w\<rparr>) = run_inv s"
  "run_inv (s\<lparr>trace := t, conn_closed := b\<rparr>) = run_inv s"
  by (simp_all add: run_inv_def told_done_def)

lemma getMessage_None: "getMessage m = Returns (None, m') \<Longrightarrow> ch_closed (recvChan m)"
  by (auto simp: getMessage_def chan_recv_def split: outcome.splits list.splits if_splits)

lemma run_inv_closed: "run_inv s \<Longrightarrow> ch_closed (recvChan (mgr s)) \<Longrightarrow> closed (mgr s)"
  by (cases "rcv s") (auto simp: run_inv_def flags_def split: close_pc.splits)

lemma run_inv_main_step:
  assumes inv: "run_inv s" and step: "main_step os ks now s = Some s'"
  shows "run_inv s'"
proof (cases "main s")
  case (MReq k)
  then show ?thesis using step inv run_inv_main [OF inv, of "MReq (k - 1)"] run_inv_main [OF inv, of MGet]
      run_inv_main [OF inv, of "MReqSend (k - 1)"]
    by (cases k) (auto split: if_splits)
next
  case (MReqSend k)
  then obtain e m where "SendMassage_send (mgr s) (MPipeRequest \<lparr>pipeReq_ClientId = []\<rparr>) = Returns (e, m)"
    "s' = s\<lparr>mgr := m, main := MReq k\<rparr>"
    using step recovered(1) by (auto split: outcome.splits)
  then show ?thesis using run_inv_main [OF run_inv_mgr [OF inv keeps_SendMassage_send]] by auto
next
  case MGet
  then consider (msg) msg m where "getMessage (mgr s) = Returns (Some msg, m)" "s' = s\<lparr>mgr := m, main := MHandle msg\<rparr>"
    | (stop) m where "getMessage (mgr s) = Returns (None, m)" "s' = s\<lparr>main := MNotify\<rparr>"
    using step recovered(2) by (auto split: outcome.splits option.splits)
  then show ?thesis
  proof cases
    case msg
    then show ?thesis using run_inv_main [OF run_inv_mgr [OF inv keeps_getMessage]] by auto
  next
    case stop
    have "closed (mgr s)" using getMessage_None [OF stop(1)] by (rule run_inv_closed [OF inv])
    then show ?thesis using stop(2) run_inv_main [OF inv] by simp
  qed
next
  case (MHandle msg)
  then obtain r m ports eff where h: "handle_message os ks now msg (mgr s, alloc s) = Returns (r, (m, ports), eff)"
    "s' = s\<lparr>mgr := m, main := (case r of None \<Rightarrow> MGet | Some r \<Rightarrow> MReply r), alloc := ports, trace := trace s @ eff\<rparr>"
    using step handle_message_Panics by (auto split: outcome.splits)
  have "run_inv (s\<lparr>mgr := m, main := (case r of None \<Rightarrow> MGet | Some r \<Rightarrow> MReply r)\<rparr>)"
    using run_inv_main [OF run_inv_mgr [OF inv keeps_handle_message [OF h(1)]]] by (simp split: option.splits)
  then show ?thesis unfolding h(2) by (simp only: run_inv_other)
next
  case (MReply r)
  then show ?thesis using step run_inv_main [OF inv, of MNotify] run_inv_main [OF inv, of "MReplySend r"]
    by (auto simp: IsClosed_def)
next
  case (MReplySend r)
  then obtain e m where "SendMassage_send (mgr s) r = Returns (e, m)" "s' = s\<lparr>mgr := m, main := MGet\<rparr>"
    using step recovered(1) by (auto split: outcome.splits)
  then show ?thesis using run_inv_main [OF run_inv_mgr [OF inv keeps_SendMassage_send]] by auto
next
  case MNotify
  then have "closed (mgr s)" using inv by (simp add: run_inv_def told_done_def)
  then show ?thesis using MNotify step inv by (auto simp: run_inv_def told_done_def)
qed (use step in simp)

text \<open>
  Moving \<open>awaitReceive\<close> on: the manager may change, as long as the flags become what is
  expected at the new place and a closed manager stays closed.
\<close>

lemma run_inv_rcv:
  assumes "run_inv s" "mgr_shape m" "flags m = expected pc" "closed (mgr s) \<longrightarrow> closed m"
  shows "run_inv (s\<lparr>mgr := m, trace := t, conn_closed := b, rcv := pc\<rparr>)"
  using assms by (auto simp: run_inv_def told_done_def)

lemma run_inv_rcv_same:
  assumes "run_inv s" "expected pc = expected (rcv s)"
  shows "run_inv (s\<lparr>rcv := pc\<rparr>)"
  using assms by (auto simp: run_inv_def told_done_def)

lemma closing_step:
  assumes "flags m = expected (RClose pc)" "mgr_shape m" "pc \<noteq> CDone"
  obtains pc' m' eff where "close_step ks pc m = Returns (pc', m', eff)" "flags m' = expected (RClose pc')"
    "mgr_shape m'" "closed m \<longrightarrow> closed m'"
  using assms
  by (cases pc) (auto simp: flags_def mgr_shape_def chan_close_def chan_ok_def IsClosed_def split: outcome.splits)

lemma run_inv_close_in_rcv:
  assumes inv: "run_inv s" and rcv: "rcv s = RClose pc" "pc \<noteq> CDone"
  shows "run_inv (close_in ks pc (\<lambda>pc' t. t\<lparr>rcv := RClose pc'\<rparr>) (\<lambda>t. t\<lparr>rcv := REnd\<rparr>) s)"
proof -
  have f: "flags (mgr s) = expected (RClose pc)" "mgr_shape (mgr s)"
    using inv rcv(1) by (auto simp: run_inv_def)
  obtain pc' m' eff where c: "close_step ks pc (mgr s) = Returns (pc', m', eff)"
    "flags m' = expected (RClose pc')" "mgr_shape m'" "closed (mgr s) \<longrightarrow> closed m'"
    using closing_step [OF f rcv(2)] by blast
  have "run_inv (s\<lparr>mgr := m', trace := t, conn_closed := b, rcv := RClose pc'\<rparr>)" for t b
    using inv c(3,2,4) by (rule run_inv_rcv)
  then show ?thesis using c(1) by (simp add: close_in_def)
qed

lemma recv_step_close:
  "rcv s = RClose pc \<Longrightarrow> recv_step ks s =
     (if pc = CDone then Some (s\<lparr>rcv := REnd\<rparr>)
      else Some (close_in ks pc (\<lambda>pc' t. t\<lparr>rcv := RClose pc'\<rparr>) (\<lambda>t. t\<lparr>rcv := REnd\<rparr>) s))"
  by (cases pc) simp_all

lemma run_inv_recv_step:
  assumes inv: "run_inv s" and step: "recv_step ks s = Some s'"
  shows "run_inv s'"
proof (cases "rcv s")
  case RTest
  then have "\<not> closed (mgr s)" using inv by (simp add: run_inv_def flags_def)
  then show ?thesis using RTest step run_inv_rcv_same [OF inv, of RGet] by (auto simp: IsClosed_def)
next
  case RGet
  then consider msg r where "s' = s\<lparr>stream_in := r, rcv := RCheck msg\<rparr>" | r where "s' = s\<lparr>stream_in := r, rcv := RClose CTest\<rparr>"
    using step by (auto split: sum.splits prod.splits)
  then show ?thesis
  proof cases
    case (1 msg r)
    have "run_inv (s\<lparr>stream_in := r\<rparr>\<lparr>rcv := RCheck msg\<rparr>)"
      using inv RGet by (intro run_inv_rcv_same) (simp_all add: run_inv_other)
    with 1 show ?thesis by simp
  next
    case (2 r)
    have "run_inv (s\<lparr>stream_in := r\<rparr>\<lparr>rcv := RClose CTest\<rparr>)"
      using inv RGet by (intro run_inv_rcv_same) (simp_all add: run_inv_other)
    with 2 show ?thesis by simp
  qed
next
  case (RCheck msg)
  then have "\<not> closed (mgr s)" using inv by (simp add: run_inv_def flags_def)
  then show ?thesis using RCheck step run_inv_rcv_same [OF inv, of "RPut msg"] by (auto simp: IsClosed_def)
next
  case (RPut msg)
  then have "flags (mgr s) = (False, False, False, False)" and sh: "mgr_shape (mgr s)"
    using inv by (auto simp: run_inv_def)
  then have np: "chan_send (recvChan (mgr s)) msg \<noteq> Panics" by (simp add: flags_def)
  then obtain c where c: "chan_send (recvChan (mgr s)) msg = Returns c"
    "s' = s\<lparr>mgr := (mgr s)\<lparr>recvChan := c\<rparr>, rcv := RGet\<rparr>"
    using RPut step by (auto split: outcome.splits)
  have "keeps (mgr s) ((mgr s)\<lparr>recvChan := c\<rparr>)"
    using chan_send_keeps [OF c(1)] by (intro keeps_channels) auto
  from run_inv_rcv_same [OF run_inv_mgr [OF inv this], of RGet] RPut c(2) show ?thesis by simp
next
  case (RClose pc)
  show ?thesis
  proof (cases "pc = CDone")
    case True
    with RClose step run_inv_rcv_same [OF inv, of REnd] show ?thesis by simp
  next
    case False
    with step run_inv_close_in_rcv [OF inv RClose False, of ks] show ?thesis
      unfolding recv_step_close [OF RClose] by simp
  qed
qed (use step in simp)

lemma run_inv_done_step:
  assumes inv: "run_inv s" and step: "done_step ks s = Some s'"
  shows "run_inv s'"
proof (cases "dn s")
  case DWait
  with inv step show ?thesis by (auto simp: run_inv_def told_done_def split: if_splits)
next
  case DDelete
  with inv step show ?thesis by (auto simp: run_inv_def told_done_def)
next
  case (DClose pc)
  then have pc: "pc = CTest \<or> pc = CDone" "closed (mgr s)" using inv by (auto simp: run_inv_def told_done_def)
  with DClose inv step show ?thesis
    by (auto simp: close_in_def IsClosed_def run_inv_def told_done_def)
qed (use step in simp)

lemma run_inv_send_step:
  assumes inv: "run_inv s" and step: "send_step b s = Some s'"
  shows "run_inv s'"
proof (cases "sender s")
  case SGet
  have np: "chan_recv c \<noteq> Panics" for c :: "message chan"
    by (simp add: chan_recv_def split: list.splits)
  consider (msg) msg c where "chan_recv (sendChan (mgr s)) = Returns (Some msg, c)"
      "s' = s\<lparr>mgr := (mgr s)\<lparr>sendChan := c\<rparr>, sender := SPut msg\<rparr>"
    | (stop) "s' = s\<lparr>sender := SEnd\<rparr>"
    using SGet step np by (auto split: outcome.splits option.splits)
  then show ?thesis
  proof cases
    case msg
    have "keeps (mgr s) ((mgr s)\<lparr>sendChan := c\<rparr>)"
      using chan_recv_keeps [OF msg(1)] by (intro keeps_channels) auto
    from run_inv_mgr [OF inv this] show ?thesis
      using msg(2) run_inv_other(3) [where s = "s\<lparr>mgr := (mgr s)\<lparr>sendChan := c\<rparr>\<rparr>"] by simp
  next
    case stop
    with inv show ?thesis by (simp add: run_inv_other)
  qed
qed (use inv step in \<open>auto simp: run_inv_other split: if_splits\<close>)

lemma run_inv_step: "run_inv s \<Longrightarrow> mgr_step e s = Some s' \<Longrightarrow> run_inv s'"
proof (cases e)
  case (EvPop t)
  assume "run_inv s" "mgr_step e s = Some s'"
  with EvPop show ?thesis using recovered(3)
    by (auto split: outcome.splits intro: run_inv_mgr keeps_PopPipeConn_recv)
next
  case (EvPost msg)
  assume "run_inv s" "mgr_step e s = Some s'"
  with EvPost show ?thesis using recovered(1)
    by (auto split: outcome.splits intro: run_inv_mgr keeps_SendMassage_send)
next
  case EvRecvFail
  assume "run_inv s" "mgr_step e s = Some s'"
  with EvRecvFail show ?thesis by (auto intro!: run_inv_rcv_same split: if_splits)
next
  case EvLogin
  assume "run_inv s" "mgr_step e s = Some s'"
  with EvLogin show ?thesis by (auto simp: run_inv_other split: if_splits)
qed (auto intro: run_inv_main_step run_inv_recv_step run_inv_send_step run_inv_done_step run_inv_mgr
      keeps_PushPipeConn_send simp del: main_step.simps recv_step.simps send_step.simps done_step.simps)

interpretation mgr_system: invariant_system mgr_init mgr_step run_inv
  by unfold_locales (auto intro: run_inv_start run_inv_step)

section \<open>Properties\<close>

text \<open>C8: However the goroutines of a manager are interleaved, and whatever the client sends or
  when it disconnects, nothing panics outside a \<open>recover\<close>: the server process survives, every
  channel is closed at most once, and the manager's fields keep their shape.\<close>

theorem manager_never_crashes:
  assumes "mgr_init s" "exec mgr_step es s = Some t"
  shows "\<not> crashed t \<and> mgr_shape (mgr t) \<and>
    (\<forall>pc. rcv t = RClose pc \<longrightarrow> close_step ks pc (mgr t) \<noteq> Panics) \<and>
    (\<forall>pc. dn t = DClose pc \<longrightarrow> close_step ks pc (mgr t) \<noteq> Panics)"
proof -
  have inv: "run_inv t" using assms by (rule mgr_system.reachable_inv)
  have "close_step ks pc (mgr t) \<noteq> Panics" if "rcv t = RClose pc" for pc
  proof (cases "pc = CDone")
    case False
    moreover have "flags (mgr t) = expected (RClose pc)" "mgr_shape (mgr t)"
      using inv that by (auto simp: run_inv_def)
    ultimately show ?thesis using closing_step [of "mgr t" pc ks] by fastforce
  qed simp
  moreover have "close_step ks pc (mgr t) \<noteq> Panics" if "dn t = DClose pc" for pc
    using inv that by (auto simp: run_inv_def)
  ultimately show ?thesis using inv by (auto simp: run_inv_def)
qed

text \<open>A concrete run: the client registers a proxy and disconnects while the message waits.\<close>

definition reg_web :: message where
  "reg_web = MProxyRequest \<lparr>proxyReq_Name = ''w'', proxyReq_Type = [], proxyReq_Port = ''80'',
     proxyReq_Target = [], proxyReq_Enable = True\<rparr>"

definition demo_req :: LoginRequest where
  "demo_req = \<lparr>login_Version = 0, login_AuthCode = [], login_PoolSize = 1, login_HostName = [],
     login_OS = [], login_Tag = []\<rparr>"

definition demo_start :: mgr_run where
  "demo_start = mgr_start ''id'' 1 demo_req 0 (demo_ports False) \<lparr>chunks = [wire reg_web], final_err = EOF\<rparr>"

definition free_os :: os_answers where
  "free_os = \<lparr>os_probe = (\<lambda>_ _. True), os_listen = (\<lambda>p. Inr (Some p))\<rparr>"

abbreviation run_main :: event where "run_main \<equiv> EvMain free_os [] 0"

lemma demo_init: "mgr_init demo_start"
  unfolding mgr_init_def demo_start_def by blast

lemma reg_web_read: "message_Get \<lparr>chunks = [wire reg_web], final_err = EOF\<rparr> = (Inr reg_web, \<lparr>chunks = [], final_err = EOF\<rparr>)"
proof -
  have e: "escape ''name'' = ''name''" "escape ''w'' = ''w''" "escape ''port'' = ''port''" "escape ''80'' = ''80''"
    "escape ''enable'' = ''enable''"
    by (simp_all add: escape.simps escape_ascii_def quote_def backslash_def)
  have "length (json_Marshal (fields_of reg_web)) < 2 ^ 31"
    using e by (simp add: reg_web_def json_Marshal_def is_empty_val_def json_string_def)
  then have "sendable reg_web" by (simp add: sendable_def reg_web_def)
  then have "message_Get \<lparr>chunks = [wire reg_web], final_err = EOF\<rparr> =
      (Inr (sanitize_message reg_web), \<lparr>chunks = [wire reg_web], final_err = EOF\<rparr>\<lparr>chunks := []\<rparr>)"
    by (rule messages.dec_chunk) simp
  moreover have "sanitize_message reg_web = reg_web"
  proof (rule sanitize_message_valid)
    have "message_strings reg_web = [''w'', [], ''80'', []]"
      by (simp add: reg_web_def message_strings_def List.map_filter_def)
    moreover have "ValidString ''w''" "ValidString []" "ValidString ''80''"
      by (rule ValidString_ascii; fastforce)+
    ultimately show "list_all ValidString (message_strings reg_web)" by simp
  qed
  ultimately show ?thesis by simp
qed

lemma Get_empty: "message_Get \<lparr>chunks = [], final_err = e\<rparr> = (Inl (ErrIO e), \<lparr>chunks = [], final_err = e\<rparr>)"
  by (simp add: message_Get_def message_Read_def conn_Read_def)

lemma manager_never_crashes_witness:
  "\<exists>t. exec mgr_step [EvRecv [], EvRecv [], EvPush 7, run_main] demo_start = Some t \<and> \<not> crashed t"
proof -
  let ?es = "[EvRecv [], EvRecv [], EvPush 7, run_main]"
  have "\<exists>t. exec mgr_step ?es demo_start = Some t"
    by (simp add: demo_start_def mgr_start_def NewManager_def IsClosed_def reg_web_read pool_size_def demo_req_def
        MaxPoolSize_def)
  then show ?thesis using manager_never_crashes [OF demo_init, of ?es] by blast
qed

text \<open>The answer to a login may come too late: there is a schedule in which \<open>Run\<close>'s first
  pipe request is written to the client before the login response, so that the first message
  the client reads is not a login response.\<close>

theorem login_response_overtaken:
  "\<exists>es t. exec mgr_step es (mgr_start cid conn demo_req now ports r) = Some t \<and>
     wire_out t = [MPipeRequest \<lparr>pipeReq_ClientId = []\<rparr>,
                   MLoginResponse \<lparr>loginResp_ClientId = cid, loginResp_Result = ''ok''\<rparr>]"
  by (rule exI [of _ "[run_main, run_main, EvSend True, EvSend True, EvLogin]"])
    (simp add: mgr_start_def NewManager_def IsClosed_def pool_size_def demo_req_def MaxPoolSize_def
      SendMassage_send_def chan_send_def chan_recv_def make_chan_def)

lemma handle_reg_web:
  "handle_message free_os [] 0 reg_web (m, demo_ports False) =
     Returns (Some (MProxyResponse \<lparr>proxyResp_Name = ''w'', proxyResp_Port = ''80'', proxyResp_Enable = False,
                      proxyResp_Result = ''ok''\<rparr>),
       (ListProxies [] (m\<lparr>Proxies := (Proxies m)(''w'' \<mapsto> \<lparr>px_Name = ''w'', px_Port = ''80'', px_Remote = []\<rparr>)\<rparr>),
        demo_ports False), [OpenListener ''80''])"
proof -
  have i: "strconv_Itoa 80 = ''80''" by code_simp
  have "strconv_Atoi ''80'' = Some 80" using Atoi_Itoa [of 80] unfolding i by simp
  then have "FindAvailablePort (os_probe free_os) (case strconv_Atoi ''80'' of None \<Rightarrow> 0 | Some n \<Rightarrow> n) (demo_ports False) =
      Returns (80, demo_ports False)"
    by (simp add: FindAvailablePort_def demo_ports_def listen_ok_def free_os_def)
  then have "RegisterProxy free_os \<lparr>proxyReq_Name = ''w'', proxyReq_Type = [], proxyReq_Port = ''80'',
      proxyReq_Target = [], proxyReq_Enable = True\<rparr> (m, demo_ports False) =
     Returns (\<lparr>proxyResp_Name = ''w'', proxyResp_Port = ''80'', proxyResp_Enable = False, proxyResp_Result = ''ok''\<rparr>,
       (m\<lparr>Proxies := (Proxies m)(''w'' \<mapsto> \<lparr>px_Name = ''w'', px_Port = ''80'', px_Remote = []\<rparr>)\<rparr>, demo_ports False),
       [OpenListener ''80''])"
    by (simp add: RegisterProxy_def NewProxy_def ActualPort_def i free_os_def Let_def)
  then show ?thesis by (simp add: handle_message_def reg_web_def)
qed

text \<open>The schedule: disconnect while the registration waits, then handle it, then finish everything.\<close>

definition leak_schedule :: "event list" where
  "leak_schedule =
     [run_main, run_main, run_main,
      EvRecv [], EvRecv [], EvRecv [], EvRecv [], EvRecv [], EvRecv [], EvRecv [], EvRecv [], EvRecv [],
      EvRecv [], EvRecv [], EvRecv [], EvRecv [],
      run_main, run_main, run_main, run_main,
      EvDone [], EvDone [], EvDone [], EvDone [], EvSend True, EvSend True]"

text \<open>C18: The server hears that a manager is done only after the manager's closed flag has been
  set, by \<open>awaitReceive\<close>, which alone closes: when that goroutine has ended, the flag is set and
  all three channels are closed, but between the two the server may be told while channels are
  still open.  A manager is listed until \<open>awaitManagerDone\<close> has deleted it, and the \<open>Close\<close> that
  this goroutine then calls finds the flag set, closes nothing and changes nothing of the manager.\<close>

theorem done_after_close:
  assumes "mgr_init s" "exec mgr_step es s = Some t"
  shows "(told_done t \<longrightarrow> closed (mgr t)) \<and>
    (rcv t = REnd \<longrightarrow> closed (mgr t) \<and> ch_closed (sendChan (mgr t)) \<and> ch_closed (recvChan (mgr t)) \<and>
       ch_closed (pipeConnPool (mgr t))) \<and>
    (is_listed t \<longleftrightarrow> dn t = DWait \<or> dn t = DDelete) \<and>
    (\<forall>ks pc t'. dn t = DClose pc \<longrightarrow> done_step ks t = Some t' \<longrightarrow>
       mgr t' = mgr t \<and> trace t' = trace t \<and> conn_closed t' = conn_closed t)"
proof (intro conjI impI allI)
  have inv: "run_inv t" using assms by (rule mgr_system.reachable_inv)
  show "told_done t \<Longrightarrow> closed (mgr t)" "is_listed t \<longleftrightarrow> dn t = DWait \<or> dn t = DDelete"
    using inv by (simp_all add: run_inv_def)
  show "closed (mgr t)" "ch_closed (sendChan (mgr t))" "ch_closed (recvChan (mgr t))" "ch_closed (pipeConnPool (mgr t))"
    if "rcv t = REnd" using inv that by (simp_all add: run_inv_def flags_def)
  fix ks pc t' assume d: "dn t = DClose pc" "done_step ks t = Some t'"
  have "pc = CTest \<or> pc = CDone" using inv d(1) by (simp add: run_inv_def)
  with d show "mgr t' = mgr t" "trace t' = trace t" "conn_closed t' = conn_closed t"
    by (auto simp: close_in_def)
qed

text \<open>The schedule above up to the point where \<open>awaitManagerDone\<close> is about to close again.\<close>

lemma told_run:
  "\<exists>t t'. exec mgr_step (take 22 leak_schedule) demo_start = Some t \<and> told_done t \<and> rcv t = REnd \<and>
     dn t = DClose CTest \<and> done_step [] t = Some t'"
  unfolding leak_schedule_def demo_start_def mgr_start_def
  by (simp add: NewManager_def IsClosed_def pool_size_def demo_req_def MaxPoolSize_def told_done_def
      SendMassage_send_def chan_send_def chan_recv_def make_chan_def reg_web_read Get_empty handle_reg_web
      getMessage_def close_in_def chan_close_def ListProxies_def JoinX_def)

lemma done_after_close_witness:
  "\<exists>t t'. exec mgr_step (take 22 leak_schedule) demo_start = Some t \<and> told_done t \<and> closed (mgr t) \<and>
     ch_closed (pipeConnPool (mgr t)) \<and> \<not> is_listed t \<and> done_step [] t = Some t' \<and> mgr t' = mgr t"
proof -
  obtain t t' where t: "exec mgr_step (take 22 leak_schedule) demo_start = Some t" "told_done t" "rcv t = REnd"
    "dn t = DClose CTest" "done_step [] t = Some t'"
    using told_run by blast
  from done_after_close [OF demo_init t(1)] t show ?thesis by auto
qed

text \<open>A proxy request that is still waiting when the client disconnects opens a listener that
  nothing closes: there is a schedule after which every goroutine of the manager has ended and
  the server has forgotten it, yet a listener it opened is never closed.\<close>

theorem listener_leaks:
  "\<exists>t. exec mgr_step leak_schedule demo_start = Some t \<and>
     main t = MEnd \<and> rcv t = REnd \<and> sender t = SEnd \<and> dn t = DEnd \<and> \<not> is_listed t \<and>
     OpenListener ''80'' \<in> set (trace t) \<and> CloseListener ''80'' \<notin> set (trace t)"
  unfolding leak_schedule_def demo_start_def mgr_start_def
  by (simp add: NewManager_def IsClosed_def pool_size_def demo_req_def MaxPoolSize_def
      SendMassage_send_def chan_send_def chan_recv_def make_chan_def reg_web_read Get_empty handle_reg_web
      getMessage_def close_in_def chan_close_def ListProxies_def JoinX_def)

end
