(* ===== verification/ManagerOrder.thy ===== *)
theory ManagerOrder
  imports ManagerRunLaws
begin

text \<open>
  The order of a manager's answers.  A request of the client passes through \<open>awaitReceive\<close>,
  the channel of received messages, the message loop, the channel of outgoing messages and
  \<open>awaitSend\<close>; the goroutines are interleaved with each other, with the goroutines that post
  messages of their own and with the closing of the manager.  The invariant accounts for
  every request that was read: it is on its way to the message loop, or it was handled and
  its answer is on its way to the stream, or the manager is being closed.
\<close>

section \<open>Requests and answers\<close>

fun wants_answer :: "message \<Rightarrow> bool" where
  "wants_answer (MHeartbeatRequest v) = True"
| "wants_answer (MProxyRequest v) = proxyReq_Enable v"
| "wants_answer _ = False"

fun is_answer :: "message \<Rightarrow> bool" where
  "is_answer (MHeartbeatResponse v) = True"
| "is_answer (MProxyResponse v) = True"
| "is_answer _ = False"

text \<open>A heartbeat is answered with its own time stamp, a registration with its name or with an error.\<close>

fun answers_to :: "message \<Rightarrow> message \<Rightarrow> bool" where
  "answers_to (MHeartbeatRequest v) (MHeartbeatResponse w) \<longleftrightarrow> hbResp_TimeSend w = hbReq_Timestamp v"
| "answers_to (MProxyRequest v) (MProxyResponse w) \<longleftrightarrow>
     proxyReq_Enable v \<and>
     (proxyResp_Result w = ''ok'' \<and> proxyResp_Name w = proxyReq_Name v \<or>
      proxyResp_Name w = [] \<and> prefix ''register proxy error:'' (proxyResp_Result w))"
| "answers_to _ _ \<longleftrightarrow> False"

lemma RegisterProxy_answers:
  assumes "RegisterProxy os v mp = Returns (resp, mp', eff)"
  shows "proxyResp_Result resp = ''ok'' \<and> proxyResp_Name resp = proxyReq_Name v \<or>
      proxyResp_Name resp = [] \<and> prefix ''register proxy error:'' (proxyResp_Result resp)"
  using assms by (auto simp: RegisterProxy_def Let_def dest: NewProxy_Inr(1)
      split: outcome.splits prod.splits sum.splits)

lemma handle_message_answers:
  assumes "handle_message os ks now msg mp = Returns (resp, mp', eff)"
  shows "case resp of None \<Rightarrow> \<not> wants_answer msg | Some a \<Rightarrow> wants_answer msg \<and> is_answer a \<and> answers_to msg a"
proof (cases mp)
  case (Pair m ports)
  show ?thesis
  proof (cases msg)
    case (MProxyRequest v)
    then show ?thesis using assms Pair RegisterProxy_answers [of os v "(m, ports)"]
      by (auto simp: handle_message_def split: if_splits outcome.splits prod.splits)
  qed (use assms Pair in \<open>auto simp: handle_message_def\<close>)
qed

section \<open>What the operations do to the two channels\<close>

definition chans :: "manager \<Rightarrow> message chan \<times> message chan" where
  "chans m = (recvChan m, sendChan m)"

lemma RegisterProxy_chans: "RegisterProxy os v (m, ports) = Returns (resp, (m', ports'), eff) \<Longrightarrow> chans m' = chans m"
  by (auto simp: RegisterProxy_def Let_def chans_def split: outcome.splits prod.splits sum.splits)

lemma RemoveProxy_chans: "RemoveProxy v m = (m', eff) \<Longrightarrow> chans m' = chans m"
  by (auto simp: RemoveProxy_def Let_def chans_def split: option.splits)

lemma ListProxies_chans [simp]: "chans (ListProxies ks m) = chans m"
  by (simp add: ListProxies_def Let_def chans_def)

lemma handle_message_chans:
  assumes "handle_message os ks now msg (m, ports) = Returns (resp, (m', ports'), eff)"
  shows "chans m' = chans m"
proof (cases msg)
  case (MProxyRequest v)
  then show ?thesis using assms
    by (auto simp: handle_message_def dest: RegisterProxy_chans RemoveProxy_chans
        split: if_splits outcome.splits prod.splits)
qed (use assms in \<open>auto simp: handle_message_def chans_def\<close>)

lemma pool_chans [simp]: "chans (snd (PushPipeConn_send m c)) = chans m"
  by (auto simp: PushPipeConn_send_def chans_def split: outcome.splits option.splits)

lemma PopPipeConn_recv_chans: "PopPipeConn_recv t m = Returns (v, m') \<Longrightarrow> chans m' = chans m"
  by (auto simp: PopPipeConn_recv_def chans_def split: if_splits outcome.splits option.splits)

text \<open>A send appends, unless the channel is closed: then the message is dropped.\<close>

lemma SendMassage_send_cases:
  assumes "SendMassage_send m msg = Returns (e, m')"
  obtains (sent) "\<not> ch_closed (sendChan m)" "recvChan m' = recvChan m" "\<not> ch_closed (sendChan m')"
      "ch_buf (sendChan m') = ch_buf (sendChan m) @ [msg]"
    | (dropped) "ch_closed (sendChan m)" "m' = m"
  using assms by (auto simp: SendMassage_send_def chan_send_def split: if_splits)

lemma SendMassage_send_recvChan: "SendMassage_send m msg = Returns (e, m') \<Longrightarrow> recvChan m' = recvChan m"
  by (auto elim: SendMassage_send_cases)

section \<open>The accounts\<close>

text \<open>Where a message can be beside the channels: with \<open>awaitReceive\<close>, the message loop, \<open>awaitSend\<close>.\<close>

fun with_rcv :: "rcv_pc \<Rightarrow> message list" where
  "with_rcv (RCheck m) = [m]"
| "with_rcv (RPut m) = [m]"
| "with_rcv _ = []"

fun with_main :: "main_pc \<Rightarrow> message list" where
  "with_main (MHandle m) = [m]"
| "with_main _ = []"

fun reply_of :: "main_pc \<Rightarrow> message list" where
  "reply_of (MReply m) = [m]"
| "reply_of (MReplySend m) = [m]"
| "reply_of _ = []"

fun with_sender :: "snd_pc \<Rightarrow> message list" where
  "with_sender (SPut m) = [m]"
| "with_sender _ = []"

fun reading :: "rcv_pc \<Rightarrow> bool" where
  "reading (RClose pc) = False"
| "reading REnd = False"
| "reading _ = True"

definition serving :: "mgr_run \<Rightarrow> bool" where
  "serving s \<longleftrightarrow> \<not> ch_closed (sendChan (mgr s)) \<and> main s \<noteq> MNotify \<and> main s \<noteq> MEnd"

text \<open>What has left the channel of outgoing messages and what is in it.\<close>

definition outgoing :: "mgr_run \<Rightarrow> message list" where
  "outgoing s = wire_out s @ with_sender (sender s) @ ch_buf (sendChan (mgr s))"

text \<open>
  All requests read from the stream \<open>r\<close>, those handled, and the answers that were made for
  the latter.  Answers are lost only at the end: when a write fails, when the channel is
  closed, when the loop finds the manager closed.
\<close>

definition ingoing_ok :: "reader \<Rightarrow> mgr_run \<Rightarrow> message list \<Rightarrow> message list \<Rightarrow> bool" where
  "ingoing_ok r s ms handled \<longleftrightarrow>
     fst (receive message_Get (length ms) r) = ms \<and>
     (reading (rcv s) \<longrightarrow> stream_in s = snd (receive message_Get (length ms) r)) \<and>
     ms = handled @ with_main (main s) @ ch_buf (recvChan (mgr s)) @ with_rcv (rcv s)"

definition outgoing_ok :: "mgr_run \<Rightarrow> message list \<Rightarrow> bool" where
  "outgoing_ok s as \<longleftrightarrow>
     prefix (filter is_answer (wire_out s)) as \<and>
     (sender s \<noteq> SEnd \<longrightarrow> prefix (filter is_answer (outgoing s)) as) \<and>
     (sender s \<noteq> SEnd \<longrightarrow> serving s \<longrightarrow> as = filter is_answer (outgoing s @ reply_of (main s)))"

definition accounts :: "reader \<Rightarrow> mgr_run \<Rightarrow> bool" where
  "accounts r s \<longleftrightarrow> list_all is_answer (reply_of (main s)) \<and>
     (\<exists>ms handled as. ingoing_ok r s ms handled \<and> outgoing_ok s as \<and>
        list_all2 answers_to (filter wants_answer handled) as)"

lemma accountsE:
  assumes "accounts r s"
  obtains ms handled as where "ingoing_ok r s ms handled" "outgoing_ok s as"
    "list_all2 answers_to (filter wants_answer handled) as" "list_all is_answer (reply_of (main s))"
  using assms unfolding accounts_def by blast

lemma accountsI:
  "ingoing_ok r s ms handled \<Longrightarrow> outgoing_ok s as \<Longrightarrow>
   list_all2 answers_to (filter wants_answer handled) as \<Longrightarrow> list_all is_answer (reply_of (main s)) \<Longrightarrow> accounts r s"
  unfolding accounts_def by blast

definition order_inv :: "reader \<Rightarrow> mgr_run \<Rightarrow> bool" where
  "order_inv r s \<longleftrightarrow> run_inv s \<and> accounts r s"

lemma receive_snoc:
  assumes "fst (receive get (length ms) r) = ms" "get (snd (receive get (length ms) r)) = (Inr m, r')"
  shows "receive get (length (ms @ [m])) r = (ms @ [m], r')"
  using assms
proof (induction ms arbitrary: r)
  case Nil
  then show ?case by simp
next
  case (Cons x ms)
  obtain e r1 where g: "get r = (e, r1)" by (cases "get r")
  with Cons.prems(1) obtain r2 where 1: "e = Inr x" "receive get (length ms) r1 = (ms, r2)"
    by (auto split: sum.splits prod.splits)
  then have "receive get (length (ms @ [m])) r1 = (ms @ [m], r')"
    using Cons.IH [of r1] Cons.prems(2) g by simp
  then show ?case using g 1 by simp
qed

text \<open>Steps that leave the way in, or the way out, alone.\<close>

lemma ingoing_same:
  "ingoing_ok r s ms handled \<Longrightarrow> rcv s' = rcv s \<Longrightarrow> with_main (main s') = with_main (main s) \<Longrightarrow>
   stream_in s' = stream_in s \<Longrightarrow> ch_buf (recvChan (mgr s')) = ch_buf (recvChan (mgr s)) \<Longrightarrow>
   ingoing_ok r s' ms handled"
  unfolding ingoing_ok_def by metis

lemma outgoing_same:
  "outgoing_ok s as \<Longrightarrow> wire_out s' = wire_out s \<Longrightarrow> sender s' = sender s \<Longrightarrow> sendChan (mgr s') = sendChan (mgr s) \<Longrightarrow>
   reply_of (main s') = reply_of (main s) \<Longrightarrow> (main s = MNotify \<or> main s = MEnd \<Longrightarrow> main s' = MNotify \<or> main s' = MEnd) \<Longrightarrow>
   outgoing_ok s' as"
  by (auto simp: outgoing_ok_def outgoing_def serving_def)

text \<open>The message loop stops: what it held is not sent.\<close>

lemma outgoing_stop:
  "outgoing_ok s as \<Longrightarrow> wire_out s' = wire_out s \<Longrightarrow> sender s' = sender s \<Longrightarrow>
   ch_buf (sendChan (mgr s')) = ch_buf (sendChan (mgr s)) \<Longrightarrow> \<not> serving s' \<Longrightarrow> outgoing_ok s' as"
  by (auto simp: outgoing_ok_def outgoing_def)

text \<open>Something that is no answer is sent.\<close>

lemma outgoing_other:
  "outgoing_ok s as \<Longrightarrow> \<not> is_answer m \<Longrightarrow> wire_out s' = wire_out s \<Longrightarrow> sender s' = sender s \<Longrightarrow>
   ch_buf (sendChan (mgr s')) = ch_buf (sendChan (mgr s)) @ [m] \<Longrightarrow>
   (serving s' \<Longrightarrow> serving s) \<Longrightarrow> reply_of (main s') = reply_of (main s) \<Longrightarrow> outgoing_ok s' as"
  by (auto simp: outgoing_ok_def outgoing_def)

section \<open>The steps of the message loop\<close>

lemma getMessage_Some:
  "getMessage m = Returns (Some msg, m') \<Longrightarrow>
   ch_buf (recvChan m) = msg # ch_buf (recvChan m') \<and> sendChan m' = sendChan m"
  by (auto simp: getMessage_def chan_recv_def split: outcome.splits list.splits if_splits)

lemma outgoing_handled:
  assumes "outgoing_ok s as" "reply_of (main s) = []" "main s \<noteq> MNotify" "main s \<noteq> MEnd" "is_answer a"
    "wire_out s' = wire_out s" "sender s' = sender s" "sendChan (mgr s') = sendChan (mgr s)" "main s' = MReply a"
  shows "outgoing_ok s' (as @ [a])"
  using assms by (auto simp: outgoing_ok_def outgoing_def serving_def)

lemma outgoing_replied:
  assumes "outgoing_ok s as" "main s = MReplySend a" "is_answer a" "\<not> ch_closed (sendChan (mgr s))"
    "wire_out s' = wire_out s" "sender s' = sender s" "ch_buf (sendChan (mgr s')) = ch_buf (sendChan (mgr s)) @ [a]"
    "main s' = MGet"
  shows "outgoing_ok s' as"
  using assms by (auto simp: outgoing_ok_def outgoing_def serving_def)

text \<open>A move to a place that holds nothing, or the end of the loop.\<close>

lemma accounts_move:
  assumes "accounts r s" "with_main (main s) = []" "reply_of (main s) = []" "with_main pc = []" "reply_of pc = []"
    "main s \<noteq> MNotify" "main s \<noteq> MEnd"
  shows "accounts r (s\<lparr>main := pc\<rparr>)"
  using assms(1)
proof (rule accountsE)
  fix ms handled as
  assume i: "ingoing_ok r s ms handled" and w: "outgoing_ok s as"
    and l: "list_all2 answers_to (filter wants_answer handled) as"
  show ?thesis
  proof (rule accountsI [OF _ _ l])
    show "ingoing_ok r (s\<lparr>main := pc\<rparr>) ms handled" using assms by (intro ingoing_same [OF i]) auto
    show "outgoing_ok (s\<lparr>main := pc\<rparr>) as" using assms by (intro outgoing_same [OF w]) auto
  qed (use assms in simp)
qed

lemma accounts_stop:
  assumes "accounts r s" "with_main (main s) = []"
  shows "accounts r (s\<lparr>main := MNotify\<rparr>)" "accounts r (s\<lparr>done_sent := True, main := MEnd\<rparr>)"
proof -
  obtain ms handled as where i: "ingoing_ok r s ms handled" and w: "outgoing_ok s as"
    and l: "list_all2 answers_to (filter wants_answer handled) as"
    using assms(1) by (rule accountsE)
  show "accounts r (s\<lparr>main := MNotify\<rparr>)" using assms(2)
    by (intro accountsI [OF ingoing_same [OF i] outgoing_stop [OF w] l]) (auto simp: serving_def)
  show "accounts r (s\<lparr>done_sent := True, main := MEnd\<rparr>)" using assms(2)
    by (intro accountsI [OF ingoing_same [OF i] outgoing_stop [OF w] l]) (auto simp: serving_def)
qed

text \<open>A message that is no answer goes into the channel of outgoing messages.\<close>

lemma accounts_post:
  assumes acc: "accounts r s" and m: "SendMassage_send (mgr s) msg = Returns (e, m)" and a: "\<not> is_answer msg"
  shows "accounts r (s\<lparr>mgr := m\<rparr>)"
proof -
  obtain ms handled as where i: "ingoing_ok r s ms handled" and w: "outgoing_ok s as"
    and l: "list_all2 answers_to (filter wants_answer handled) as" and rep: "list_all is_answer (reply_of (main s))"
    using acc by (rule accountsE)
  show ?thesis
  proof (rule accountsI [OF _ _ l])
    show "ingoing_ok r (s\<lparr>mgr := m\<rparr>) ms handled"
      by (intro ingoing_same [OF i]) (auto simp: SendMassage_send_recvChan [OF m])
    from m show "outgoing_ok (s\<lparr>mgr := m\<rparr>) as"
    proof (cases rule: SendMassage_send_cases)
      case sent
      then show ?thesis using a by (intro outgoing_other [OF w a]) (auto simp: serving_def)
    next
      case dropped
      then show ?thesis by (intro outgoing_same [OF w]) auto
    qed
  qed (use rep in simp)
qed

lemma accounts_get:
  assumes acc: "accounts r s" and "main s = MGet" and g: "getMessage (mgr s) = Returns (Some msg, m)"
  shows "accounts r (s\<lparr>mgr := m, main := MHandle msg\<rparr>)"
proof -
  obtain ms handled as where i: "ingoing_ok r s ms handled" and w: "outgoing_ok s as"
    and l: "list_all2 answers_to (filter wants_answer handled) as"
    using acc by (rule accountsE)
  note c = getMessage_Some [OF g]
  show ?thesis
  proof (rule accountsI [OF _ _ l])
    show "ingoing_ok r (s\<lparr>mgr := m, main := MHandle msg\<rparr>) ms handled"
      using i c assms(2) unfolding ingoing_ok_def by auto
    show "outgoing_ok (s\<lparr>mgr := m, main := MHandle msg\<rparr>) as"
      using c assms(2) by (intro outgoing_same [OF w]) auto
  qed simp
qed

lemma accounts_handle:
  assumes acc: "accounts r s" and msg: "main s = MHandle msg"
    and h: "handle_message os ks now msg (mgr s, alloc s) = Returns (resp, (m, ports), eff)"
  shows "accounts r (s\<lparr>mgr := m, alloc := ports, trace := tr, main := (case resp of None \<Rightarrow> MGet | Some a \<Rightarrow> MReply a)\<rparr>)"
    (is "accounts r ?s")
proof -
  obtain ms handled as where i: "ingoing_ok r s ms handled" and w: "outgoing_ok s as"
    and l: "list_all2 answers_to (filter wants_answer handled) as"
    using acc by (rule accountsE)
  have c: "recvChan m = recvChan (mgr s)" "sendChan m = sendChan (mgr s)"
    using handle_message_chans [OF h] by (simp_all add: chans_def)
  have i': "ingoing_ok r ?s ms (handled @ [msg])"
    using i c msg unfolding ingoing_ok_def by (auto split: option.splits)
  show ?thesis
  proof (cases resp)
    case None
    then show ?thesis using handle_message_answers [OF h] l c msg
      by (intro accountsI [OF i', of as] outgoing_same [OF w]) auto
  next
    case (Some a)
    then show ?thesis using handle_message_answers [OF h] l c msg
      by (intro accountsI [OF i', of "as @ [a]"] outgoing_handled [OF w]) (auto intro!: list_all2_appendI)
  qed
qed

lemma accounts_reply:
  assumes acc: "accounts r s" and msg: "main s = MReplySend a" and m: "SendMassage_send (mgr s) a = Returns (e, m)"
  shows "accounts r (s\<lparr>mgr := m, main := MGet\<rparr>)"
proof -
  obtain ms handled as where i: "ingoing_ok r s ms handled" and w: "outgoing_ok s as"
    and l: "list_all2 answers_to (filter wants_answer handled) as" and rep: "list_all is_answer (reply_of (main s))"
    using acc by (rule accountsE)
  show ?thesis
  proof (rule accountsI [OF _ _ l])
    show "ingoing_ok r (s\<lparr>mgr := m, main := MGet\<rparr>) ms handled" using msg
      by (intro ingoing_same [OF i]) (auto simp: SendMassage_send_recvChan [OF m])
    from m show "outgoing_ok (s\<lparr>mgr := m, main := MGet\<rparr>) as"
    proof (cases rule: SendMassage_send_cases)
      case sent
      then show ?thesis using msg rep by (intro outgoing_replied [OF w]) auto
    next
      case dropped
      then show ?thesis by (intro outgoing_stop [OF w]) (auto simp: serving_def)
    qed
  qed simp
qed

lemma accounts_decide:
  assumes acc: "accounts r s" and msg: "main s = MReply a"
  shows "accounts r (s\<lparr>main := MReplySend a\<rparr>)"
proof -
  obtain ms handled as where i: "ingoing_ok r s ms handled" and w: "outgoing_ok s as"
    and l: "list_all2 answers_to (filter wants_answer handled) as" and rep: "list_all is_answer (reply_of (main s))"
    using acc by (rule accountsE)
  show ?thesis using msg rep
    by (intro accountsI [OF ingoing_same [OF i] outgoing_same [OF w] l]) auto
qed

lemma accounts_main_step:
  assumes acc: "accounts r s" and step: "main_step os ks now s = Some s'"
  shows "accounts r s'"
proof (cases "main s")
  case (MReq k)
  then show ?thesis using step accounts_move [OF acc] by (cases k) (auto split: if_splits)
next
  case (MReqSend k)
  then obtain e m where m: "SendMassage_send (mgr s) (MPipeRequest \<lparr>pipeReq_ClientId = []\<rparr>) = Returns (e, m)"
    "s' = s\<lparr>mgr := m, main := MReq k\<rparr>"
    using step recovered(1) by (auto split: outcome.splits)
  then show ?thesis using accounts_move [OF accounts_post [OF acc m(1)], of "MReq k"] MReqSend by simp
next
  case MGet
  then show ?thesis using step recovered(2) accounts_get [OF acc MGet] accounts_stop(1) [OF acc]
    by (auto split: outcome.splits option.splits)
next
  case (MHandle msg)
  then show ?thesis using step handle_message_Panics accounts_handle [OF acc MHandle]
    by (auto split: outcome.splits)
next
  case (MReply a)
  then show ?thesis using step accounts_decide [OF acc MReply] accounts_stop(1) [OF acc] by auto
next
  case (MReplySend a)
  then show ?thesis using step recovered(1) accounts_reply [OF acc MReplySend] by (auto split: outcome.splits)
next
  case MNotify
  then show ?thesis using step accounts_stop(2) [OF acc] by simp
qed (use step in simp)

section \<open>The other steps\<close>

text \<open>Steps of the others: the loop stays where it is, the channels may be closed.\<close>

lemma outgoing_kept:
  "outgoing_ok s as \<Longrightarrow> filter is_answer (wire_out s') = filter is_answer (wire_out s) \<Longrightarrow> sender s' = sender s \<Longrightarrow>
   main s' = main s \<Longrightarrow> ch_buf (sendChan (mgr s')) = ch_buf (sendChan (mgr s)) \<Longrightarrow> (serving s' \<Longrightarrow> serving s) \<Longrightarrow>
   outgoing_ok s' as"
  by (auto simp: outgoing_ok_def outgoing_def)

lemma accounts_kept:
  assumes "accounts r s" "filter is_answer (wire_out s') = filter is_answer (wire_out s)" "sender s' = sender s"
    "main s' = main s" "ch_buf (sendChan (mgr s')) = ch_buf (sendChan (mgr s))" "serving s' \<Longrightarrow> serving s"
    "reading (rcv s') \<Longrightarrow> stream_in s' = stream_in s" "ch_buf (recvChan (mgr s')) = ch_buf (recvChan (mgr s))"
    "with_rcv (rcv s') = with_rcv (rcv s)" "reading (rcv s') \<Longrightarrow> reading (rcv s)"
  shows "accounts r s'"
proof -
  obtain ms handled as where i: "ingoing_ok r s ms handled" and w: "outgoing_ok s as"
    and l: "list_all2 answers_to (filter wants_answer handled) as" and rep: "list_all is_answer (reply_of (main s))"
    using assms(1) by (rule accountsE)
  have "ingoing_ok r s' ms handled" using i assms(4,7-10) unfolding ingoing_ok_def by metis
  then show ?thesis using assms(2-6) rep by (intro accountsI [OF _ outgoing_kept [OF w] l]) auto
qed

lemma close_step_bufs:
  "close_step ks pc m = Returns (pc', m', eff) \<Longrightarrow>
   ch_buf (sendChan m') = ch_buf (sendChan m) \<and> ch_buf (recvChan m') = ch_buf (recvChan m) \<and>
   (ch_closed (sendChan m) \<longrightarrow> ch_closed (sendChan m'))"
  by (cases pc) (auto simp: chan_close_def split: if_splits)

lemma accounts_close_in:
  assumes "accounts r s" "rcv s = RClose pc"
  shows "accounts r (close_in ks pc (\<lambda>pc' t. t\<lparr>rcv := RClose pc'\<rparr>) (\<lambda>t. t\<lparr>rcv := REnd\<rparr>) s)"
  using assms close_step_bufs [of ks pc "mgr s"]
  by (auto simp: close_in_def serving_def split: outcome.splits intro!: accounts_kept [OF assms(1)])

lemma accounts_read:
  assumes acc: "accounts r s" and rcv: "rcv s = RGet" and g: "message_Get (stream_in s) = (Inr msg, r')"
  shows "accounts r (s\<lparr>stream_in := r', rcv := RCheck msg\<rparr>)"
proof -
  obtain ms handled as where i: "ingoing_ok r s ms handled" and w: "outgoing_ok s as"
    and l: "list_all2 answers_to (filter wants_answer handled) as" and rep: "list_all is_answer (reply_of (main s))"
    using acc by (rule accountsE)
  have "receive message_Get (length (ms @ [msg])) r = (ms @ [msg], r')"
  proof (rule receive_snoc)
    show "fst (receive message_Get (length ms) r) = ms" using i unfolding ingoing_ok_def by blast
    have "stream_in s = snd (receive message_Get (length ms) r)"
      using i unfolding ingoing_ok_def rcv reading.simps by blast
    then show "message_Get (snd (receive message_Get (length ms) r)) = (Inr msg, r')" using g by metis
  qed
  then have "ingoing_ok r (s\<lparr>stream_in := r', rcv := RCheck msg\<rparr>) (ms @ [msg]) handled"
    using i rcv unfolding ingoing_ok_def by simp
  then show ?thesis using rep by (intro accountsI [OF _ outgoing_kept [OF w] l]) (auto simp: serving_def)
qed

lemma accounts_put:
  assumes acc: "accounts r s" and rcv: "rcv s = RPut msg" and c: "chan_send (recvChan (mgr s)) msg = Returns c"
  shows "accounts r (s\<lparr>mgr := (mgr s)\<lparr>recvChan := c\<rparr>, rcv := RGet\<rparr>)"
proof -
  obtain ms handled as where i: "ingoing_ok r s ms handled" and w: "outgoing_ok s as"
    and l: "list_all2 answers_to (filter wants_answer handled) as" and rep: "list_all is_answer (reply_of (main s))"
    using acc by (rule accountsE)
  have "ch_buf c = ch_buf (recvChan (mgr s)) @ [msg]" using c by (auto simp: chan_send_def split: if_splits)
  then have "ingoing_ok r (s\<lparr>mgr := (mgr s)\<lparr>recvChan := c\<rparr>, rcv := RGet\<rparr>) ms handled"
    using i rcv unfolding ingoing_ok_def by auto
  then show ?thesis using rep by (intro accountsI [OF _ outgoing_kept [OF w] l]) (auto simp: serving_def)
qed

lemma accounts_recv_step:
  assumes acc: "accounts r s" and run: "run_inv s" and step: "recv_step ks s = Some s'"
  shows "accounts r s'"
proof (cases "rcv s")
  case RTest
  then show ?thesis using step run
    by (auto simp: run_inv_def flags_def IsClosed_def serving_def intro!: accounts_kept [OF acc])
next
  case RGet
  then show ?thesis using step accounts_read [OF acc RGet]
    by (auto simp: serving_def split: sum.splits prod.splits intro!: accounts_kept [OF acc])
next
  case (RCheck msg)
  then show ?thesis using step run
    by (auto simp: run_inv_def flags_def IsClosed_def serving_def intro!: accounts_kept [OF acc])
next
  case (RPut msg)
  then have "chan_send (recvChan (mgr s)) msg \<noteq> Panics" using run by (simp add: run_inv_def flags_def)
  then show ?thesis using step RPut accounts_put [OF acc RPut] by (auto split: outcome.splits)
next
  case (RClose pc)
  then show ?thesis using step accounts_close_in [OF acc RClose, of ks] unfolding recv_step_close [OF RClose]
    by (auto simp: serving_def split: if_splits intro!: accounts_kept [OF acc])
qed (use step in simp)

text \<open>\<open>awaitSend\<close>: what it takes from the channel it holds, and then has written or given up.\<close>

lemma accounts_sender:
  assumes acc: "accounts r s"
    and "sender s' = SEnd \<and> wire_out s' = wire_out s \<or> sender s \<noteq> SEnd \<and> outgoing s' = outgoing s \<and>
      prefix (wire_out s') (outgoing s)"
    and "main s' = main s" "rcv s' = rcv s" "stream_in s' = stream_in s"
    "recvChan (mgr s') = recvChan (mgr s)" "serving s' \<Longrightarrow> serving s"
  shows "accounts r s'"
proof -
  obtain ms handled as where i: "ingoing_ok r s ms handled" and w: "outgoing_ok s as"
    and l: "list_all2 answers_to (filter wants_answer handled) as" and rep: "list_all is_answer (reply_of (main s))"
    using acc by (rule accountsE)
  have "outgoing_ok s' as" using assms(2)
  proof
    assume "sender s' = SEnd \<and> wire_out s' = wire_out s"
    then show ?thesis using w by (auto simp: outgoing_ok_def)
  next
    assume a: "sender s \<noteq> SEnd \<and> outgoing s' = outgoing s \<and> prefix (wire_out s') (outgoing s)"
    then have "prefix (filter is_answer (wire_out s')) (filter is_answer (outgoing s))"
      by (auto simp: prefix_def)
    then show ?thesis using w a assms(3,7) by (auto simp: outgoing_ok_def intro: prefix_order.trans)
  qed
  then show ?thesis using assms(3-6) rep by (intro accountsI [OF ingoing_same [OF i] _ l]) auto
qed

lemma accounts_send_step:
  assumes acc: "accounts r s" and step: "send_step b s = Some s'"
  shows "accounts r s'"
proof (cases "sender s")
  case SGet
  have np: "chan_recv c \<noteq> Panics" for c :: "message chan"
    by (simp add: chan_recv_def split: list.splits)
  then show ?thesis using SGet step
    by (intro accounts_sender [OF acc]) (auto simp: chan_recv_def outgoing_def serving_def split: list.splits if_splits)
next
  case (SPut msg)
  then show ?thesis using step
    by (intro accounts_sender [OF acc]) (auto simp: outgoing_def serving_def split: if_splits)
qed (use step in simp)

lemma accounts_done_step:
  assumes acc: "accounts r s" and run: "run_inv s" and step: "done_step ks s = Some s'"
  shows "accounts r s'"
proof (cases "dn s")
  case (DClose pc)
  then have "pc = CTest \<or> pc = CDone" "closed (mgr s)" using run by (auto simp: run_inv_def told_done_def)
  then show ?thesis using DClose step
    by (auto simp: close_in_def IsClosed_def serving_def intro!: accounts_kept [OF acc])
qed (use step in \<open>auto simp: serving_def split: if_splits intro!: accounts_kept [OF acc]\<close>)

text \<open>All steps, as long as no goroutine posts an answer of its own.\<close>

definition proper :: "event \<Rightarrow> bool" where
  "proper e \<longleftrightarrow> (case e of EvPost msg \<Rightarrow> \<not> is_answer msg | _ \<Rightarrow> True)"

definition proper_step :: "event \<Rightarrow> mgr_run \<Rightarrow> mgr_run option" where
  "proper_step e s = (if proper e then mgr_step e s else None)"

lemma accounts_step:
  assumes acc: "accounts r s" and run: "run_inv s" and e: "proper e" and step: "mgr_step e s = Some s'"
  shows "accounts r s'"
proof (cases e)
  case (EvMain os ks now)
  then show ?thesis using step by (intro accounts_main_step [OF acc, of os ks now]) simp
next
  case (EvRecv ks)
  then show ?thesis using step by (intro accounts_recv_step [OF acc run, of ks]) simp
next
  case (EvSend b)
  then show ?thesis using step by (intro accounts_send_step [OF acc, of b]) simp
next
  case (EvDone ks)
  then show ?thesis using step by (intro accounts_done_step [OF acc run, of ks]) simp
next
  case (EvPost msg)
  then show ?thesis using step e recovered(1) accounts_post [OF acc]
    by (auto simp: proper_def split: outcome.splits)
next
  case (EvPush c)
  have "chans (snd (PushPipeConn_send (mgr s) c)) = chans (mgr s)" by simp
  then show ?thesis using step EvPush
    by (auto simp: serving_def chans_def intro!: accounts_kept [OF acc])
next
  case (EvPop t)
  then obtain v m where "PopPipeConn_recv t (mgr s) = Returns (v, m)" "s' = s\<lparr>mgr := m\<rparr>"
    using step recovered(3) by (auto split: outcome.splits)
  then show ?thesis using PopPipeConn_recv_chans
    by (auto simp: serving_def chans_def intro!: accounts_kept [OF acc])
qed (use step in \<open>auto simp: serving_def split: if_splits intro!: accounts_kept [OF acc]\<close>)

definition starts_on :: "reader \<Rightarrow> mgr_run \<Rightarrow> bool" where
  "starts_on r s \<longleftrightarrow> (\<exists>cid conn req now ports. s = mgr_start cid conn req now ports r)"

lemma order_inv_start: "starts_on r s \<Longrightarrow> order_inv r s"
proof -
  assume "starts_on r s"
  then obtain cid conn req now ports where s: "s = mgr_start cid conn req now ports r"
    by (auto simp: starts_on_def)
  then have "run_inv s" by (intro run_inv_start) (simp add: mgr_init_def, blast)
  moreover have "ingoing_ok r s [] []" "outgoing_ok s []"
    by (simp_all add: s mgr_start_def ingoing_ok_def outgoing_ok_def outgoing_def NewManager_def make_chan_def)
  then have "accounts r s" by (rule accountsI) (simp_all add: s mgr_start_def)
  ultimately show ?thesis by (simp add: order_inv_def)
qed

interpretation ordered: invariant_system "starts_on r" proper_step "order_inv r" for r
  by unfold_locales
    (auto simp: order_inv_def proper_step_def split: if_splits
      intro: order_inv_start [unfolded order_inv_def, THEN conjunct1] order_inv_start [unfolded order_inv_def, THEN conjunct2]
        run_inv_step accounts_step)

lemma exec_proper: "exec mgr_step es s = Some t \<Longrightarrow> list_all proper es \<Longrightarrow> exec proper_step es s = Some t"
  by (induction es arbitrary: s) (auto simp: proper_step_def split: option.splits)

lemma order_reached:
  assumes "exec mgr_step es (mgr_start cid conn req now ports r) = Some t"
    "\<forall>msg. EvPost msg \<in> set es \<longrightarrow> \<not> is_answer msg"
  shows "order_inv r t"
proof -
  have p: "list_all proper es" using assms(2) by (auto simp: list_all_iff proper_def split: event.splits)
  have "starts_on r (mgr_start cid conn req now ports r)" unfolding starts_on_def by blast
  then show ?thesis using exec_proper [OF assms(1) p] by (rule ordered.reachable_inv)
qed

lemma list_all2_mem: "list_all2 P xs ys \<Longrightarrow> y \<in> set ys \<Longrightarrow> \<exists>x\<in>set xs. P x y"
  by (induction rule: list_all2_induct) auto

text \<open>Every answer on the stream belongs to a message that was read.\<close>

lemma answer_has_request:
  assumes "order_inv r t" "a \<in> set (wire_out t)" "is_answer a"
  shows "\<exists>n. \<exists>v\<in>set (fst (receive message_Get n r)). answers_to v a"
proof -
  obtain ms handled as where i: "ingoing_ok r t ms handled" and w: "outgoing_ok t as"
    and l: "list_all2 answers_to (filter wants_answer handled) as"
    using assms(1) by (auto simp: order_inv_def elim: accountsE)
  have "a \<in> set as" using assms(2,3) w by (auto simp: outgoing_ok_def prefix_def dest!: arg_cong [where f = set])
  from list_all2_mem [OF l this] obtain v where "v \<in> set handled" "answers_to v a" by auto
  moreover have "set handled \<subseteq> set (fst (receive message_Get (length ms) r))"
    using i unfolding ingoing_ok_def by (metis Un_upper1 set_append)
  ultimately show ?thesis by blast
qed

section \<open>Properties\<close>

text \<open>Nothing is on its way: every goroutine waits.\<close>

definition at_rest :: "mgr_run \<Rightarrow> bool" where
  "at_rest s \<longleftrightarrow> main s = MGet \<and> rcv s = RGet \<and> sender s = SGet \<and>
     ch_buf (recvChan (mgr s)) = [] \<and> ch_buf (sendChan (mgr s)) = []"

text \<open>C9: A manager answers in order: however its goroutines and those that push, pop and post are
  interleaved, the answers on the stream belong one by one, in the order of arrival, to the
  first of the client's heartbeats and registrations, none is answered twice and none is
  passed over; and whenever every goroutine waits with empty channels, all of them have been
  answered.\<close>

theorem manager_answers_in_order:
  assumes "exec mgr_step es (mgr_start cid conn req now ports r) = Some t"
    "\<forall>msg. EvPost msg \<in> set es \<longrightarrow> \<not> is_answer msg"
  shows "\<exists>ms requests. fst (receive message_Get (length ms) r) = ms \<and>
      prefix requests (filter wants_answer ms) \<and>
      list_all2 answers_to requests (filter is_answer (wire_out t)) \<and>
      (at_rest t \<longrightarrow> requests = filter wants_answer ms \<and> stream_in t = snd (receive message_Get (length ms) r))"
proof -
  have "order_inv r t" using assms by (rule order_reached)
  then obtain ms handled as where run: "run_inv t" and i: "ingoing_ok r t ms handled" and w: "outgoing_ok t as"
    and l: "list_all2 answers_to (filter wants_answer handled) as"
    by (auto simp: order_inv_def elim: accountsE)
  have pre: "prefix (filter is_answer (wire_out t)) as" using w by (simp add: outgoing_ok_def)
  define requests where "requests = take (length (filter is_answer (wire_out t))) (filter wants_answer handled)"
  have "prefix handled ms" using i unfolding ingoing_ok_def by (metis prefixI)
  then have "prefix (filter wants_answer handled) (filter wants_answer ms)" by (auto simp: prefix_def)
  then have "prefix requests (filter wants_answer ms)"
    unfolding requests_def by (meson prefix_order.trans take_is_prefix)
  moreover have "list_all2 answers_to requests (filter is_answer (wire_out t))"
    using l pre by (auto simp: requests_def prefix_def list_all2_append2)
  moreover have "requests = filter wants_answer ms \<and> stream_in t = snd (receive message_Get (length ms) r)" if "at_rest t"
  proof -
    have open_t: "serving t" using that run by (auto simp: at_rest_def serving_def run_inv_def flags_def)
    have "as = filter is_answer (wire_out t)" using w that open_t by (simp add: at_rest_def outgoing_ok_def outgoing_def)
    then have "requests = filter wants_answer handled" using list_all2_lengthD [OF l] by (simp add: requests_def)
    moreover have "handled = ms" using i that unfolding ingoing_ok_def at_rest_def by simp
    moreover have "stream_in t = snd (receive message_Get (length ms) r)"
      using i that unfolding ingoing_ok_def at_rest_def by (metis reading.simps)
    ultimately show ?thesis by simp
  qed
  moreover have "fst (receive message_Get (length ms) r) = ms" using i unfolding ingoing_ok_def by blast
  ultimately show ?thesis by blast
qed

definition order_schedule :: "event list" where
  "order_schedule =
     [run_main, run_main, run_main, EvRecv [], EvRecv [], EvRecv [], EvRecv [],
      run_main, run_main, run_main, run_main, EvSend True, EvSend True, EvSend True, EvSend True]"

definition ok_web :: message where
  "ok_web = MProxyResponse \<lparr>proxyResp_Name = ''w'', proxyResp_Port = ''80'', proxyResp_Enable = False, proxyResp_Result = ''ok''\<rparr>"

lemma order_run:
  "\<exists>t. exec mgr_step order_schedule demo_start = Some t \<and> at_rest t \<and>
     stream_in t = \<lparr>chunks = [], final_err = EOF\<rparr> \<and> wire_out t = [MPipeRequest \<lparr>pipeReq_ClientId = []\<rparr>, ok_web]"
  unfolding order_schedule_def demo_start_def mgr_start_def
  by (simp add: NewManager_def IsClosed_def pool_size_def demo_req_def MaxPoolSize_def at_rest_def
      SendMassage_send_def chan_send_def chan_recv_def make_chan_def reg_web_read handle_reg_web
      getMessage_def ListProxies_def JoinX_def ok_web_def)

lemma manager_answers_in_order_witness:
  "\<exists>t. exec mgr_step order_schedule demo_start = Some t \<and>
     filter is_answer (wire_out t) = [ok_web] \<and> answers_to reg_web ok_web"
proof -
  obtain t where t: "exec mgr_step order_schedule demo_start = Some t" "at_rest t"
    "wire_out t = [MPipeRequest \<lparr>pipeReq_ClientId = []\<rparr>, ok_web]"
    using order_run by blast
  have "\<forall>msg. EvPost msg \<in> set order_schedule \<longrightarrow> \<not> is_answer msg" by (simp add: order_schedule_def)
  from manager_answers_in_order [OF t(1) [unfolded demo_start_def] this]
  obtain ms requests where m: "fst (receive message_Get (length ms) \<lparr>chunks = [wire reg_web], final_err = EOF\<rparr>) = ms"
    "prefix requests (filter wants_answer ms)" "list_all2 answers_to requests (filter is_answer (wire_out t))"
    by blast
  have f: "filter is_answer (wire_out t) = [ok_web]" using t(3) by (simp add: ok_web_def)
  with m(3) obtain q where q: "requests = [q]" "answers_to q ok_web" by (auto simp: list_all2_Cons2)
  with m(2) obtain n where n: "length ms = Suc n" by (cases ms) auto
  have "ms = [reg_web]" using m(1) unfolding n
    by (cases n) (simp_all add: reg_web_read Get_empty)
  with m(2) q have "q = reg_web" by (simp split: if_splits)
  with q f t(1) show ?thesis by blast
qed

section \<open>An unguarded table\<close>

text \<open>
  The table of proxies of a manager is written under its lock, but the message loop ranges over
  it in \<open>ListProxies\<close> without.  The model takes each access as one step; there is a schedule
  after which the message loop, about to register and list, and \<open>awaitReceive\<close>, about to
  delete the proxies of the closed manager, can both go next.  Go does not define what the
  range then sees, and its runtime may end the process, which no \<open>recover\<close> prevents.
\<close>

definition race_schedule :: "event list" where
  "race_schedule =
     [run_main, run_main, run_main, EvRecv [], EvRecv [], EvRecv [], EvRecv [], run_main,
      EvRecv [], EvRecv [], EvRecv [], EvRecv [], EvRecv [], EvRecv [], EvRecv []]"

theorem proxies_race:
  "\<exists>t. exec mgr_step race_schedule demo_start = Some t \<and> main t = MHandle reg_web \<and> rcv t = RClose CProxies \<and>
     (\<exists>t1. mgr_step run_main t = Some t1 \<and> Proxies (mgr t1) ''w'' \<noteq> None) \<and> mgr_step (EvRecv []) t \<noteq> None"
  unfolding race_schedule_def demo_start_def mgr_start_def
  by (simp add: NewManager_def IsClosed_def pool_size_def demo_req_def MaxPoolSize_def
      SendMassage_send_def chan_send_def chan_recv_def make_chan_def reg_web_read Get_empty handle_reg_web
      getMessage_def close_in_def chan_close_def ListProxies_def JoinX_def Let_def)

section \<open>A failed write\<close>

text \<open>
  When a write fails, \<open>awaitSend\<close> ends without closing the manager, unlike the client's: the
  manager stays in the map, goes on reading requests, and answers nothing any more, until the
  read side fails too.
\<close>

lemma sender_ended_step:
  assumes "sender s = SEnd" "mgr_step e s = Some s'"
  shows "sender s' = SEnd \<and> filter is_answer (wire_out s') = filter is_answer (wire_out s)"
proof (cases e)
  case (EvMain os ks now)
  then show ?thesis using assms
    by (cases "main s") (auto split: outcome.splits option.splits nat.splits)
next
  case (EvRecv ks)
  show ?thesis
  proof (cases "rcv s")
    case (RClose pc)
    then show ?thesis using EvRecv assms recv_step_close [OF RClose, of ks]
      by (auto simp: close_in_def split: if_splits outcome.splits simp del: recv_step.simps)
  qed (use EvRecv assms in \<open>auto split: outcome.splits option.splits sum.splits prod.splits\<close>)
next
  case (EvDone ks)
  show ?thesis
  proof (cases "dn s")
    case (DClose pc)
    then show ?thesis using EvDone assms by (cases pc) (auto simp: close_in_def split: outcome.splits)
  qed (use EvDone assms in \<open>auto split: if_splits\<close>)
qed (use assms in \<open>auto split: if_splits outcome.splits\<close>)

theorem failed_write_mutes:
  "\<exists>s. exec mgr_step [run_main, run_main, EvSend True, EvSend False] demo_start = Some s \<and> \<not> closed (mgr s) \<and> is_listed s \<and>
     (\<forall>es t. exec mgr_step es s = Some t \<longrightarrow> filter is_answer (wire_out t) = [])"
proof -
  obtain s where s: "exec mgr_step [run_main, run_main, EvSend True, EvSend False] demo_start = Some s" "\<not> closed (mgr s)"
    "is_listed s" "sender s = SEnd" "wire_out s = []"
    by (simp add: demo_start_def mgr_start_def NewManager_def IsClosed_def pool_size_def demo_req_def MaxPoolSize_def
        SendMassage_send_def chan_send_def chan_recv_def make_chan_def)
  have "sender t = SEnd \<and> filter is_answer (wire_out t) = filter is_answer (wire_out u)"
    if "sender u = SEnd" "exec mgr_step es u = Some t" for u t es
    using that
  proof (induction es arbitrary: u)
    case (Cons e es)
    then obtain v where v: "mgr_step e u = Some v" "exec mgr_step es v = Some t" by (auto split: option.splits)
    with sender_ended_step [OF Cons.prems(1) v(1)] Cons.IH [of v] show ?case by simp
  qed simp
  with s show ?thesis by (metis filter.simps(1))
qed

end
