(* ===== verification/AgentRun.thy ===== *)
theory AgentRun
  imports Machine Client
begin

text \<open>
  The goroutines of an agent, \<open>client/agent.go\<close>, interleaved: \<open>Run\<close> with its ticker and
  its deferred \<open>Close\<close>, \<open>awaitReceive\<close> and \<open>awaitSend\<close>.  Only \<open>awaitReceive\<close> recovers
  panics; a panic in another goroutine ends the client.  The registrations with which
  \<open>Run\<close> begins write to the stream and the proxies only and are left out here.
\<close>

section \<open>Closing in steps\<close>

datatype aclose_pc = ATest | ASet | ARecv | ASend | AConn | ADone

fun aclose_step :: "aclose_pc \<Rightarrow> agent \<Rightarrow> (aclose_pc \<times> agent \<times> effect list) outcome" where
  "aclose_step ATest a = Returns (if Agent_IsClosed a then ADone else ASet, a, [])"
| "aclose_step ASet a = Returns (ARecv, a\<lparr>ag_closed := True\<rparr>, [])"
| "aclose_step ARecv a =
     (case chan_close (ag_recvChan a) of Returns c \<Rightarrow> Returns (ASend, a\<lparr>ag_recvChan := c\<rparr>, []) | _ \<Rightarrow> Panics)"
| "aclose_step ASend a =
     (case chan_close (ag_sendChan a) of Returns c \<Rightarrow> Returns (AConn, a\<lparr>ag_sendChan := c\<rparr>, []) | _ \<Rightarrow> Panics)"
| "aclose_step AConn a = Returns (ADone, a, [CloseConn (ag_conn a)])"
| "aclose_step ADone a = Returns (ADone, a, [])"

fun aclose_steps :: "nat \<Rightarrow> aclose_pc \<Rightarrow> agent \<Rightarrow> effect list \<Rightarrow> (agent \<times> effect list) outcome" where
  "aclose_steps 0 pc a eff = Blocks"
| "aclose_steps (Suc n) pc a eff =
     (if pc = ADone then Returns (a, eff)
      else case aclose_step pc a of
        Returns (pc', a', e) \<Rightarrow> aclose_steps n pc' a' (eff @ e)
      | _ \<Rightarrow> Panics)"

lemma aclose_steps_Agent_Close: "aclose_steps 6 ATest a [] = Agent_Close a"
  by (simp add: eval_nat_numeral Agent_Close_def Agent_IsClosed_def Let_def chan_close_def)

section \<open>The goroutines\<close>

datatype amain_pc = AWait | AEnq message | AClosing aclose_pc | AEnd
datatype arcv_pc = ARTest | ARGet | ARCheck message | ARPut message | ARClose aclose_pc | AREnd
datatype asnd_pc = ASGet | ASPut message | ASClose aclose_pc | ASEnd

record agent_run =
  agt :: agent
  a_main :: amain_pc
  a_rcv :: arcv_pc
  a_snd :: asnd_pc
  a_in :: reader
  a_wire :: "message list"
  a_works :: nat
  a_conn_closed :: bool
  a_crashed :: bool

datatype aevent = AvTick int int | AvMain int | AvRecv | AvRecvFail | AvSend bool

definition aclose_in :: "aclose_pc \<Rightarrow> (aclose_pc \<Rightarrow> agent_run \<Rightarrow> agent_run) \<Rightarrow> (agent_run \<Rightarrow> agent_run) \<Rightarrow>
    agent_run \<Rightarrow> agent_run" where
  "aclose_in pc set_pc on_panic s =
     (case aclose_step pc (agt s) of
        Returns (pc', a, eff) \<Rightarrow>
          set_pc pc' (s\<lparr>agt := a, a_conn_closed := (a_conn_closed s \<or> pc = AConn)\<rparr>)
      | _ \<Rightarrow> on_panic s)"

text \<open>What a received message makes \<open>Run\<close> do next.\<close>

definition after_handle :: "agent_action list \<Rightarrow> amain_pc" where
  "after_handle acts = (case List.map_filter (\<lambda>x. case x of Enqueue m \<Rightarrow> Some m | _ \<Rightarrow> None) acts of
     m # _ \<Rightarrow> AEnq m | [] \<Rightarrow> AWait)"

fun agent_main_step :: "int \<Rightarrow> agent_run \<Rightarrow> agent_run option" where
  "agent_main_step now s =
     (case a_main s of
        AWait \<Rightarrow>
          (case chan_recv (ag_recvChan (agt s)) of
             Returns (Some msg, c) \<Rightarrow>
               (case agent_handle now msg ((agt s)\<lparr>ag_recvChan := c\<rparr>) of (acts, a) \<Rightarrow>
                  Some (s\<lparr>agt := a, a_main := after_handle acts,
                          a_works := a_works s + (if SpawnWork \<in> set acts then 1 else 0)\<rparr>))
           | Returns (None, c) \<Rightarrow> Some (s\<lparr>a_main := AClosing ATest\<rparr>)
           | Panics \<Rightarrow> Some (s\<lparr>a_crashed := True\<rparr>)
           | Blocks \<Rightarrow> None)
      | AEnq m \<Rightarrow>
          (case chan_send (ag_sendChan (agt s)) m of
             Returns c \<Rightarrow> Some (s\<lparr>agt := (agt s)\<lparr>ag_sendChan := c\<rparr>, a_main := AWait\<rparr>)
           | Panics \<Rightarrow> Some (s\<lparr>a_crashed := True\<rparr>)
           | Blocks \<Rightarrow> None)
      | AClosing ADone \<Rightarrow> Some (s\<lparr>a_main := AEnd\<rparr>)
      | AClosing pc \<Rightarrow> Some (aclose_in pc (\<lambda>pc' t. t\<lparr>a_main := AClosing pc'\<rparr>) (\<lambda>t. t\<lparr>a_crashed := True\<rparr>) s)
      | AEnd \<Rightarrow> None)"

fun agent_recv_step :: "agent_run \<Rightarrow> agent_run option" where
  "agent_recv_step s =
     (case a_rcv s of
        ARTest \<Rightarrow> Some (s\<lparr>a_rcv := (if Agent_IsClosed (agt s) then AREnd else ARGet)\<rparr>)
      | ARGet \<Rightarrow>
          (case message_Get (a_in s) of
             (Inl e, r) \<Rightarrow> Some (s\<lparr>a_in := r, a_rcv := ARClose ATest\<rparr>)
           | (Inr msg, r) \<Rightarrow> Some (s\<lparr>a_in := r, a_rcv := ARCheck msg\<rparr>))
      | ARCheck msg \<Rightarrow> Some (s\<lparr>a_rcv := (if Agent_IsClosed (agt s) then ARClose ATest else ARPut msg)\<rparr>)
      | ARPut msg \<Rightarrow>
          (case chan_send (ag_recvChan (agt s)) msg of
             Returns c \<Rightarrow> Some (s\<lparr>agt := (agt s)\<lparr>ag_recvChan := c\<rparr>, a_rcv := ARGet\<rparr>)
           | Panics \<Rightarrow> Some (s\<lparr>a_rcv := AREnd\<rparr>)
           | Blocks \<Rightarrow> None)
      | ARClose ADone \<Rightarrow> Some (s\<lparr>a_rcv := AREnd\<rparr>)
      | ARClose pc \<Rightarrow> Some (aclose_in pc (\<lambda>pc' t. t\<lparr>a_rcv := ARClose pc'\<rparr>) (\<lambda>t. t\<lparr>a_rcv := AREnd\<rparr>) s)
      | AREnd \<Rightarrow> None)"

fun agent_send_step :: "bool \<Rightarrow> agent_run \<Rightarrow> agent_run option" where
  "agent_send_step written s =
     (case a_snd s of
        ASGet \<Rightarrow>
          (case chan_recv (ag_sendChan (agt s)) of
             Returns (Some msg, c) \<Rightarrow> Some (s\<lparr>agt := (agt s)\<lparr>ag_sendChan := c\<rparr>, a_snd := ASPut msg\<rparr>)
           | Returns (None, c) \<Rightarrow> Some (s\<lparr>a_snd := ASClose ATest\<rparr>)
           | Panics \<Rightarrow> Some (s\<lparr>a_crashed := True\<rparr>)
           | Blocks \<Rightarrow> None)
      | ASPut msg \<Rightarrow>
          (if written \<and> \<not> a_conn_closed s
           then Some (s\<lparr>a_wire := a_wire s @ [msg], a_snd := ASGet\<rparr>)
           else Some (s\<lparr>a_snd := ASClose ATest\<rparr>))
      | ASClose ADone \<Rightarrow> Some (s\<lparr>a_snd := ASEnd\<rparr>)
      | ASClose pc \<Rightarrow> Some (aclose_in pc (\<lambda>pc' t. t\<lparr>a_snd := ASClose pc'\<rparr>) (\<lambda>t. t\<lparr>a_crashed := True\<rparr>) s)
      | ASEnd \<Rightarrow> None)"

text \<open>A tick is one of the ready cases of the \<open>select\<close>.  After a panic there are no more steps.\<close>

definition agent_tick_step :: "int \<Rightarrow> int \<Rightarrow> agent_run \<Rightarrow> agent_run option" where
  "agent_tick_step since now s =
     (if a_main s = AWait then
        (case agent_tick since now (agt s) of
           None \<Rightarrow> Some (s\<lparr>a_main := AClosing ATest\<rparr>)
         | Some req \<Rightarrow> Some (s\<lparr>a_main := AEnq req\<rparr>))
      else None)"

fun agent_step :: "aevent \<Rightarrow> agent_run \<Rightarrow> agent_run option" where
  "agent_step e s =
     (if a_crashed s then None
      else case e of
        AvTick since now \<Rightarrow> agent_tick_step since now s
      | AvMain now \<Rightarrow> agent_main_step now s
      | AvRecv \<Rightarrow> agent_recv_step s
      | AvRecvFail \<Rightarrow> (if a_rcv s = ARGet \<and> a_conn_closed s then Some (s\<lparr>a_rcv := ARClose ATest\<rparr>) else None)
      | AvSend written \<Rightarrow> agent_send_step written s)"

definition agent_start :: "agent \<Rightarrow> reader \<Rightarrow> agent_run" where
  "agent_start a r = \<lparr>agt = a, a_main = AWait, a_rcv = ARTest, a_snd = ASGet, a_in = r, a_wire = [],
     a_works = 0, a_conn_closed = False, a_crashed = False\<rparr>"

definition agent_init :: "agent_run \<Rightarrow> bool" where
  "agent_init s \<longleftrightarrow> (\<exists>c cl t now a r. start_ticker now (NewAgent c cl t) = Returns a \<and> s = agent_start a r)"

section \<open>Schedules in which the goroutines do not close at the same time\<close>

definition past :: "aclose_pc \<Rightarrow> bool" where
  "past pc \<longleftrightarrow> pc = ASet \<or> pc = ARecv \<or> pc = ASend \<or> pc = AConn"








lemma past_simps [simp]:
  "past ASet" "past ARecv" "past ASend" "past AConn" "\<not> past ATest" "\<not> past ADone"
  by (simp_all add: past_def)













section \<open>Properties\<close>

text \<open>The agent of the witnesses.\<close>

definition demo_agent :: agent where
  "demo_agent = (NewAgent 1 (NewClient (demo_config 60)) 0)\<lparr>ag_LastBeatTime := 30 * second\<rparr>"

lemma demo_agent_init: "agent_init (agent_start demo_agent r)"
proof -
  have "start_ticker 0 (NewAgent 1 (NewClient (demo_config 60)) 0) = Returns demo_agent"
    by (simp add: start_ticker_def demo_agent_def NewAgent_def NewClient_def demo_config_def duration_def second_def)
  then show ?thesis unfolding agent_init_def by blast
qed


text \<open>The schedules: the stream ends while a heartbeat is being written and sent.\<close>

definition late_send :: "aevent list" where
  "late_send = [AvTick (60 * second) (60 * second), AvRecv, AvRecv, AvRecv, AvRecv, AvRecv, AvRecv, AvRecv]"

definition double_close :: "aevent list" where
  "double_close = [AvTick (60 * second) (60 * second), AvMain 0, AvSend True, AvSend False, AvSend True,
     AvRecv, AvRecv, AvRecv, AvRecv, AvRecv, AvRecv, AvSend True, AvSend True]"

lemma tick_60: "agent_tick (60 * second) now demo_agent = Some (MHeartbeatRequest \<lparr>hbReq_Timestamp = UnixMicro now\<rparr>)"
  by (simp add: agent_tick_def demo_agent_def NewAgent_def NewClient_def demo_config_def duration_def second_def)

lemma Get_empty_stream: "message_Get \<lparr>chunks = [], final_err = e\<rparr> = (Inl (ErrIO e), \<lparr>chunks = [], final_err = e\<rparr>)"
  by (simp add: message_Get_def message_Read_def conn_Read_def)

lemma demo_agent_channels [simp]:
  "ag_closed demo_agent = False" "ag_sendChan demo_agent = make_chan 10" "ag_recvChan demo_agent = make_chan 10"
  by (simp_all add: demo_agent_def NewAgent_def)



text \<open>C35: The client can crash when its connection goes: there is a schedule in which \<open>Run\<close>
  sends on the channel \<open>awaitReceive\<close> has closed, and one in which \<open>awaitSend\<close> and
  \<open>awaitReceive\<close> both find the agent open and the later one closes a closed channel; neither
  panic is recovered.\<close>

theorem agent_can_crash:
  "\<exists>s. agent_init s \<and>
     (\<exists>t. exec agent_step (late_send @ [AvMain 0]) s = Some t \<and> a_crashed t) \<and>
     (\<exists>t. exec agent_step double_close s = Some t \<and> a_crashed t)"
proof (intro exI conjI)
  let ?s = "agent_start demo_agent \<lparr>chunks = [], final_err = EOF\<rparr>"
  show "agent_init ?s" by (rule demo_agent_init)
  show "exec agent_step (late_send @ [AvMain 0]) ?s = Some (the (exec agent_step (late_send @ [AvMain 0]) ?s))"
    "a_crashed (the (exec agent_step (late_send @ [AvMain 0]) ?s))"
    unfolding late_send_def agent_start_def
    by (simp_all add: agent_tick_step_def tick_60 Get_empty_stream Agent_IsClosed_def aclose_in_def
        chan_close_def make_chan_def chan_send_def del: chan_send_Panics)
  show "exec agent_step double_close ?s = Some (the (exec agent_step double_close ?s))"
    "a_crashed (the (exec agent_step double_close ?s))"
    unfolding double_close_def agent_start_def
    by (simp_all add: agent_tick_step_def tick_60 Get_empty_stream Agent_IsClosed_def aclose_in_def
        chan_close_def make_chan_def chan_send_def chan_recv_def del: chan_send_Panics)
qed

end
