(* ===== verification/Confirmed.thy ===== *)
theory Confirmed
  imports ManagerOrder AgentRun Session
begin

text \<open>
  What a client believes of its proxies.  A proxy is marked as started when the server's answer
  to its registration arrives; both sides run all their goroutines, interleaved, and between
  them is the stream.  The invariant of the agent says where its marks come from.
\<close>

section \<open>The agent's marks\<close>

fun with_arcv :: "arcv_pc \<Rightarrow> message list" where
  "with_arcv (ARCheck m) = [m]"
| "with_arcv (ARPut m) = [m]"
| "with_arcv _ = []"

fun areading :: "arcv_pc \<Rightarrow> bool" where
  "areading (ARClose pc) = False"
| "areading AREnd = False"
| "areading _ = True"

definition confirms :: "message \<Rightarrow> gostring \<Rightarrow> bool" where
  "confirms msg name \<longleftrightarrow> (\<exists>v. msg = MProxyResponse v \<and> proxyResp_Result v = ''ok'' \<and> proxyResp_Name v = name)"

definition started :: "agent \<Rightarrow> gostring set" where
  "started a = {name. \<exists>p. ag_Proxies a name = Some p \<and> cpx_Started p}"

definition marks_ok :: "agent \<Rightarrow> message list \<Rightarrow> agent \<Rightarrow> bool" where
  "marks_ok a0 ms a \<longleftrightarrow> (\<forall>name\<in>started a. name \<in> started a0 \<or> (\<exists>msg\<in>set ms. confirms msg name))"

definition seen :: "agent \<Rightarrow> reader \<Rightarrow> agent_run \<Rightarrow> message list \<Rightarrow> bool" where
  "seen a0 r s ms \<longleftrightarrow>
     fst (receive message_Get (length ms) r) = ms \<and>
     (areading (a_rcv s) \<longrightarrow> a_in s = snd (receive message_Get (length ms) r)) \<and>
     set (ch_buf (ag_recvChan (agt s))) \<union> set (with_arcv (a_rcv s)) \<subseteq> set ms \<and>
     marks_ok a0 ms (agt s)"

definition seen_inv :: "agent \<Rightarrow> reader \<Rightarrow> agent_run \<Rightarrow> bool" where
  "seen_inv a0 r s \<longleftrightarrow> (\<exists>ms. seen a0 r s ms)"

lemma started_simps [simp]:
  "started (a\<lparr>ag_recvChan := c\<rparr>) = started a" "started (a\<lparr>ag_sendChan := c\<rparr>) = started a"
  "started (a\<lparr>ag_closed := b\<rparr>) = started a" "started (a\<lparr>ag_LastBeatTime := t\<rparr>) = started a"
  by (simp_all add: started_def)

lemma agent_handle_started:
  assumes "agent_handle now msg a = (acts, a')"
  shows "name \<in> started a' \<Longrightarrow> name \<in> started a \<or> confirms msg name" "ag_recvChan a' = ag_recvChan a"
  using assms by (auto simp: agent_handle_def started_def confirms_def
      split: message.splits if_splits option.splits)

lemma aclose_step_frame:
  "aclose_step pc a = Returns (pc', a', eff) \<Longrightarrow>
   started a' = started a \<and> ch_buf (ag_recvChan a') = ch_buf (ag_recvChan a)"
  by (cases pc) (auto simp: chan_close_def split: if_splits)

text \<open>A step that reads nothing, keeps the marks and puts nothing new into the channel.\<close>

lemma seen_kept:
  assumes "seen a0 r s ms" "areading (a_rcv s') \<Longrightarrow> areading (a_rcv s) \<and> a_in s' = a_in s"
    "set (ch_buf (ag_recvChan (agt s'))) \<subseteq> set (ch_buf (ag_recvChan (agt s))) \<union> set (with_arcv (a_rcv s))"
    "set (with_arcv (a_rcv s')) \<subseteq> set (with_arcv (a_rcv s))" "started (agt s') = started (agt s)"
  shows "seen_inv a0 r s'"
proof -
  have old: "fst (receive message_Get (length ms) r) = ms"
    "areading (a_rcv s) \<longrightarrow> a_in s = snd (receive message_Get (length ms) r)"
    "set (ch_buf (ag_recvChan (agt s))) \<subseteq> set ms" "set (with_arcv (a_rcv s)) \<subseteq> set ms" "marks_ok a0 ms (agt s)"
    using assms(1) unfolding seen_def by blast+
  have "areading (a_rcv s') \<longrightarrow> a_in s' = snd (receive message_Get (length ms) r)" using old(2) assms(2) by metis
  moreover have "set (ch_buf (ag_recvChan (agt s'))) \<union> set (with_arcv (a_rcv s')) \<subseteq> set ms"
    using old(3,4) assms(3,4) by blast
  moreover have "marks_ok a0 ms (agt s')" using old(5) by (simp add: marks_ok_def assms(5))
  ultimately have "seen a0 r s' ms" using old(1) unfolding seen_def by blast
  then show ?thesis unfolding seen_inv_def by blast
qed

lemma seen_close_in:
  assumes "seen a0 r s ms" "\<And>pc' t. a_rcv (f pc' t) = a_rcv t \<or> \<not> areading (a_rcv (f pc' t)) \<and> with_arcv (a_rcv (f pc' t)) = []"
    "\<And>pc' t. agt (f pc' t) = agt t \<and> a_in (f pc' t) = a_in t"
    "\<And>t. a_rcv (g t) = a_rcv t \<or> \<not> areading (a_rcv (g t)) \<and> with_arcv (a_rcv (g t)) = []"
    "\<And>t. agt (g t) = agt t \<and> a_in (g t) = a_in t"
  shows "seen_inv a0 r (aclose_in pc f g s)"
proof (cases "aclose_step pc (agt s)")
  case (Returns x)
  obtain pc' a' eff where x: "x = (pc', a', eff)" by (cases x)
  let ?s = "s\<lparr>agt := a', a_conn_closed := (a_conn_closed s \<or> pc = AConn)\<rparr>"
  have s': "aclose_in pc f g s = f pc' ?s" using Returns by (simp add: aclose_in_def x)
  show ?thesis unfolding s'
    using aclose_step_frame [OF Returns [unfolded x]] assms(2) [of pc' ?s] assms(3) [of pc' ?s]
    by (intro seen_kept [OF assms(1)]) auto
qed (use assms(4) [of s] assms(5) [of s] in \<open>auto simp: aclose_in_def intro!: seen_kept [OF assms(1)]\<close>)

lemma seen_main:
  assumes s: "seen a0 r s ms" and step: "agent_main_step now s = Some s'"
  shows "seen_inv a0 r s'"
proof (cases "a_main s")
  case AWait
  have np: "chan_recv c \<noteq> Panics" for c :: "message chan" by (simp add: chan_recv_def split: list.splits)
  consider (msg) msg c acts a where "chan_recv (ag_recvChan (agt s)) = Returns (Some msg, c)"
      "agent_handle now msg ((agt s)\<lparr>ag_recvChan := c\<rparr>) = (acts, a)"
      "s' = s\<lparr>agt := a, a_main := after_handle acts, a_works := a_works s + (if SpawnWork \<in> set acts then 1 else 0)\<rparr>"
    | (stop) "s' = s\<lparr>a_main := AClosing ATest\<rparr>"
    using AWait step np by (auto split: outcome.splits option.splits prod.splits)
  then show ?thesis
  proof cases
    case msg
    have c: "ch_buf (ag_recvChan (agt s)) = msg # ch_buf c"
      using msg(1) by (auto simp: chan_recv_def split: list.splits if_splits)
    then have "msg \<in> set ms" "set (ch_buf c) \<subseteq> set ms" using s by (auto simp: seen_def)
    then have "seen a0 r s' ms"
      using s msg(3) agent_handle_started [OF msg(2)] unfolding seen_def marks_ok_def by fastforce
    then show ?thesis unfolding seen_inv_def by blast
  next
    case stop
    then show ?thesis by (auto intro: seen_kept [OF s])
  qed
next
  case (AEnq m)
  then show ?thesis using step by (auto intro!: seen_kept [OF s] split: outcome.splits)
next
  case (AClosing pc)
  have "s' = s\<lparr>a_main := AEnd\<rparr> \<or> s' = aclose_in pc (\<lambda>pc' t. t\<lparr>a_main := AClosing pc'\<rparr>) (\<lambda>t. t\<lparr>a_crashed := True\<rparr>) s"
    using AClosing step by (cases pc) auto
  then show ?thesis by (auto intro!: seen_kept [OF s] seen_close_in [OF s])
qed (use step in simp)

lemma seen_recv:
  assumes s: "seen a0 r s ms" and step: "agent_recv_step s = Some s'"
  shows "seen_inv a0 r s'"
proof (cases "a_rcv s")
  case ARGet
  then consider (msg) msg r' where "message_Get (a_in s) = (Inr msg, r')" "s' = s\<lparr>a_in := r', a_rcv := ARCheck msg\<rparr>"
    | (fail) r' where "s' = s\<lparr>a_in := r', a_rcv := ARClose ATest\<rparr>"
    using step by (auto split: prod.splits sum.splits)
  then show ?thesis
  proof cases
    case msg
    have f: "fst (receive message_Get (length ms) r) = ms" "a_in s = snd (receive message_Get (length ms) r)"
      using s ARGet unfolding seen_def by simp_all
    have "receive message_Get (length (ms @ [msg])) r = (ms @ [msg], r')"
      using receive_snoc [of message_Get ms r msg r'] f msg(1) by simp
    then have "seen a0 r s' (ms @ [msg])"
      using s msg(2) ARGet unfolding seen_def marks_ok_def by auto
    then show ?thesis unfolding seen_inv_def by blast
  next
    case fail
    then show ?thesis by (auto intro!: seen_kept [OF s])
  qed
next
  case (ARPut msg)
  then show ?thesis using step
    by (auto simp: chan_send_def intro!: seen_kept [OF s] split: outcome.splits if_splits)
next
  case (ARClose pc)
  have "s' = s\<lparr>a_rcv := AREnd\<rparr> \<or> s' = aclose_in pc (\<lambda>pc' t. t\<lparr>a_rcv := ARClose pc'\<rparr>) (\<lambda>t. t\<lparr>a_rcv := AREnd\<rparr>) s"
    using ARClose step by (cases pc) auto
  then show ?thesis by (auto intro!: seen_kept [OF s] seen_close_in [OF s])
qed (use step in \<open>auto intro!: seen_kept [OF s] split: if_splits\<close>)

lemma seen_send:
  assumes s: "seen a0 r s ms" and step: "agent_send_step b s = Some s'"
  shows "seen_inv a0 r s'"
proof (cases "a_snd s")
  case ASGet
  then show ?thesis using step by (auto intro!: seen_kept [OF s] split: outcome.splits option.splits)
next
  case (ASPut msg)
  then show ?thesis using step by (auto intro!: seen_kept [OF s] split: if_splits)
next
  case (ASClose pc)
  have "s' = s\<lparr>a_snd := ASEnd\<rparr> \<or> s' = aclose_in pc (\<lambda>pc' t. t\<lparr>a_snd := ASClose pc'\<rparr>) (\<lambda>t. t\<lparr>a_crashed := True\<rparr>) s"
    using ASClose step by (cases pc) auto
  then show ?thesis by (auto intro!: seen_kept [OF s] seen_close_in [OF s])
qed (use step in simp)

lemma seen_step:
  assumes "seen_inv a0 r s" "agent_step e s = Some s'"
  shows "seen_inv a0 r s'"
proof -
  obtain ms where s: "seen a0 r s ms" using assms(1) unfolding seen_inv_def by blast
  show ?thesis
  proof (cases e)
    case (AvTick since now)
    then show ?thesis using assms(2)
      by (auto simp: agent_tick_step_def split: if_splits option.splits intro!: seen_kept [OF s])
  next
    case (AvMain now)
    then show ?thesis using assms(2) seen_main [OF s, of now] by (auto split: if_splits)
  next
    case AvRecv
    then show ?thesis using assms(2) seen_recv [OF s] by (auto split: if_splits)
  next
    case AvRecvFail
    then show ?thesis using assms(2) by (auto split: if_splits intro!: seen_kept [OF s])
  next
    case (AvSend b)
    then show ?thesis using assms(2) seen_send [OF s, of b] by (auto split: if_splits)
  qed
qed

lemma seen_start: "ch_buf (ag_recvChan a) = [] \<Longrightarrow> seen_inv a r (agent_start a r)"
proof -
  assume "ch_buf (ag_recvChan a) = []"
  then have "seen a r (agent_start a r) []" by (simp add: seen_def agent_start_def marks_ok_def)
  then show ?thesis unfolding seen_inv_def by blast
qed

definition agent_on :: "agent \<Rightarrow> reader \<Rightarrow> agent_run \<Rightarrow> bool" where
  "agent_on a r s \<longleftrightarrow> ch_buf (ag_recvChan a) = [] \<and> s = agent_start a r"

interpretation marking: invariant_system "agent_on a r" agent_step "seen_inv a r" for a r
  by unfold_locales (auto simp: agent_on_def intro: seen_start seen_step simp del: agent_step.simps)

section \<open>Both sides\<close>

lemma receive_written:
  assumes "list_all modest ms" "prefix (content r) (concat (map wire ms))"
  shows "set (fst (receive message_Get n r)) \<subseteq> set ms"
proof -
  have "sanitize_message m = m" if "m \<in> set ms" for m
    using that assms(1) by (intro sanitize_message_valid) (auto simp: modest_def list_all_iff)
  then have "sanitize_message ` set ms = set ms" by force
  moreover have "list_all sendable ms" using assms(1) modest_sendable by (auto simp: list_all_iff)
  ultimately show ?thesis using receive_sent_only [OF _ assms(2)] by auto
qed

section \<open>Properties\<close>

text \<open>C4: A client marks a proxy as started only on the server's word.  What the server's
  goroutines read is a part, from its beginning, of the bytes of the client's messages \<open>reqs\<close>, and
  what the client's read a part of the bytes of messages \<open>ms\<close> that the manager has written; both
  streams may end anywhere and be cut into reads anyhow.  The messages are modest: their strings
  are valid UTF-8 and shorter than a megabyte.  Whatever the interleavings of the goroutines on both
  sides, a proxy that an agent has marked was marked before the session began, or the client has
  asked for it on this stream and the manager has answered ok under its name.\<close>

theorem started_was_confirmed:
  assumes server: "exec mgr_step es (mgr_start cid conn req now pool r) = Some t"
    "\<forall>msg. EvPost msg \<in> set es \<longrightarrow> \<not> is_answer msg"
    and requests: "list_all modest reqs" "prefix (content r) (concat (map wire reqs))"
    and client: "start_ticker later (NewAgent c cl born) = Returns a" "exec agent_step as (agent_start a ra) = Some u"
    and stream: "list_all modest ms" "prefix (content ra) (concat (map wire ms))" "suffix ms (wire_out t)"
    and mark: "name \<in> started (agt u)"
  shows "name \<in> started a \<or>
    (\<exists>v w. MProxyRequest v \<in> set reqs \<and> proxyReq_Enable v \<and> proxyReq_Name v = name \<and>
       MProxyResponse w \<in> set (wire_out t) \<and> proxyResp_Result w = ''ok'' \<and> proxyResp_Name w = name)"
proof (cases "name \<in> started a")
  case new: False
  have "ch_buf (ag_recvChan a) = []"
    using client(1) by (auto simp: start_ticker_def NewAgent_def make_chan_def split: if_splits)
  then have "seen_inv a ra u" using client(2) by (intro marking.reachable_inv) (auto simp: agent_on_def)
  then obtain k where k: "marks_ok a (fst (receive message_Get k ra)) (agt u)"
    unfolding seen_inv_def seen_def by metis
  with mark new obtain msg where "msg \<in> set (fst (receive message_Get k ra))" "confirms msg name"
    unfolding marks_ok_def by blast
  with receive_written [OF stream(1,2)] obtain w where w: "MProxyResponse w \<in> set ms" "proxyResp_Result w = ''ok''"
    "proxyResp_Name w = name" unfolding confirms_def by blast
  then have wire: "MProxyResponse w \<in> set (wire_out t)" using stream(3) by (auto simp: suffix_def)
  then obtain n v where v: "v \<in> set (fst (receive message_Get n r))" "answers_to v (MProxyResponse w)"
    using answer_has_request [OF order_reached [OF server], of "MProxyResponse w"] by auto
  obtain v' where v': "v = MProxyRequest v'" "proxyReq_Enable v'" "proxyReq_Name v' = name"
    using v(2) w(2,3) by (cases v) (auto simp: prefix_def)
  moreover have "MProxyRequest v' \<in> set reqs" using v(1) v'(1) receive_written [OF requests] by auto
  ultimately show ?thesis using wire w(2,3) by blast
qed simp

text \<open>The client whose registration the server's demonstration run answers.\<close>

definition web_client :: client where
  "web_client = NewClient \<lparr>ccfg_Name = ''h'', ccfg_Tag = ''t'', ccfg_ServerAddr = [], ccfg_AuthCode = [], ccfg_PoolSize = 1, ccfg_LogFile = [],
     ccfg_Proxies = [''w'' \<mapsto> \<lparr>cpx_Name = ''w'', cpx_Type = ''tcp'', cpx_LocalAddr = ''localhost:80'', cpx_RemotePort = ''80'',
       cpx_wn = 0, cpx_rn = 0, cpx_Started = False\<rparr>], ccfg_HeartbeatInterval = 60, ccfg_Debug = False\<rparr>"

definition web_agent :: agent where
  "web_agent = (NewAgent 2 web_client 0)\<lparr>ag_LastBeatTime := 30 * second\<rparr>"

lemma web_agent_starts: "start_ticker 0 (NewAgent 2 web_client 0) = Returns web_agent" "started web_agent = {}"
  by (simp_all add: start_ticker_def web_agent_def NewAgent_def web_client_def NewClient_def started_def duration_def second_def)

lemma modest_web: "modest reg_web" "modest ok_web"
proof -
  have "message_strings reg_web = [''w'', [], ''80'', []]" "message_strings ok_web = [''w'', ''80'', ''ok'']"
    by (simp_all add: reg_web_def ok_web_def message_strings_def List.map_filter_def)
  moreover have "ValidString ''w''" "ValidString []" "ValidString ''80''" "ValidString ''ok''"
    by (rule ValidString_ascii; fastforce)+
  ultimately show "modest reg_web" "modest ok_web"
    by (simp_all add: modest_def) (simp_all add: reg_web_def ok_web_def)
qed

lemma web_agent_runs:
  "\<exists>u. exec agent_step [AvRecv, AvRecv, AvRecv, AvRecv, AvMain 0] (agent_start web_agent \<lparr>chunks = map wire [ok_web], final_err = EOF\<rparr>) = Some u \<and>
     ''w'' \<in> started (agt u)"
proof -
  have "sanitize_message ok_web = ok_web"
    using modest_web(2) by (intro sanitize_message_valid) (auto simp: modest_def list_all_iff)
  then have "message_Get \<lparr>chunks = [wire ok_web], final_err = EOF\<rparr> = (Inr ok_web, \<lparr>chunks = [], final_err = EOF\<rparr>)"
    using messages.dec_chunk [OF modest_sendable [OF modest_web(2)], of "\<lparr>chunks = [wire ok_web], final_err = EOF\<rparr>" "[]"] by simp
  then show ?thesis
    by (simp add: agent_start_def web_agent_def NewAgent_def web_client_def NewClient_def Agent_IsClosed_def make_chan_def
        chan_send_def chan_recv_def agent_handle_def ok_web_def Proxy_Start_def started_def)
qed

lemma started_was_confirmed_witness:
  "\<exists>v w. MProxyRequest v \<in> {reg_web} \<and> proxyReq_Name v = ''w'' \<and>
     MProxyResponse w \<in> {MPipeRequest \<lparr>pipeReq_ClientId = []\<rparr>, ok_web} \<and> proxyResp_Name w = ''w''"
proof -
  obtain t where t: "exec mgr_step order_schedule demo_start = Some t" "wire_out t = [MPipeRequest \<lparr>pipeReq_ClientId = []\<rparr>, ok_web]"
    using order_run by blast
  obtain u where u: "exec agent_step [AvRecv, AvRecv, AvRecv, AvRecv, AvMain 0]
      (agent_start web_agent \<lparr>chunks = map wire [ok_web], final_err = EOF\<rparr>) = Some u" "''w'' \<in> started (agt u)"
    using web_agent_runs by blast
  have "\<forall>msg. EvPost msg \<in> set order_schedule \<longrightarrow> \<not> is_answer msg" by (simp add: order_schedule_def)
  from started_was_confirmed [OF t(1) [unfolded demo_start_def] this, of "[reg_web]", OF _ _ web_agent_starts(1) u(1), of "[ok_web]" "''w''"]
  show ?thesis using modest_web u(2) t(2) web_agent_starts(2) by (auto simp: suffix_def content_def)
qed

end
