(* ===== verification/Pipe.thy ===== *)
theory Pipe
  imports Prelude
begin

text \<open>
  \<open>util/pipe/pipe.go\<close>: \<open>Join\<close> copies between two connections in both directions until
  one of them ends, then closes both; \<open>ReadWriteCloser\<close> closes what it wraps once.  The
  two copying goroutines and the arrival of data are a step relation.
\<close>

section \<open>One direction\<close>

text \<open>
  A goroutine of \<open>Join\<close>: copying, then its deferred calls in their order: \<open>wait.Done()\<close>,
  \<open>from.Close()\<close>, \<open>to.Close()\<close>.
\<close>

datatype copy_pc = Copying | WaitDone | CloseFrom | CloseTo | Ended

text \<open>
  \<open>inq\<close> holds what has arrived from the source and was not read, \<open>ended\<close> that nothing
  more will come; \<open>arrived\<close> is all that ever came, \<open>out\<close> all that was written.
\<close>

record dir =
  inq :: "gostring list"
  ended :: bool
  arrived :: gostring
  out :: gostring
  written :: nat
  pc :: copy_pc

definition new_dir :: dir where
  "new_dir = \<lparr>inq = [], ended = False, arrived = [], out = [], written = 0, pc = Copying\<rparr>"

text \<open>
  One step, given whether the source and the target are closed.  A closed source fails to
  read; a closed target fails to write and the chunk just read is lost.  \<open>None\<close>: the read
  waits, or the goroutine has ended.
\<close>

fun pipe_step :: "bool \<Rightarrow> bool \<Rightarrow> dir \<Rightarrow> dir option" where
  "pipe_step from_closed to_closed d =
     (case pc d of
        Copying \<Rightarrow>
          (if from_closed then Some (d\<lparr>pc := WaitDone\<rparr>)
           else (case inq d of
               c # cs \<Rightarrow>
                 (if to_closed then Some (d\<lparr>inq := cs, pc := WaitDone\<rparr>)
                  else Some (d\<lparr>inq := cs, out := out d @ c, written := written d + length c\<rparr>))
             | [] \<Rightarrow> (if ended d then Some (d\<lparr>pc := WaitDone\<rparr>) else None)))
      | WaitDone \<Rightarrow> Some (d\<lparr>pc := CloseFrom\<rparr>)
      | CloseFrom \<Rightarrow> Some (d\<lparr>pc := CloseTo\<rparr>)
      | CloseTo \<Rightarrow> Some (d\<lparr>pc := Ended\<rparr>)
      | Ended \<Rightarrow> None)"

section \<open>Join\<close>

record joined =
  to_left :: dir
  to_right :: dir
  left_closed :: bool
  right_closed :: bool

definition Join_start :: joined where
  "Join_start = \<lparr>to_left = new_dir, to_right = new_dir, left_closed = False, right_closed = False\<rparr>"

inductive join_step :: "joined \<Rightarrow> joined \<Rightarrow> bool" where
  copy_left: "pipe_step (right_closed s) (left_closed s) (to_left s) = Some d \<Longrightarrow>
    join_step s (s\<lparr>to_left := d, right_closed := (right_closed s \<or> pc (to_left s) = CloseFrom),
                   left_closed := (left_closed s \<or> pc (to_left s) = CloseTo)\<rparr>)"
| copy_right: "pipe_step (left_closed s) (right_closed s) (to_right s) = Some d \<Longrightarrow>
    join_step s (s\<lparr>to_right := d, left_closed := (left_closed s \<or> pc (to_right s) = CloseFrom),
                   right_closed := (right_closed s \<or> pc (to_right s) = CloseTo)\<rparr>)"
| from_right: "\<not> ended (to_left s) \<Longrightarrow>
    join_step s (s\<lparr>to_left := (to_left s)\<lparr>inq := inq (to_left s) @ [c], arrived := arrived (to_left s) @ c\<rparr>\<rparr>)"
| from_left: "\<not> ended (to_right s) \<Longrightarrow>
    join_step s (s\<lparr>to_right := (to_right s)\<lparr>inq := inq (to_right s) @ [c], arrived := arrived (to_right s) @ c\<rparr>\<rparr>)"
| end_right: "join_step s (s\<lparr>to_left := (to_left s)\<lparr>ended := True\<rparr>\<rparr>)"
| end_left: "join_step s (s\<lparr>to_right := (to_right s)\<lparr>ended := True\<rparr>\<rparr>)"

inductive_cases join_stepE: "join_step s t"

code_pred join_step .

text \<open>\<open>wait.Wait()\<close> returns, and with it \<open>Join\<close>, when both have called \<open>Done\<close>.\<close>

definition Join_returns :: "joined \<Rightarrow> (nat \<times> nat) option" where
  "Join_returns s =
     (if pc (to_left s) \<notin> {Copying, WaitDone} \<and> pc (to_right s) \<notin> {Copying, WaitDone}
      then Some (written (to_right s), written (to_left s)) else None)"

section \<open>ReadWriteCloser\<close>

text \<open>The wrapper's state: closed, whether there is an original, how often that was closed.\<close>

record rwc =
  rw_closed :: bool
  rw_ori :: bool
  rw_ori_closes :: nat

definition WrapReadWriteCloser :: "bool \<Rightarrow> rwc" where
  "WrapReadWriteCloser ori = \<lparr>rw_closed = False, rw_ori = ori, rw_ori_closes = 0\<rparr>"

text \<open>
  \<open>Close\<close>, by any number of callers: the part under the lock, whose result says whether
  the caller goes on, and the rest.  A schedule is a list of callers; each step is the next
  part of that caller's call.
\<close>

definition rwc_test :: "rwc \<Rightarrow> bool \<times> rwc" where
  "rwc_test w = (if rw_closed w then (False, w) else (True, w\<lparr>rw_closed := True\<rparr>))"

definition rwc_rest :: "rwc \<Rightarrow> rwc" where
  "rwc_rest w = (if rw_ori w then w\<lparr>rw_ori_closes := Suc (rw_ori_closes w)\<rparr> else w)"

datatype close_call = NotCalled | Passed | Returned

fun rwc_run :: "nat list \<Rightarrow> (nat \<Rightarrow> close_call) \<Rightarrow> rwc \<Rightarrow> (nat \<Rightarrow> close_call) \<times> rwc" where
  "rwc_run [] calls w = (calls, w)"
| "rwc_run (i # is) calls w =
     (case calls i of
        NotCalled \<Rightarrow> (case rwc_test w of (goes_on, w') \<Rightarrow>
          rwc_run is (calls(i := (if goes_on then Passed else Returned))) w')
      | Passed \<Rightarrow> rwc_run is (calls(i := Returned)) (rwc_rest w)
      | Returned \<Rightarrow> rwc_run is calls w)"

section \<open>Lemmas\<close>

text \<open>What holds of a direction at all times.\<close>

definition dir_inv :: "bool \<Rightarrow> bool \<Rightarrow> dir \<Rightarrow> bool" where
  "dir_inv from_closed to_closed d \<longleftrightarrow>
     prefix (out d) (arrived d) \<and> written d = length (out d) \<and>
     (pc d = Copying \<longrightarrow> out d @ concat (inq d) = arrived d) \<and>
     (pc d \<noteq> Copying \<longrightarrow> (ended d \<and> out d = arrived d) \<or> from_closed \<or> to_closed) \<and>
     (pc d = CloseTo \<longrightarrow> from_closed) \<and> (pc d = Ended \<longrightarrow> from_closed \<and> to_closed)"

lemma dir_inv_new [simp]: "dir_inv f t new_dir"
  by (simp add: dir_inv_def new_dir_def)

lemma dir_inv_mono: "dir_inv f t d \<Longrightarrow> dir_inv (f \<or> x) (t \<or> y) d"
  by (auto simp: dir_inv_def)

lemma dir_inv_step:
  assumes "dir_inv f t d" "pipe_step f t d = Some d'"
  shows "dir_inv (f \<or> pc d = CloseFrom) (t \<or> pc d = CloseTo) d'"
proof (cases "pc d")
  case Copying
  with assms show ?thesis
    by (auto simp: dir_inv_def prefix_def split: if_splits list.splits)
qed (use assms in \<open>auto simp: dir_inv_def\<close>)

text \<open>Nothing comes after the end, so data arrives only while the source is open-ended.\<close>

lemma dir_inv_arrive:
  "dir_inv f t d \<Longrightarrow> \<not> ended d \<Longrightarrow> dir_inv f t (d\<lparr>inq := inq d @ [c], arrived := arrived d @ c\<rparr>)"
  by (auto simp: dir_inv_def)

lemma dir_inv_end: "dir_inv f t d \<Longrightarrow> dir_inv f t (d\<lparr>ended := True\<rparr>)"
  by (auto simp: dir_inv_def)

definition join_inv :: "joined \<Rightarrow> bool" where
  "join_inv s \<longleftrightarrow> dir_inv (right_closed s) (left_closed s) (to_left s) \<and>
     dir_inv (left_closed s) (right_closed s) (to_right s)"

lemma join_inv_step: "join_step s t \<Longrightarrow> join_inv s \<Longrightarrow> join_inv t"
proof (induction rule: join_step.induct)
  case (copy_left s d)
  then show ?case
    using dir_inv_step [of "right_closed s" "left_closed s" "to_left s" d]
      dir_inv_mono [of "left_closed s" "right_closed s" "to_right s"]
    by (simp add: join_inv_def)
next
  case (copy_right s d)
  then show ?case
    using dir_inv_step [of "left_closed s" "right_closed s" "to_right s" d]
      dir_inv_mono [of "right_closed s" "left_closed s" "to_left s"]
    by (simp add: join_inv_def)
qed (simp_all add: join_inv_def dir_inv_arrive dir_inv_end)

lemma join_inv_start: "join_inv Join_start"
  by (simp add: join_inv_def Join_start_def)

lemma join_inv_reachable: "join_step\<^sup>*\<^sup>* Join_start s \<Longrightarrow> join_inv s"
  by (induction rule: rtranclp_induct) (auto intro: join_inv_start join_inv_step)

text \<open>The two goroutines: where neither can go on.\<close>

definition join_idle :: "joined \<Rightarrow> bool" where
  "join_idle s \<longleftrightarrow> pipe_step (right_closed s) (left_closed s) (to_left s) = None \<and>
     pipe_step (left_closed s) (right_closed s) (to_right s) = None"

lemma pipe_step_None:
  "pipe_step f t d = None \<longleftrightarrow> pc d = Ended \<or> pc d = Copying \<and> \<not> f \<and> inq d = [] \<and> \<not> ended d"
  by (cases "pc d") (auto split: list.splits)

text \<open>A measure that every step of the goroutines, without new data, lowers.\<close>

fun pc_rank :: "copy_pc \<Rightarrow> nat" where
  "pc_rank Copying = 4" | "pc_rank WaitDone = 3" | "pc_rank CloseFrom = 2" | "pc_rank CloseTo = 1" | "pc_rank Ended = 0"

definition dir_size :: "dir \<Rightarrow> nat" where
  "dir_size d = length (inq d) + pc_rank (pc d)"

lemma pipe_step_size: "pipe_step f t d = Some d' \<Longrightarrow> dir_size d' < dir_size d"
  by (cases "pc d") (auto simp: dir_size_def split: if_splits list.splits)

text \<open>The callers that passed the test are at most one, and it has closed the flag.\<close>

lemma rwc_run_closed:
  "rw_closed w \<Longrightarrow> \<forall>i. calls i \<noteq> Passed \<Longrightarrow> rwc_run is calls w = (calls', w') \<Longrightarrow>
   rw_ori_closes w' = rw_ori_closes w"
proof (induction "is" arbitrary: calls)
  case (Cons i "is")
  show ?case
  proof (cases "calls i")
    case NotCalled
    with Cons.prems have r: "rwc_run is (calls(i := Returned)) w = (calls', w')"
      by (simp add: rwc_test_def)
    have "\<forall>k. (calls(i := Returned)) k \<noteq> Passed" using Cons.prems(2) by simp
    from Cons.IH [OF Cons.prems(1) this r] show ?thesis .
  next
    case Returned
    with Cons show ?thesis by simp
  qed (use Cons.prems in simp)
qed simp

lemma rwc_run_once:
  "rw_closed w \<Longrightarrow> calls j = Passed \<Longrightarrow> \<forall>i. calls i = Passed \<longrightarrow> i = j \<Longrightarrow>
   rwc_run is calls w = (calls', w') \<Longrightarrow>
   rw_ori_closes w' = rw_ori_closes w + (if rw_ori w \<and> j \<in> set is then 1 else 0)"
proof (induction "is" arbitrary: calls)
  case Nil
  from Nil.prems(4) have "w' = w" by simp
  then show ?case by simp
next
  case (Cons i "is")
  show ?case
  proof (cases "calls i")
    case NotCalled
    with Cons.prems(1,4) have r: "rwc_run is (calls(i := Returned)) w = (calls', w')"
      by (simp add: rwc_test_def)
    have ij: "i \<noteq> j" using NotCalled Cons.prems(2) by auto
    then have c: "(calls(i := Returned)) j = Passed" using Cons.prems(2) by simp
    have "\<forall>k. (calls(i := Returned)) k = Passed \<longrightarrow> k = j" using Cons.prems(3) by simp
    from Cons.IH [OF Cons.prems(1) c this r] ij show ?thesis by simp
  next
    case Passed
    then have i: "i = j" using Cons.prems(3) by blast
    have r: "rwc_run is (calls(j := Returned)) (rwc_rest w) = (calls', w')"
      using Cons.prems(4) Passed i by simp
    have "\<forall>k. (calls(j := Returned)) k \<noteq> Passed" using Cons.prems(3) by auto
    moreover have "rw_closed (rwc_rest w)" using Cons.prems(1) by (simp add: rwc_rest_def)
    ultimately have "rw_ori_closes w' = rw_ori_closes (rwc_rest w)" using r by (intro rwc_run_closed)
    then show ?thesis using i by (simp add: rwc_rest_def)
  next
    case Returned
    then have "i \<noteq> j" using Cons.prems(2) by auto
    moreover have "rwc_run is calls w = (calls', w')" using Returned Cons.prems(4) by simp
    from Cons.IH [OF Cons.prems(1-3) this] have
      "rw_ori_closes w' = rw_ori_closes w + (if rw_ori w \<and> j \<in> set is then 1 else 0)" .
    ultimately show ?thesis by simp
  qed
qed

lemma rwc_run_keeps_closed: "rw_closed w \<Longrightarrow> rwc_run is calls w = (calls', w') \<Longrightarrow> rw_closed w'"
proof (induction "is" arbitrary: calls w)
  case (Cons i "is")
  obtain c v where "rwc_run is c v = (calls', w')" "rw_closed v"
  proof (cases "calls i")
    case Passed
    have "rw_closed (rwc_rest w)" using Cons.prems(1) by (simp add: rwc_rest_def)
    with that show thesis using Cons.prems(2) Passed by simp
  next
    case NotCalled
    then have "rwc_run is (calls(i := Returned)) w = (calls', w')" using Cons.prems by (simp add: rwc_test_def)
    from that [OF this Cons.prems(1)] show thesis .
  next
    case Returned
    then have "rwc_run is calls w = (calls', w')" using Cons.prems(2) by simp
    from that [OF this Cons.prems(1)] show thesis .
  qed
  from Cons.IH [OF this(2,1)] show ?case .
qed simp

section \<open>Properties\<close>

text \<open>Whatever the order of the two goroutines and of the data, each connection is sent a
  beginning of what the other delivered, in order, with the byte count right; a direction
  stops short only if one of the connections was closed, and one that has ended has closed
  both.\<close>

theorem Join_copies:
  assumes "join_step\<^sup>*\<^sup>* Join_start s"
  shows "\<forall>d\<in>{to_left s, to_right s}.
    prefix (out d) (arrived d) \<and> written d = length (out d) \<and>
    (pc d \<noteq> Copying \<longrightarrow> (ended d \<and> out d = arrived d) \<or> left_closed s \<or> right_closed s) \<and>
    (pc d = Ended \<longrightarrow> left_closed s \<and> right_closed s)"
  using join_inv_reachable [OF assms] by (auto simp: join_inv_def dir_inv_def)

text \<open>A run for the witnesses: three bytes from the left, then its end.\<close>

definition demo_join :: joined where
  "demo_join = Join_start\<lparr>to_right := new_dir\<lparr>ended := True, arrived := ''abc'', out := ''abc'', written := 3\<rparr>\<rparr>"

lemma demo_join_reachable: "join_step\<^sup>*\<^sup>* Join_start demo_join"
proof -
  let ?s1 = "Join_start\<lparr>to_right := new_dir\<lparr>inq := [''abc''], arrived := ''abc''\<rparr>\<rparr>"
  let ?s2 = "Join_start\<lparr>to_right := new_dir\<lparr>arrived := ''abc'', out := ''abc'', written := 3\<rparr>\<rparr>"
  have "join_step Join_start ?s1"
    using from_left [of Join_start "''abc''"] by (simp add: Join_start_def new_dir_def)
  moreover have "join_step ?s1 ?s2"
    using copy_right [of ?s1 "to_right ?s2"] by (simp add: Join_start_def new_dir_def)
  moreover have "join_step ?s2 demo_join"
    using end_left [of ?s2] by (simp add: Join_start_def new_dir_def demo_join_def)
  ultimately show ?thesis by (meson rtranclp.rtrancl_into_rtrancl rtranclp.rtrancl_refl)
qed

lemma Join_copies_witness: "prefix (out (to_right demo_join)) (arrived (to_right demo_join)) \<and> out (to_right demo_join) = ''abc''"
  using Join_copies [OF demo_join_reachable] by (simp add: demo_join_def)

text \<open>C22: \<open>Join\<close> ends.  Without new data every step of its goroutines brings them closer to a
  stop; they stop only when both have ended, with both connections closed and the byte counts
  returned, or when both wait for data from connections that are still open: the end of one
  connection always ends the whole join.\<close>

theorem Join_ends:
  assumes "join_step\<^sup>*\<^sup>* Join_start s"
  shows "(pipe_step f t d = Some d' \<longrightarrow> dir_size d' < dir_size d) \<and>
    (join_idle s \<longrightarrow>
      (pc (to_left s) = Ended \<and> pc (to_right s) = Ended \<and> left_closed s \<and> right_closed s \<and>
       Join_returns s = Some (length (out (to_right s)), length (out (to_left s)))) \<or>
      (pc (to_left s) = Copying \<and> pc (to_right s) = Copying \<and> \<not> left_closed s \<and> \<not> right_closed s \<and>
       \<not> ended (to_left s) \<and> \<not> ended (to_right s)))"
  using join_inv_reachable [OF assms] pipe_step_size [of f t d d']
  by (auto simp: join_idle_def pipe_step_None join_inv_def dir_inv_def Join_returns_def simp del: pipe_step.simps)

lemma Join_ends_witness: "\<not> join_idle demo_join"
  using Join_ends [OF demo_join_reachable] by (auto simp: demo_join_def Join_start_def new_dir_def)

text \<open>However many goroutines close a \<open>ReadWriteCloser\<close>, and however their calls interleave,
  the original is closed at most once, and exactly once when there is an original and the
  caller that came first has finished.\<close>

theorem ReadWriteCloser_closes_once:
  assumes "rwc_run (j # is) (\<lambda>_. NotCalled) (WrapReadWriteCloser ori) = (calls, w)"
  shows "rw_ori_closes w = (if ori \<and> j \<in> set is then 1 else 0) \<and> rw_closed w"
proof -
  let ?w = "\<lparr>rw_closed = True, rw_ori = ori, rw_ori_closes = 0\<rparr>"
  have r: "rwc_run is ((\<lambda>_. NotCalled)(j := Passed)) ?w = (calls, w)"
    using assms by (simp add: WrapReadWriteCloser_def rwc_test_def)
  with r rwc_run_once [of ?w "(\<lambda>_. NotCalled)(j := Passed)" j "is" calls w] rwc_run_keeps_closed [OF _ r]
  show ?thesis by auto
qed

lemma ReadWriteCloser_closes_once_witness:
  "rw_ori_closes (snd (rwc_run [1, 2, 2, 1, 3] (\<lambda>_. NotCalled) (WrapReadWriteCloser True))) = 1"
proof -
  obtain calls w where r: "rwc_run [1, 2, 2, 1, 3] (\<lambda>_. NotCalled) (WrapReadWriteCloser True) = (calls, w)"
    by (metis surj_pair)
  from ReadWriteCloser_closes_once [OF r] r show ?thesis by simp
qed

end
