(* ===== verification/Tunnel.thy ===== *)
theory Tunnel
  imports Pipe Machine
begin

text \<open>
  A tunnel: the two \<open>Join\<close>s of one user's connection.  The server joins the pipe (left) with
  the user (right), \<open>server/proxy.go\<close>; the client joins its end of the pipe (left) with the
  target (right), \<open>client/agent.go\<close>.  The pipe, a \<open>yamux\<close> stream, carries bytes in order; an
  end that is closed is seen by the other after all bytes, unless the session breaks.
\<close>

record tunnel =
  sj :: joined
  cj :: joined
  broken :: bool

definition Tunnel_start :: tunnel where
  "Tunnel_start = \<lparr>sj = Join_start, cj = Join_start, broken = False\<rparr>"

text \<open>What a step of a \<open>Join\<close> leaves alone when nothing comes in on the left.\<close>

definition left_silent :: "joined \<Rightarrow> joined \<Rightarrow> bool" where
  "left_silent s s' \<longleftrightarrow> arrived (to_right s') = arrived (to_right s) \<and> ended (to_right s') = ended (to_right s)"

text \<open>Bytes cross the pipe, and its end, from the join \<open>s\<close> to the join \<open>s'\<close>.\<close>

definition cross :: "joined \<Rightarrow> gostring \<Rightarrow> joined \<Rightarrow> joined option" where
  "cross s c s' =
     (if prefix (arrived (to_right s') @ c) (out (to_left s)) \<and> \<not> ended (to_right s')
      then Some (s'\<lparr>to_right := (to_right s')\<lparr>inq := inq (to_right s') @ [c], arrived := arrived (to_right s') @ c\<rparr>\<rparr>)
      else None)"

definition cross_end :: "bool \<Rightarrow> joined \<Rightarrow> joined \<Rightarrow> joined option" where
  "cross_end broke s s' =
     (if broke \<or> left_closed s \<and> arrived (to_right s') = out (to_left s)
      then Some (s'\<lparr>to_right := (to_right s')\<lparr>ended := True\<rparr>\<rparr>)
      else None)"

inductive tunnel_step :: "tunnel \<Rightarrow> tunnel \<Rightarrow> bool" where
  server: "join_step (sj t) s \<Longrightarrow> left_silent (sj t) s \<Longrightarrow> tunnel_step t (t\<lparr>sj := s\<rparr>)"
| client: "join_step (cj t) s \<Longrightarrow> left_silent (cj t) s \<Longrightarrow> tunnel_step t (t\<lparr>cj := s\<rparr>)"
| up: "cross (sj t) c (cj t) = Some s \<Longrightarrow> tunnel_step t (t\<lparr>cj := s\<rparr>)"
| down: "cross (cj t) c (sj t) = Some s \<Longrightarrow> tunnel_step t (t\<lparr>sj := s\<rparr>)"
| up_end: "cross_end (broken t) (sj t) (cj t) = Some s \<Longrightarrow> tunnel_step t (t\<lparr>cj := s\<rparr>)"
| down_end: "cross_end (broken t) (cj t) (sj t) = Some s \<Longrightarrow> tunnel_step t (t\<lparr>sj := s\<rparr>)"
| breaks: "tunnel_step t (t\<lparr>broken := True\<rparr>)"

inductive_cases tunnel_stepE: "tunnel_step t u"

section \<open>Both joins are joins\<close>

lemma cross_join_step: "cross s c s' = Some u \<Longrightarrow> join_step s' u"
  by (auto simp: cross_def intro: from_left split: if_splits)

lemma cross_end_join_step: "cross_end b s s' = Some u \<Longrightarrow> join_step s' u"
  by (auto simp: cross_end_def intro: end_left split: if_splits)

lemma tunnel_joins:
  "tunnel_step t u \<Longrightarrow> join_inv (sj t) \<Longrightarrow> join_inv (cj t) \<Longrightarrow> join_inv (sj u) \<and> join_inv (cj u)"
  by (induction rule: tunnel_step.induct)
    (auto intro: join_inv_step cross_join_step cross_end_join_step)

text \<open>What was written never shrinks.\<close>

lemma pipe_step_out: "pipe_step f t d = Some d' \<Longrightarrow> prefix (out d) (out d') \<and> arrived d' = arrived d \<and> ended d' = ended d"
  by (cases "pc d") (auto split: if_splits list.splits)

lemma join_step_out:
  "join_step s s' \<Longrightarrow> prefix (out (to_left s)) (out (to_left s')) \<and> prefix (out (to_right s)) (out (to_right s'))"
  by (induction rule: join_step.induct) (auto dest: pipe_step_out simp del: pipe_step.simps)

text \<open>What has crossed the pipe is a beginning of what was written to it.\<close>

definition crossed :: "tunnel \<Rightarrow> bool" where
  "crossed t \<longleftrightarrow> prefix (arrived (to_right (cj t))) (out (to_left (sj t))) \<and>
     prefix (arrived (to_right (sj t))) (out (to_left (cj t)))"

lemma crossed_step: "tunnel_step t u \<Longrightarrow> crossed t \<Longrightarrow> crossed u"
proof (induction rule: tunnel_step.induct)
  case (server t s)
  then show ?case using join_step_out [OF server(1)]
    by (auto simp: crossed_def left_silent_def intro: prefix_order.trans)
next
  case (client t s)
  then show ?case using join_step_out [OF client(1)]
    by (auto simp: crossed_def left_silent_def intro: prefix_order.trans)
qed (auto simp: crossed_def cross_def cross_end_def split: if_splits)

definition tunnel_inv :: "tunnel \<Rightarrow> bool" where
  "tunnel_inv t \<longleftrightarrow> join_inv (sj t) \<and> join_inv (cj t) \<and> crossed t"

lemma tunnel_inv_reachable: "tunnel_step\<^sup>*\<^sup>* Tunnel_start t \<Longrightarrow> tunnel_inv t"
proof (induction rule: rtranclp_induct)
  case base
  then show ?case by (simp add: tunnel_inv_def Tunnel_start_def join_inv_start crossed_def)
    (simp add: Join_start_def new_dir_def)
next
  case (step t u)
  then show ?case using tunnel_joins crossed_step by (auto simp: tunnel_inv_def)
qed

section \<open>What the user sent before closing\<close>

definition whole :: "dir \<Rightarrow> bool" where
  "whole d \<longleftrightarrow> ended d \<and> out d = arrived d"

text \<open>
  While the session holds and the target has not ended: a goroutine of the server stops only
  after all of the user's data was written to the pipe, and one of the client only after all
  of that was written to the target.
\<close>

definition server_part :: "joined \<Rightarrow> bool" where
  "server_part s \<longleftrightarrow>
     (left_closed s \<or> right_closed s \<or> pc (to_left s) \<noteq> Copying \<or> pc (to_right s) \<noteq> Copying \<longrightarrow> whole (to_left s))"

definition client_part :: "joined \<Rightarrow> bool" where
  "client_part s \<longleftrightarrow> (pc (to_right s) \<noteq> Copying \<longrightarrow> whole (to_right s)) \<and>
     (left_closed s \<or> right_closed s \<or> pc (to_left s) \<noteq> Copying \<longrightarrow> pc (to_right s) \<noteq> Copying)"

definition up_inv :: "tunnel \<Rightarrow> bool" where
  "up_inv t \<longleftrightarrow> server_part (sj t) \<and> client_part (cj t) \<and>
     (ended (to_right (sj t)) \<longrightarrow> pc (to_right (cj t)) \<noteq> Copying) \<and>
     (ended (to_right (cj t)) \<longrightarrow> left_closed (sj t) \<and> arrived (to_right (cj t)) = out (to_left (sj t)))"

text \<open>A direction that has been written whole writes nothing more.\<close>

lemma pipe_step_whole:
  "dir_inv f t d \<Longrightarrow> whole d \<Longrightarrow> pipe_step f t d = Some d' \<Longrightarrow> whole d' \<and> out d' = out d"
  by (cases "pc d") (auto simp: whole_def dir_inv_def split: if_splits list.splits)

text \<open>A direction stops by itself only when it is whole.\<close>

lemma pipe_step_stops:
  "dir_inv f t d \<Longrightarrow> pipe_step f t d = Some d' \<Longrightarrow> \<not> f \<Longrightarrow> \<not> t \<Longrightarrow> pc d = Copying \<Longrightarrow> pc d' \<noteq> Copying \<Longrightarrow>
   whole d' \<and> ended d"
  by (auto simp: whole_def dir_inv_def split: if_splits list.splits)

lemma pipe_step_closed_target:
  "pipe_step f True d = Some d' \<Longrightarrow> out d' = out d"
  by (cases "pc d") (auto split: if_splits list.splits)

lemma pipe_step_pc: "pipe_step f t d = Some d' \<Longrightarrow> pc d \<noteq> Copying \<Longrightarrow> pc d' \<noteq> Copying"
  by (cases "pc d") auto

lemma server_part_step:
  assumes "join_step s s'" "left_silent s s'" "join_inv s" "server_part s"
    "ended (to_right s) \<Longrightarrow> whole (to_left s)"
  shows "server_part s' \<and> (left_closed s \<longrightarrow> left_closed s' \<and> out (to_left s') = out (to_left s))"
  using assms(1)
proof cases
  case (copy_left d)
  have inv: "dir_inv (right_closed s) (left_closed s) (to_left s)" using assms(3) by (simp add: join_inv_def)
  have "whole d" if "whole (to_left s)" using pipe_step_whole [OF inv that copy_left(2)] by simp
  moreover have "whole d" if "pc d \<noteq> Copying" "\<not> whole (to_left s)"
    using pipe_step_stops [OF inv copy_left(2)] that assms(4) by (auto simp: server_part_def)
  moreover have "whole (to_left s)" if "pc (to_left s) \<noteq> Copying" using that assms(4) by (simp add: server_part_def)
  ultimately show ?thesis
    using copy_left assms(4) pipe_step_closed_target [of "right_closed s" "to_left s" d]
    by (auto simp: server_part_def simp del: pipe_step.simps)
next
  case (copy_right d)
  have inv: "dir_inv (left_closed s) (right_closed s) (to_right s)" using assms(3) by (simp add: join_inv_def)
  have "whole (to_left s)" if "pc d \<noteq> Copying"
  proof (cases "left_closed s \<or> right_closed s \<or> pc (to_right s) \<noteq> Copying")
    case True
    with assms(4) show ?thesis by (auto simp: server_part_def)
  next
    case False
    with pipe_step_stops [OF inv copy_right(2)] that have "ended (to_right s)" by simp
    with assms(5) show ?thesis .
  qed
  with copy_right assms(4) show ?thesis by (auto simp: server_part_def simp del: pipe_step.simps)
qed (use assms(4) in \<open>auto simp: server_part_def whole_def\<close>)

lemma client_part_step:
  assumes "join_step s s'" "left_silent s s'" "join_inv s" "client_part s" "\<not> ended (to_left s')"
  shows "client_part s' \<and> (pc (to_right s) \<noteq> Copying \<longrightarrow> pc (to_right s') \<noteq> Copying) \<and>
    (left_closed s \<longrightarrow> left_closed s')"
  using assms(1)
proof cases
  case (copy_left d)
  have inv: "dir_inv (right_closed s) (left_closed s) (to_left s)" using assms(3) by (simp add: join_inv_def)
  have "\<not> ended (to_left s)" using pipe_step_out [OF copy_left(2)] assms(5) copy_left(1) by simp
  then have "pc (to_right s) \<noteq> Copying" if "pc d \<noteq> Copying"
    using pipe_step_stops [OF inv copy_left(2)] that assms(4) by (auto simp: client_part_def)
  with copy_left assms(4) show ?thesis by (auto simp: client_part_def simp del: pipe_step.simps)
next
  case (copy_right d)
  have inv: "dir_inv (left_closed s) (right_closed s) (to_right s)" using assms(3) by (simp add: join_inv_def)
  have "whole d" if "pc d \<noteq> Copying"
  proof (cases "pc (to_right s) = Copying")
    case True
    with assms(4) have "\<not> left_closed s \<and> \<not> right_closed s" by (auto simp: client_part_def)
    with pipe_step_stops [OF inv copy_right(2)] that True show ?thesis by simp
  next
    case False
    with assms(4) have "whole (to_right s)" by (simp add: client_part_def)
    with pipe_step_whole [OF inv _ copy_right(2)] show ?thesis by simp
  qed
  with copy_right assms(4) pipe_step_pc [OF copy_right(2)] show ?thesis
    by (auto simp: client_part_def simp del: pipe_step.simps)
qed (use assms(2,4,5) in \<open>auto simp: client_part_def whole_def left_silent_def\<close>)

lemma up_inv_step:
  assumes "tunnel_step t u" "tunnel_inv t" "up_inv t" "\<not> broken u" "\<not> ended (to_left (cj u))"
  shows "up_inv u"
  using assms(1)
proof cases
  case (server s)
  have "whole (to_left (sj t))" if "ended (to_right (sj t))"
    using that assms(3) by (auto simp: up_inv_def client_part_def server_part_def whole_def)
  with server_part_step [OF server(2,3)] assms(2,3)
  have "server_part s \<and> (left_closed (sj t) \<longrightarrow> left_closed s \<and> out (to_left s) = out (to_left (sj t)))"
    by (simp add: up_inv_def tunnel_inv_def)
  with server assms(3) show ?thesis by (auto simp: up_inv_def left_silent_def)
next
  case (client s)
  with client_part_step [OF client(2,3)] assms(2,3,5)
  have "client_part s \<and> (pc (to_right (cj t)) \<noteq> Copying \<longrightarrow> pc (to_right s) \<noteq> Copying)"
    by (simp add: up_inv_def tunnel_inv_def)
  with client assms(3) show ?thesis by (auto simp: up_inv_def left_silent_def)
next
  case (up c s)
  with assms(3) show ?thesis
    by (auto simp: up_inv_def cross_def client_part_def whole_def split: if_splits)
next
  case (down c s)
  with assms(3) show ?thesis by (auto simp: up_inv_def cross_def server_part_def split: if_splits)
next
  case (up_end s)
  with assms(3,4) show ?thesis
    by (auto simp: up_inv_def cross_end_def client_part_def whole_def split: if_splits)
next
  case (down_end s)
  with assms(3,4) show ?thesis
    by (auto simp: up_inv_def cross_end_def server_part_def client_part_def split: if_splits)
next
  case breaks
  with assms(4) show ?thesis by simp
qed

lemma join_step_ended: "join_step s s' \<Longrightarrow> ended (to_left s) \<Longrightarrow> ended (to_left s')"
  by (induction rule: join_step.induct) (auto dest: pipe_step_out simp del: pipe_step.simps)

lemma tunnel_step_mono:
  assumes "tunnel_step t u"
  shows "broken t \<Longrightarrow> broken u" "ended (to_left (cj t)) \<Longrightarrow> ended (to_left (cj u))"
proof -
  have "cj u = cj t \<or> join_step (cj t) (cj u)"
    using assms by cases (auto intro: cross_join_step cross_end_join_step)
  then show "ended (to_left (cj t)) \<Longrightarrow> ended (to_left (cj u))" using join_step_ended by metis
  show "broken t \<Longrightarrow> broken u" using assms by cases simp_all
qed

lemma up_inv_reachable:
  "tunnel_step\<^sup>*\<^sup>* Tunnel_start t \<Longrightarrow> \<not> broken t \<Longrightarrow> \<not> ended (to_left (cj t)) \<Longrightarrow> up_inv t"
proof (induction rule: rtranclp_induct)
  case base
  then show ?case by (simp add: Tunnel_start_def up_inv_def server_part_def client_part_def)
    (simp add: Join_start_def new_dir_def)
next
  case (step t u)
  then show ?case
    using tunnel_step_mono [OF step(2)] up_inv_step [OF step(2)] tunnel_inv_reachable [OF step(1)] by blast
qed

section \<open>Runs\<close>

text \<open>Steps as a function of what happens, for concrete runs.\<close>

datatype tunnel_act =
    UserSends gostring | UserEnds | ServerUp | ServerDown
  | TargetSends gostring | ClientUp | ClientDown | CrossUp gostring | CrossUpEnd

fun join_up :: "joined \<Rightarrow> joined option" where
  "join_up s = map_option (\<lambda>d. s\<lparr>to_left := d, right_closed := (right_closed s \<or> pc (to_left s) = CloseFrom),
     left_closed := (left_closed s \<or> pc (to_left s) = CloseTo)\<rparr>)
     (pipe_step (right_closed s) (left_closed s) (to_left s))"

fun join_down :: "joined \<Rightarrow> joined option" where
  "join_down s = map_option (\<lambda>d. s\<lparr>to_right := d, left_closed := (left_closed s \<or> pc (to_right s) = CloseFrom),
     right_closed := (right_closed s \<or> pc (to_right s) = CloseTo)\<rparr>)
     (pipe_step (left_closed s) (right_closed s) (to_right s))"

definition join_arrive :: "gostring \<Rightarrow> joined \<Rightarrow> joined option" where
  "join_arrive c s =
     (if ended (to_left s) then None
      else Some (s\<lparr>to_left := (to_left s)\<lparr>inq := inq (to_left s) @ [c], arrived := arrived (to_left s) @ c\<rparr>\<rparr>))"

fun tunnel_do :: "tunnel_act \<Rightarrow> tunnel \<Rightarrow> tunnel option" where
  "tunnel_do (UserSends c) t = map_option (\<lambda>s. t\<lparr>sj := s\<rparr>) (join_arrive c (sj t))"
| "tunnel_do UserEnds t = Some (t\<lparr>sj := (sj t)\<lparr>to_left := (to_left (sj t))\<lparr>ended := True\<rparr>\<rparr>\<rparr>)"
| "tunnel_do ServerUp t = map_option (\<lambda>s. t\<lparr>sj := s\<rparr>) (join_up (sj t))"
| "tunnel_do ServerDown t = map_option (\<lambda>s. t\<lparr>sj := s\<rparr>) (join_down (sj t))"
| "tunnel_do (TargetSends c) t = map_option (\<lambda>s. t\<lparr>cj := s\<rparr>) (join_arrive c (cj t))"
| "tunnel_do ClientUp t = map_option (\<lambda>s. t\<lparr>cj := s\<rparr>) (join_down (cj t))"
| "tunnel_do ClientDown t = map_option (\<lambda>s. t\<lparr>cj := s\<rparr>) (join_up (cj t))"
| "tunnel_do (CrossUp c) t = map_option (\<lambda>s. t\<lparr>cj := s\<rparr>) (cross (sj t) c (cj t))"
| "tunnel_do CrossUpEnd t = map_option (\<lambda>s. t\<lparr>cj := s\<rparr>) (cross_end (broken t) (sj t) (cj t))"

lemma join_steps_silent:
  "join_up s = Some s' \<Longrightarrow> join_step s s' \<and> left_silent s s'"
  "join_down s = Some s' \<Longrightarrow> join_step s s' \<and> left_silent s s'"
  "join_arrive c s = Some s' \<Longrightarrow> join_step s s' \<and> left_silent s s'"
  using pipe_step_out [of "left_closed s" "right_closed s" "to_right s"]
  by (auto simp: left_silent_def join_arrive_def intro: copy_left copy_right from_right
      simp del: pipe_step.simps split: if_splits)

lemma tunnel_do_step: "tunnel_do a t = Some u \<Longrightarrow> tunnel_step t u"
proof (cases a)
  case UserEnds
  assume "tunnel_do a t = Some u"
  with UserEnds server [OF end_right [of "sj t"]] show ?thesis by (auto simp: left_silent_def)
qed (auto dest: join_steps_silent intro: server client up up_end simp del: join_up.simps join_down.simps)

lemma tunnel_run: "exec tunnel_do as t = Some u \<Longrightarrow> tunnel_step\<^sup>*\<^sup>* t u"
  by (induction as arbitrary: t)
    (auto split: option.splits intro: converse_rtranclp_into_rtranclp tunnel_do_step simp del: tunnel_do.simps)

text \<open>The user sends "q" and closes; "q" reaches the target.\<close>

definition upload :: "tunnel_act list" where
  "upload = [UserSends ''q'', UserEnds] @ replicate 5 ServerUp @ [CrossUp ''q'', CrossUpEnd, ClientUp, ClientUp]"

definition after_upload :: tunnel where
  "after_upload =
     \<lparr>sj = \<lparr>to_left = \<lparr>inq = [], ended = True, arrived = ''q'', out = ''q'', written = 1, pc = Ended\<rparr>, to_right = new_dir,
        left_closed = True, right_closed = True\<rparr>,
      cj = \<lparr>to_left = new_dir, to_right = \<lparr>inq = [], ended = True, arrived = ''q'', out = ''q'', written = 1, pc = WaitDone\<rparr>,
        left_closed = False, right_closed = False\<rparr>,
      broken = False\<rparr>"

lemma upload_run: "exec tunnel_do upload Tunnel_start = Some after_upload"
  by (simp add: upload_def Tunnel_start_def Join_start_def new_dir_def join_arrive_def cross_def cross_end_def
      after_upload_def numeral_eq_Suc)

text \<open>The target answers "r" and both sides run to their end.\<close>

definition answer :: "tunnel_act list" where
  "answer = [TargetSends ''r''] @ replicate 3 ClientUp @ replicate 4 ClientDown @ replicate 4 ServerDown"

lemma answer_run:
  "\<exists>t. exec tunnel_do answer after_upload = Some t \<and> \<not> broken t \<and> arrived (to_left (cj t)) = ''r'' \<and> out (to_right (sj t)) = [] \<and>
     out (to_right (cj t)) = ''q'' \<and> list_all (\<lambda>d. pc d = Ended) [to_left (sj t), to_right (sj t), to_left (cj t), to_right (cj t)]"
  by (simp add: answer_def after_upload_def new_dir_def join_arrive_def numeral_eq_Suc)

lemma upload_reachable: "tunnel_step\<^sup>*\<^sup>* Tunnel_start after_upload"
  using upload_run by (rule tunnel_run)

section \<open>Properties\<close>

text \<open>C3: A tunnel is transparent: whatever the interleaving of the four copying goroutines, of the
  pipe and of both ends, and even if the session breaks, the target is sent a beginning of
  what the user has sent, and the user a beginning of what the target has sent, in order and
  unchanged.\<close>

theorem tunnel_transparent:
  assumes "tunnel_step\<^sup>*\<^sup>* Tunnel_start t"
  shows "prefix (out (to_right (cj t))) (arrived (to_left (sj t))) \<and>
    prefix (out (to_right (sj t))) (arrived (to_left (cj t)))"
proof -
  have "prefix (out (to_right (cj t))) (arrived (to_right (cj t)))" "prefix (out (to_left (sj t))) (arrived (to_left (sj t)))"
    "prefix (out (to_right (sj t))) (arrived (to_right (sj t)))" "prefix (out (to_left (cj t))) (arrived (to_left (cj t)))"
    "crossed t"
    using tunnel_inv_reachable [OF assms] by (simp_all add: tunnel_inv_def join_inv_def dir_inv_def)
  then show ?thesis unfolding crossed_def by (meson prefix_order.trans)
qed

lemma tunnel_transparent_witness:
  "tunnel_step\<^sup>*\<^sup>* Tunnel_start after_upload \<and> prefix (out (to_right (cj after_upload))) ''q''"
  using upload_reachable tunnel_transparent [OF upload_reachable] by (simp add: after_upload_def)

text \<open>C19: Nothing the user sends before closing is lost on the way to the target: while the session
  holds and the target has not closed, the client stops writing to the target only after it
  has written all that the user has sent, and the user has closed.\<close>

theorem tunnel_upload_complete:
  assumes "tunnel_step\<^sup>*\<^sup>* Tunnel_start t" "\<not> broken t" "\<not> ended (to_left (cj t))" "pc (to_right (cj t)) \<noteq> Copying"
  shows "ended (to_left (sj t)) \<and> out (to_right (cj t)) = arrived (to_left (sj t))"
  using up_inv_reachable [OF assms(1-3)] assms(4)
  by (auto simp: up_inv_def client_part_def server_part_def whole_def)

lemma tunnel_upload_complete_witness: "out (to_right (cj after_upload)) = arrived (to_left (sj after_upload))"
  using tunnel_upload_complete [OF upload_reachable] by (simp add: after_upload_def new_dir_def)

text \<open>C20: The way back is not complete.  There is a run in which the user closes only its writing
  side, as after a request, the server's join closes the user's connection at once, and the answer
  of the target is lost although nothing failed: the request has reached the target, the target
  has answered, the user has been given nothing and all four goroutines have ended.\<close>

theorem half_close_loses_answer:
  "\<exists>t. tunnel_step\<^sup>*\<^sup>* Tunnel_start t \<and> \<not> broken t \<and> out (to_right (cj t)) = ''q'' \<and> arrived (to_left (cj t)) = ''r'' \<and>
     out (to_right (sj t)) = [] \<and>
     list_all (\<lambda>d. pc d = Ended) [to_left (sj t), to_right (sj t), to_left (cj t), to_right (cj t)]"
  using answer_run tunnel_run upload_reachable by (metis (no_types, lifting) rtranclp_trans)

end
