(* ===== verification/Pools.thy ===== *)
theory Pools
  imports Machine Pipe ServerProxy "HOL-Library.Multiset" "HOL-Library.Sublist"
begin

text \<open>
  \<open>util/pool/pool.go\<close>, \<open>util/pool/snappy.go\<close> and the compressing wrappers of
  \<open>util/pipe/pipe.go\<close>.  A \<open>sync.Pool\<close> hands out any of the items that were put back, or
  none, and may drop items; objects behind pointers are numbers, in the order in which they
  were made, with a heap of their contents.  The contract of a pool is a locale; the copying
  goroutines of \<open>Join\<close>, which share the pool of buffers, rest on it.
\<close>

section \<open>The library's pool\<close>

text \<open>\<open>choice\<close>: which idle item \<open>Get\<close> returns, if any; \<open>keep\<close>: whether \<open>Put\<close> keeps it.\<close>

definition pool_Get :: "nat option \<Rightarrow> nat list \<Rightarrow> nat option \<times> nat list" where
  "pool_Get choice p =
     (case choice of
        None \<Rightarrow> (None, p)
      | Some i \<Rightarrow> if i < length p then (Some (p ! i), take i p @ drop (Suc i) p) else (None, p))"

definition pool_Put :: "bool \<Rightarrow> nat \<Rightarrow> nat list \<Rightarrow> nat list" where
  "pool_Put keep x p = (if keep then x # p else p)"

text \<open>
  What a client relies on: an item it gets was idle and no longer is, or was just made; an
  item it puts back is idle at most once more.
\<close>

locale item_pool =
  fixes get :: "nat option \<Rightarrow> 's \<Rightarrow> nat \<times> 's"
    and put :: "bool \<Rightarrow> nat \<Rightarrow> 's \<Rightarrow> 's"
    and idle :: "'s \<Rightarrow> nat multiset"
    and made :: "'s \<Rightarrow> nat"
  assumes get_item: "get ch s = (x, s') \<Longrightarrow>
      x \<in># idle s \<and> idle s' = idle s - {#x#} \<and> made s' = made s \<or>
      x = made s \<and> idle s' = idle s \<and> made s' = Suc (made s)"
    and put_item: "idle (put keep x s) \<subseteq># add_mset x (idle s)" "made (put keep x s) = made s"

text \<open>No item is idle twice, held by two users, or both idle and held.\<close>

definition exclusive :: "nat multiset \<Rightarrow> nat \<Rightarrow> ('u \<rightharpoonup> nat) \<Rightarrow> bool" where
  "exclusive is n held \<longleftrightarrow>
     (\<forall>x. count is x \<le> 1) \<and> (\<forall>x \<in># is. x < n) \<and>
     (\<forall>i x. held i = Some x \<longrightarrow> x \<notin># is \<and> x < n) \<and>
     (\<forall>i j x. held i = Some x \<longrightarrow> held j = Some x \<longrightarrow> i = j)"

lemma exclusive_empty: "exclusive {#} n Map.empty"
  by (simp add: exclusive_def)

context item_pool
begin

lemma exclusive_get:
  assumes "exclusive (idle s) (made s) held" "get ch s = (x, s')" "held i = None"
  shows "exclusive (idle s') (made s') (held(i \<mapsto> x))"
  using get_item [OF assms(2)]
proof (elim disjE conjE)
  assume x: "x \<in># idle s" "idle s' = idle s - {#x#}" "made s' = made s"
  have "count (idle s) x \<le> 1" using assms(1) by (simp add: exclusive_def)
  then have "x \<notin># idle s'" using x(2) by (simp add: not_in_iff)
  moreover have "count (idle s') y \<le> count (idle s) y" for y using x(2) by simp
  ultimately show ?thesis
    using assms(1,3) x by (auto simp: exclusive_def dest: in_diffD intro: order_trans)
next
  assume x: "x = made s" "idle s' = idle s" "made s' = Suc (made s)"
  with assms(1,3) show ?thesis by (fastforce simp: exclusive_def less_Suc_eq)
qed

lemma exclusive_put:
  assumes "exclusive (idle s) (made s) held" "held i = Some x"
  shows "exclusive (idle (put keep x s)) (made (put keep x s)) (held(i := None))"
proof -
  let ?is = "idle (put keep x s)"
  have sub: "count ?is y \<le> count (add_mset x (idle s)) y" for y
    using put_item(1) by (rule mset_subset_eq_count)
  have mem: "y = x \<or> y \<in># idle s" if "y \<in># ?is" for y
    using mset_subset_eqD [OF put_item(1) that] by simp
  have "count (idle s) x = 0" using assms by (simp add: exclusive_def not_in_iff)
  then have "count ?is y \<le> 1" for y
    using sub [of y] assms(1) by (cases "y = x") (auto simp: exclusive_def intro: order_trans)
  with assms show ?thesis by (auto simp: exclusive_def put_item(2) dest!: mem)
qed

end

section \<open>Buffers\<close>

definition bufSize :: nat where "bufSize = 16 * 1024"

record buf_state =
  bufPool :: "nat list"
  buf_made :: nat
  buf_mem :: "nat \<Rightarrow> gostring"

definition no_bufs :: buf_state where
  "no_bufs = \<lparr>bufPool = [], buf_made = 0, buf_mem = (\<lambda>_. [])\<rparr>"

definition GetBuf :: "nat option \<Rightarrow> buf_state \<Rightarrow> nat \<times> buf_state" where
  "GetBuf choice st =
     (case pool_Get choice (bufPool st) of
        (Some b, p) \<Rightarrow> (b, st\<lparr>bufPool := p\<rparr>)
      | (None, p) \<Rightarrow> (buf_made st, st\<lparr>bufPool := p, buf_made := Suc (buf_made st),
                        buf_mem := (buf_mem st)(buf_made st := replicate bufSize (byte 0))\<rparr>))"

definition PutBuf :: "bool \<Rightarrow> nat \<Rightarrow> buf_state \<Rightarrow> buf_state" where
  "PutBuf keep b st = st\<lparr>bufPool := pool_Put keep b (bufPool st)\<rparr>"

lemma pool_Get_mset:
  assumes "pool_Get ch p = (Some x, p')"
  shows "x \<in> set p \<and> mset p' = mset p - {#x#}"
proof -
  obtain i where i: "i < length p" "x = p ! i" "p' = take i p @ drop (Suc i) p"
    using assms by (auto simp: pool_Get_def split: option.splits if_splits)
  have "mset p = mset (take i p @ p ! i # drop (Suc i) p)" using id_take_nth_drop [OF i(1)] by simp
  then have "mset p = add_mset x (mset p')" using i(2,3) by simp
  with i(1,2) show ?thesis by simp
qed

lemma pool_Get_None: "pool_Get ch p = (None, p') \<Longrightarrow> p' = p"
  by (auto simp: pool_Get_def split: option.splits if_splits)

interpretation buffers: item_pool GetBuf PutBuf "\<lambda>st. mset (bufPool st)" buf_made
proof unfold_locales
  show "x \<in># mset (bufPool s) \<and> mset (bufPool s') = mset (bufPool s) - {#x#} \<and> buf_made s' = buf_made s \<or>
      x = buf_made s \<and> mset (bufPool s') = mset (bufPool s) \<and> buf_made s' = Suc (buf_made s)"
    if "GetBuf ch s = (x, s')" for ch s x s'
    using that by (auto simp: GetBuf_def split: prod.splits option.splits dest: pool_Get_mset pool_Get_None)
qed (auto simp: PutBuf_def pool_Put_def)

section \<open>Copying through shared buffers\<close>

text \<open>
  The goroutines that run \<open>pipe\<close>, with the loop of \<open>io.CopyBuffer\<close> over the memory: a read
  puts a chunk at the start of the goroutine's buffer, a write sends that part of the buffer.
  \<open>was_read\<close> and \<open>was_sent\<close> are what a goroutine has read and written.  The deferred \<open>PutBuf\<close> runs
  once, after the last write.
\<close>

datatype copier_pc = CGet | CRead nat | CWrite nat nat | CPut nat | CEnd

record copiers =
  bufs :: buf_state
  cpc :: "nat \<Rightarrow> copier_pc"
  was_read :: "nat \<Rightarrow> gostring"
  was_sent :: "nat \<Rightarrow> gostring"

datatype copier_event = GetEv nat "nat option" | ReadEv nat gostring | EofEv nat | WriteEv nat bool | PutEv nat bool

definition copiers_start :: copiers where
  "copiers_start = \<lparr>bufs = no_bufs, cpc = (\<lambda>_. CGet), was_read = (\<lambda>_. []), was_sent = (\<lambda>_. [])\<rparr>"

fun copier_step :: "copier_event \<Rightarrow> copiers \<Rightarrow> copiers option" where
  "copier_step (GetEv i choice) s =
     (case cpc s i of
        CGet \<Rightarrow> (case GetBuf choice (bufs s) of (b, st) \<Rightarrow> Some (s\<lparr>bufs := st, cpc := (cpc s)(i := CRead b)\<rparr>))
      | _ \<Rightarrow> None)"
| "copier_step (ReadEv i chunk) s =
     (case cpc s i of
        CRead b \<Rightarrow>
          (if 0 < length chunk \<and> length chunk \<le> bufSize then
             Some (s\<lparr>bufs := (bufs s)\<lparr>buf_mem := (buf_mem (bufs s))(b := chunk @ drop (length chunk) (buf_mem (bufs s) b))\<rparr>,
                     cpc := (cpc s)(i := CWrite b (length chunk)), was_read := (was_read s)(i := was_read s i @ chunk)\<rparr>)
           else None)
      | _ \<Rightarrow> None)"
| "copier_step (EofEv i) s =
     (case cpc s i of CRead b \<Rightarrow> Some (s\<lparr>cpc := (cpc s)(i := CPut b)\<rparr>) | _ \<Rightarrow> None)"
| "copier_step (WriteEv i success) s =
     (case cpc s i of
        CWrite b n \<Rightarrow>
          (if success then Some (s\<lparr>cpc := (cpc s)(i := CRead b), was_sent := (was_sent s)(i := was_sent s i @ take n (buf_mem (bufs s) b))\<rparr>)
           else Some (s\<lparr>cpc := (cpc s)(i := CPut b)\<rparr>))
      | _ \<Rightarrow> None)"
| "copier_step (PutEv i keep) s =
     (case cpc s i of
        CPut b \<Rightarrow> Some (s\<lparr>bufs := PutBuf keep b (bufs s), cpc := (cpc s)(i := CEnd)\<rparr>)
      | _ \<Rightarrow> None)"

text \<open>The buffer a goroutine holds.\<close>

fun holds :: "copier_pc \<Rightarrow> nat option" where
  "holds CGet = None"
| "holds (CRead b) = Some b"
| "holds (CWrite b n) = Some b"
| "holds (CPut b) = Some b"
| "holds CEnd = None"

text \<open>
  Every buffer has its length, and what a goroutine has read but not written is at the start
  of the buffer it holds; after a failed write it may be lost.
\<close>

definition pending :: "copiers \<Rightarrow> nat \<Rightarrow> bool" where
  "pending s i \<longleftrightarrow>
     (case cpc s i of
        CWrite b n \<Rightarrow> was_read s i = was_sent s i @ take n (buf_mem (bufs s) b)
      | CPut b \<Rightarrow> prefix (was_sent s i) (was_read s i)
      | CEnd \<Rightarrow> prefix (was_sent s i) (was_read s i)
      | _ \<Rightarrow> was_read s i = was_sent s i)"

definition copiers_inv :: "copiers \<Rightarrow> bool" where
  "copiers_inv s \<longleftrightarrow>
     exclusive (mset (bufPool (bufs s))) (buf_made (bufs s)) (\<lambda>i. holds (cpc s i)) \<and>
     (\<forall>b < buf_made (bufs s). length (buf_mem (bufs s) b) = bufSize) \<and> (\<forall>i. pending s i)"

lemma held_update: "(\<lambda>j. holds ((f(i := p)) j)) = (\<lambda>j. holds (f j))(i := holds p)"
  by auto

lemma pending_same:
  "pending s i \<Longrightarrow> cpc t i = cpc s i \<Longrightarrow> was_read t i = was_read s i \<Longrightarrow> was_sent t i = was_sent s i \<Longrightarrow>
   (\<And>b n. cpc s i = CWrite b n \<Longrightarrow> buf_mem (bufs t) b = buf_mem (bufs s) b) \<Longrightarrow> pending t i"
  by (auto simp: pending_def split: copier_pc.splits)

text \<open>Moving one goroutine on without touching the pool.\<close>

lemma copiers_inv_move:
  assumes "copiers_inv s" "holds p = holds (cpc s i)" "cpc t = (cpc s)(i := p)" "bufs t = bufs s"
    "\<And>j. j \<noteq> i \<Longrightarrow> was_read t j = was_read s j \<and> was_sent t j = was_sent s j" "pending t i"
  shows "copiers_inv t"
proof -
  have "pending t j" for j
    using assms by (cases "j = i") (auto simp: copiers_inv_def intro: pending_same [of s])
  moreover have "(\<lambda>j. holds (cpc t j)) = (\<lambda>j. holds (cpc s j))"
    unfolding assms(3) held_update using assms(2) by auto
  ultimately show ?thesis using assms(1,4) by (simp add: copiers_inv_def)
qed

lemma GetBuf_mem:
  assumes "GetBuf ch st = (b, st')"
  shows "c < buf_made st \<Longrightarrow> buf_mem st' c = buf_mem st c"
    "\<forall>c < buf_made st. length (buf_mem st c) = bufSize \<Longrightarrow> \<forall>c < buf_made st'. length (buf_mem st' c) = bufSize"
  using assms by (auto simp: GetBuf_def less_Suc_eq split: prod.splits option.splits)

lemma copiers_inv_get:
  assumes "copiers_inv s" "cpc s i = CGet" "GetBuf ch (bufs s) = (b, st)"
  shows "copiers_inv (s\<lparr>bufs := st, cpc := (cpc s)(i := CRead b)\<rparr>)"
proof -
  let ?t = "s\<lparr>bufs := st, cpc := (cpc s)(i := CRead b)\<rparr>"
  have ex: "exclusive (mset (bufPool (bufs s))) (buf_made (bufs s)) (\<lambda>i. holds (cpc s i))"
    using assms(1) by (simp add: copiers_inv_def)
  have "exclusive (mset (bufPool st)) (buf_made st) ((\<lambda>j. holds (cpc s j))(i \<mapsto> b))"
    using buffers.exclusive_get [OF ex assms(3)] assms(2) by simp
  moreover have "c < buf_made (bufs s)" if "cpc s j = CWrite c n" for j c n
  proof -
    have "holds (cpc s j) = Some c" using that by simp
    with ex show ?thesis unfolding exclusive_def by blast
  qed
  then have "pending ?t j" for j
    using assms GetBuf_mem(1) [OF assms(3)]
    by (cases "j = i") (auto simp: copiers_inv_def pending_def split: copier_pc.splits)
  ultimately show ?thesis
    using assms(1) GetBuf_mem(2) [OF assms(3)] held_update [of "cpc s" i "CRead b"] by (simp add: copiers_inv_def)
qed

lemma copiers_inv_read:
  assumes "copiers_inv s" "cpc s i = CRead b" "length chunk \<le> bufSize"
  shows "copiers_inv (s\<lparr>bufs := (bufs s)\<lparr>buf_mem := (buf_mem (bufs s))(b := chunk @ drop (length chunk) (buf_mem (bufs s) b))\<rparr>,
    cpc := (cpc s)(i := CWrite b (length chunk)), was_read := (was_read s)(i := was_read s i @ chunk)\<rparr>)"
    (is "copiers_inv ?t")
proof -
  have hi: "holds (cpc s i) = Some b" using assms(2) by simp
  have ex: "exclusive (mset (bufPool (bufs s))) (buf_made (bufs s)) (\<lambda>i. holds (cpc s i))"
    using assms(1) by (simp add: copiers_inv_def)
  then have other: "c \<noteq> b" if "cpc s j = CWrite c n" "j \<noteq> i" for j c n
    using that hi unfolding exclusive_def by (metis holds.simps(3))
  have "pending ?t j" for j
  proof (cases "j = i")
    case True
    have "was_read s i = was_sent s i" using assms(1,2) by (auto simp: copiers_inv_def pending_def dest: spec [of _ i])
    with True show ?thesis by (simp add: pending_def)
  next
    case False
    have "pending s j" using assms(1) by (simp add: copiers_inv_def)
    then show ?thesis by (rule pending_same) (use False other in simp_all)
  qed
  moreover have "(\<lambda>j. holds (((cpc s)(i := CWrite b (length chunk))) j)) = (\<lambda>j. holds (cpc s j))"
    unfolding held_update using hi by auto
  ultimately show ?thesis using assms(1,3) by (simp add: copiers_inv_def)
qed

lemma copiers_inv_put:
  assumes "copiers_inv s" "cpc s i = CPut b"
  shows "copiers_inv (s\<lparr>bufs := PutBuf keep b (bufs s), cpc := (cpc s)(i := CEnd)\<rparr>)" (is "copiers_inv ?t")
proof -
  have "exclusive (mset (bufPool (bufs s))) (buf_made (bufs s)) (\<lambda>i. holds (cpc s i))"
    using assms(1) by (simp add: copiers_inv_def)
  from buffers.exclusive_put [OF this, of i b keep] assms(2)
  have "exclusive (mset (bufPool (bufs ?t))) (buf_made (bufs ?t)) (\<lambda>j. holds (cpc ?t j))"
    using held_update [of "cpc s" i CEnd] by simp
  moreover have "pending ?t j" for j
    using assms by (cases "j = i") (auto simp: copiers_inv_def pending_def PutBuf_def split: copier_pc.splits)
  ultimately show ?thesis using assms(1) by (simp add: copiers_inv_def PutBuf_def)
qed

lemma copiers_inv_step:
  assumes "copiers_inv s" "copier_step e s = Some t"
  shows "copiers_inv t"
proof -
  have pend: "pending s i" for i using assms(1) by (simp add: copiers_inv_def)
  show ?thesis
  proof (cases e)
    case (GetEv i ch)
    with assms show ?thesis by (auto intro: copiers_inv_get split: copier_pc.splits prod.splits)
  next
    case (ReadEv i chunk)
    with assms show ?thesis by (auto intro: copiers_inv_read split: copier_pc.splits if_splits)
  next
    case (EofEv i)
    then obtain b where b: "cpc s i = CRead b" "t = s\<lparr>cpc := (cpc s)(i := CPut b)\<rparr>"
      using assms(2) by (auto split: copier_pc.splits)
    have "was_read s i = was_sent s i" using pend [of i] b(1) by (simp add: pending_def)
    then show ?thesis using b by (intro copiers_inv_move [OF assms(1), of "CPut b" i]) (simp_all add: pending_def)
  next
    case (WriteEv i success)
    then obtain b n where b: "cpc s i = CWrite b n"
      "t = (if success then s\<lparr>cpc := (cpc s)(i := CRead b), was_sent := (was_sent s)(i := was_sent s i @ take n (buf_mem (bufs s) b))\<rparr>
            else s\<lparr>cpc := (cpc s)(i := CPut b)\<rparr>)"
      using assms(2) by (cases success) (auto split: copier_pc.splits)
    have g: "was_read s i = was_sent s i @ take n (buf_mem (bufs s) b)" using pend [of i] b(1) by (simp add: pending_def)
    show ?thesis
    proof (cases success)
      case True
      with b g show ?thesis by (intro copiers_inv_move [OF assms(1), of "CRead b" i]) (simp_all add: pending_def)
    next
      case False
      with b g show ?thesis by (intro copiers_inv_move [OF assms(1), of "CPut b" i]) (simp_all add: pending_def)
    qed
  next
    case (PutEv i keep)
    with assms show ?thesis by (auto intro: copiers_inv_put split: copier_pc.splits)
  qed
qed

interpretation copying: invariant_system "\<lambda>s. s = copiers_start" copier_step copiers_inv
proof unfold_locales
  show "copiers_inv s" if "s = copiers_start" for s
    using that exclusive_empty [of 0] by (simp add: copiers_start_def copiers_inv_def no_bufs_def pending_def)
qed (rule copiers_inv_step)

section \<open>Snappy readers and writers\<close>

text \<open>
  The \<open>snappy\<close> package is a parameter: how a reader or writer is made and reset.  \<open>'x\<close> is
  the state of one.
\<close>

record 'x codec_pool =
  sp_idle :: "nat list"
  sp_made :: nat
  sp_heap :: "nat \<Rightarrow> 'x"

definition GetSnappy :: "(conn \<Rightarrow> 'x) \<Rightarrow> (conn \<Rightarrow> 'x \<Rightarrow> 'x) \<Rightarrow> conn \<Rightarrow> nat option \<Rightarrow> 'x codec_pool \<Rightarrow> nat \<times> 'x codec_pool" where
  "GetSnappy new reset c choice sp =
     (case pool_Get choice (sp_idle sp) of
        (None, p) \<Rightarrow>
          (sp_made sp, sp\<lparr>sp_idle := p, sp_made := Suc (sp_made sp), sp_heap := (sp_heap sp)(sp_made sp := new c)\<rparr>)
      | (Some x, p) \<Rightarrow> (x, sp\<lparr>sp_idle := p, sp_heap := (sp_heap sp)(x := reset c (sp_heap sp x))\<rparr>))"

definition PutSnappy :: "bool \<Rightarrow> nat \<Rightarrow> 'x codec_pool \<Rightarrow> 'x codec_pool" where
  "PutSnappy keep x sp = sp\<lparr>sp_idle := pool_Put keep x (sp_idle sp)\<rparr>"

interpretation codecs: item_pool "GetSnappy new reset c" PutSnappy "\<lambda>sp. mset (sp_idle sp)" sp_made for new reset c
proof unfold_locales
  show "x \<in># mset (sp_idle s) \<and> mset (sp_idle s') = mset (sp_idle s) - {#x#} \<and> sp_made s' = sp_made s \<or>
      x = sp_made s \<and> mset (sp_idle s') = mset (sp_idle s) \<and> sp_made s' = Suc (sp_made s)"
    if "GetSnappy new reset c ch s = (x, s')" for ch s x s'
    using that by (auto simp: GetSnappy_def split: prod.splits option.splits dest: pool_Get_mset pool_Get_None)
qed (auto simp: PutSnappy_def pool_Put_def)

text \<open>\<open>WithCompression\<close> makes both, \<open>WithCompressionFromPool\<close> takes them from the pools.\<close>

record ('r, 'w) snappy_lib =
  NewReader :: "conn \<Rightarrow> 'r"
  NewBufferedWriter :: "conn \<Rightarrow> 'w"
  Reader_Reset :: "conn \<Rightarrow> 'r \<Rightarrow> 'r"
  Writer_Reset :: "conn \<Rightarrow> 'w \<Rightarrow> 'w"
  Writer_Write :: "gostring \<Rightarrow> 'w \<Rightarrow> gostring \<times> 'w"

record ('r, 'w) codec_pools =
  snappyReaderPool :: "'r codec_pool"
  snappyWriterPool :: "'w codec_pool"

definition GetSnappyReader where
  "GetSnappyReader lib = GetSnappy (NewReader lib) (Reader_Reset lib)"

definition GetSnappyWriter where
  "GetSnappyWriter lib = GetSnappy (NewBufferedWriter lib) (Writer_Reset lib)"

definition WithCompression :: "('r, 'w) snappy_lib \<Rightarrow> conn \<Rightarrow> 'r \<times> 'w" where
  "WithCompression lib c = (NewReader lib c, NewBufferedWriter lib c)"

definition WithCompressionFromPool ::
  "('r, 'w) snappy_lib \<Rightarrow> conn \<Rightarrow> nat option \<Rightarrow> nat option \<Rightarrow> ('r, 'w) codec_pools \<Rightarrow>
    (nat \<times> nat) \<times> ('r, 'w) codec_pools" where
  "WithCompressionFromPool lib c rch wch ps =
     (case GetSnappyReader lib c rch (snappyReaderPool ps) of (sr, rp) \<Rightarrow>
      case GetSnappyWriter lib c wch (snappyWriterPool ps) of (sw, wp) \<Rightarrow>
        ((sr, sw), ps\<lparr>snappyReaderPool := rp, snappyWriterPool := wp\<rparr>))"

definition recycle :: "bool \<Rightarrow> bool \<Rightarrow> nat \<times> nat \<Rightarrow> ('r, 'w) codec_pools \<Rightarrow> ('r, 'w) codec_pools" where
  "recycle keep_r keep_w x ps =
     ps\<lparr>snappyReaderPool := PutSnappy keep_r (fst x) (snappyReaderPool ps),
        snappyWriterPool := PutSnappy keep_w (snd x) (snappyWriterPool ps)\<rparr>"

text \<open>The documented behaviour of \<open>Reset\<close>: it discards the state of the codec.\<close>

definition resets :: "('r, 'w) snappy_lib \<Rightarrow> bool" where
  "resets lib \<longleftrightarrow> (\<forall>c r. Reader_Reset lib c r = NewReader lib c) \<and> (\<forall>c w. Writer_Reset lib c w = NewBufferedWriter lib c)"

lemma GetSnappy_state:
  "GetSnappy new reset c ch sp = (x, sp') \<Longrightarrow> (\<And>r. reset c r = new c) \<Longrightarrow> sp_heap sp' x = new c"
  by (auto simp: GetSnappy_def split: prod.splits option.splits)

text \<open>
  \<open>Write\<close> and \<open>Close\<close> of a compressed connection: \<open>Close\<close> closes the wrapped connection and
  nothing flushes the writer.  The result: what reaches the connection.
\<close>

definition compressed_Write :: "('r, 'w) snappy_lib \<Rightarrow> gostring \<Rightarrow> 'r \<times> 'w \<Rightarrow> gostring \<times> 'r \<times> 'w" where
  "compressed_Write lib p = (\<lambda>(r, w). case Writer_Write lib p w of (emitted, w') \<Rightarrow> (emitted, r, w'))"

fun compressed_run :: "('r, 'w) snappy_lib \<Rightarrow> gostring list \<Rightarrow> 'r \<times> 'w \<Rightarrow> gostring" where
  "compressed_run lib [] rw = []"
| "compressed_run lib (p # ps) rw = (case compressed_Write lib p rw of (emitted, rw') \<Rightarrow> emitted @ compressed_run lib ps rw')"

text \<open>The documented buffering: \<open>waiting w\<close> bytes wait in the writer until it holds \<open>n\<close>.\<close>

definition buffers_up_to :: "nat \<Rightarrow> ('w \<Rightarrow> nat) \<Rightarrow> ('r, 'w) snappy_lib \<Rightarrow> bool" where
  "buffers_up_to n waiting lib \<longleftrightarrow>
     (\<forall>c. waiting (NewBufferedWriter lib c) = 0) \<and>
     (\<forall>p w. waiting w + length p \<le> n \<longrightarrow>
        fst (Writer_Write lib p w) = [] \<and> waiting (snd (Writer_Write lib p w)) = waiting w + length p)"

lemma compressed_run_waits:
  "buffers_up_to n waiting lib \<Longrightarrow> waiting (snd rw) + length (concat ps) \<le> n \<Longrightarrow> compressed_run lib ps rw = []"
proof (induction ps arbitrary: rw)
  case (Cons p ps)
  obtain r w where rw: "rw = (r, w)" by fastforce
  obtain e w' where w: "Writer_Write lib p w = (e, w')" by fastforce
  have "waiting w + length p \<le> n" using Cons.prems(2) rw by simp
  then have "e = []" "waiting w' = waiting w + length p"
    using Cons.prems(1) w unfolding buffers_up_to_def by (metis fst_conv, metis snd_conv)
  with Cons.IH [OF Cons.prems(1), of "(r, w')"] Cons.prems(2) rw w show ?case
    by (simp add: compressed_Write_def)
qed simp

text \<open>What a compressed connection is given up to the size of the buffer never leaves it.\<close>

theorem compressed_data_lost:
  assumes "buffers_up_to n waiting lib" "length (concat ps) \<le> n"
  shows "compressed_run lib ps (WithCompression lib c) = []"
  using compressed_run_waits [OF assms(1), of "WithCompression lib c" ps] assms
  by (simp add: WithCompression_def buffers_up_to_def)

text \<open>Recycling a connection twice puts its codecs into the pools twice, so that two later
  connections get the same reader.\<close>

theorem recycled_twice_shared:
  "\<exists>ps. let ps2 = recycle True True (0, 0) (recycle True True (0, 0) (snd (WithCompressionFromPool lib 1 None None ps)));
      (x, ps3) = WithCompressionFromPool lib 2 (Some 0) (Some 0) ps2
    in fst (WithCompressionFromPool lib 3 (Some 0) (Some 0) ps3) = x"
proof -
  let ?ps = "\<lparr>snappyReaderPool = \<lparr>sp_idle = [], sp_made = 0, sp_heap = (\<lambda>_. NewReader lib 0)\<rparr>,
    snappyWriterPool = \<lparr>sp_idle = [], sp_made = 0, sp_heap = (\<lambda>_. NewBufferedWriter lib 0)\<rparr>\<rparr>"
  show ?thesis
    by (rule exI [of _ ?ps])
      (simp add: recycle_def WithCompressionFromPool_def GetSnappyReader_def GetSnappyWriter_def GetSnappy_def
        PutSnappy_def pool_Get_def pool_Put_def)
qed

section \<open>Properties\<close>

text \<open>C21: The copying goroutines share one pool of buffers, and however they are interleaved and
  whatever the pool hands out, no two of them hold the same buffer, no buffer in use is in the
  pool, and what each has written is a prefix of what it has read itself, and all of it
  whenever it is about to read.\<close>

theorem buffers_never_mix:
  assumes "exec copier_step es copiers_start = Some t"
  shows "prefix (was_sent t i) (was_read t i) \<and> (cpc t i = CRead b \<longrightarrow> was_sent t i = was_read t i) \<and>
    (holds (cpc t i) = Some b \<longrightarrow> b \<notin> set (bufPool (bufs t)) \<and> (\<forall>j. holds (cpc t j) = Some b \<longrightarrow> i = j))"
proof -
  have inv: "copiers_inv t" using copying.reachable_inv [OF refl assms] .
  then have "pending t i" by (simp add: copiers_inv_def)
  then have "prefix (was_sent t i) (was_read t i)" "cpc t i = CRead b \<longrightarrow> was_sent t i = was_read t i"
    by (auto simp: pending_def split: copier_pc.splits)
  moreover have "exclusive (mset (bufPool (bufs t))) (buf_made (bufs t)) (\<lambda>i. holds (cpc t i))"
    using inv by (simp add: copiers_inv_def)
  ultimately show ?thesis unfolding exclusive_def by auto
qed

text \<open>A run in which the second goroutine gets the buffer of the first.\<close>

definition demo_copies :: "copier_event list" where
  "demo_copies = [GetEv 0 None, ReadEv 0 ''ab'', WriteEv 0 True, EofEv 0, PutEv 0 True,
     GetEv 1 (Some 0), ReadEv 1 ''c'', WriteEv 1 True]"

lemma buffers_never_mix_witness:
  "\<exists>t. exec copier_step demo_copies copiers_start = Some t \<and> cpc t 1 = CRead 0 \<and> was_sent t 1 = was_read t 1 \<and> was_read t 1 = ''c''"
proof -
  obtain t where t: "exec copier_step demo_copies copiers_start = Some t" "cpc t 1 = CRead 0" "was_read t 1 = ''c''"
    by (simp add: demo_copies_def copiers_start_def no_bufs_def GetBuf_def PutBuf_def pool_Get_def pool_Put_def bufSize_def
        del: replicate.simps)
  with buffers_never_mix [OF t(1), of 1 0] show ?thesis by auto
qed

text \<open>A connection compressed with a reader and a writer from the pools starts like one
  compressed with new ones, whatever the pools hold, because both are reset.\<close>

theorem pooled_compression_fresh:
  assumes "resets lib" "WithCompressionFromPool lib c rch wch ps = ((sr, sw), ps')"
  shows "(sp_heap (snappyReaderPool ps') sr, sp_heap (snappyWriterPool ps') sw) = WithCompression lib c"
  using assms
  by (auto simp: WithCompressionFromPool_def GetSnappyReader_def GetSnappyWriter_def WithCompression_def resets_def
      split: prod.splits dest!: GetSnappy_state)

text \<open>A library whose codecs hold the connection and what was written.\<close>

definition demo_snappy :: "(conn, conn \<times> gostring) snappy_lib" where
  "demo_snappy = \<lparr>NewReader = (\<lambda>c. c), NewBufferedWriter = (\<lambda>c. (c, [])), Reader_Reset = (\<lambda>c r. c),
     Writer_Reset = (\<lambda>c w. (c, [])), Writer_Write = (\<lambda>p (c, q). ([], c, q @ p))\<rparr>"

lemma pooled_compression_fresh_witness:
  "\<exists>sr sw ps'. WithCompressionFromPool demo_snappy 5 (Some 0) (Some 0)
       \<lparr>snappyReaderPool = \<lparr>sp_idle = [0], sp_made = 1, sp_heap = (\<lambda>_. 4)\<rparr>,
        snappyWriterPool = \<lparr>sp_idle = [0], sp_made = 1, sp_heap = (\<lambda>_. (4, ''x''))\<rparr>\<rparr> = ((sr, sw), ps') \<and>
     sp_heap (snappyWriterPool ps') sw = (5, [])"
proof -
  have "resets demo_snappy" by (simp add: resets_def demo_snappy_def)
  moreover have "WithCompression demo_snappy 5 = (5, 5, [])" by (simp add: WithCompression_def demo_snappy_def)
  ultimately show ?thesis using pooled_compression_fresh [of demo_snappy 5 "Some 0" "Some 0"]
    by (metis prod.collapse prod.inject)
qed

end
