(* ===== verification/GoFlag.thy ===== *)
theory GoFlag
  imports GoStrings
begin

text \<open>
  Package \<open>flag\<close> as the three commands use it: string, integer and boolean flags, the parser
  of the argument list and its exit codes; and \<open>strconv.ParseInt\<close> with base 0 and
  \<open>strconv.ParseBool\<close>, by which the values are set.
\<close>

section \<open>Numbers and truth values\<close>

text \<open>A base prefix, of a string without its sign.\<close>

definition base_prefix :: "gostring \<Rightarrow> nat \<times> gostring" where
  "base_prefix s =
     (if s = [] \<or> hd s \<noteq> CHR ''0'' then (10, s)
      else if 3 \<le> length s \<and> (s ! 1 = CHR ''b'' \<or> s ! 1 = CHR ''B'') then (2, drop 2 s)
      else if 3 \<le> length s \<and> (s ! 1 = CHR ''o'' \<or> s ! 1 = CHR ''O'') then (8, drop 2 s)
      else if 3 \<le> length s \<and> (s ! 1 = CHR ''x'' \<or> s ! 1 = CHR ''X'') then (16, drop 2 s)
      else (8, tl s))"

text \<open>The loop of \<open>underscoreOK\<close>; \<open>i\<close> is the class of the previous character.\<close>

fun underscore_scan :: "bool \<Rightarrow> char \<Rightarrow> gostring \<Rightarrow> bool" where
  "underscore_scan hex i [] \<longleftrightarrow> i \<noteq> CHR ''_''"
| "underscore_scan hex i (c # s) =
     (if is_digit c \<or> hex \<and> (case digit_val c of Some d \<Rightarrow> d < 16 | None \<Rightarrow> False) then underscore_scan hex (CHR ''0'') s
      else if c = CHR ''_'' then i = CHR ''0'' \<and> underscore_scan hex (CHR ''_'') s
      else i \<noteq> CHR ''_'' \<and> underscore_scan hex (CHR ''!'') s)"

definition underscoreOK :: "gostring \<Rightarrow> bool" where
  "underscoreOK s =
     (if 2 \<le> length s \<and> s ! 0 = CHR ''0'' \<and> s ! 1 \<in> set ''bBoOxX''
      then underscore_scan (s ! 1 \<in> set ''xX'') (CHR ''0'') (drop 2 s)
      else underscore_scan False (CHR ''^'') s)"

text \<open>\<open>strconv.ParseInt(s, 0, 64)\<close>; \<open>None\<close> for its syntax and range errors.\<close>

definition strconv_ParseInt0 :: "gostring \<Rightarrow> int option" where
  "strconv_ParseInt0 s =
     (let neg = (s \<noteq> [] \<and> hd s = CHR ''-'');
          ds = (if s \<noteq> [] \<and> (hd s = CHR ''-'' \<or> hd s = CHR ''+'') then tl s else s)
      in if ds = [] then None
         else case base_prefix ds of (base, body) \<Rightarrow>
           (case parse_digits base 0 (filter (\<lambda>c. c \<noteq> CHR ''_'') body) of
              None \<Rightarrow> None
            | Some n \<Rightarrow>
                if CHR ''_'' \<in> set body \<and> \<not> underscoreOK ds then None
                else if neg then (if n \<le> 2 ^ 63 then Some (- int n) else None)
                else if n < 2 ^ 63 then Some (int n) else None))"

definition strconv_ParseBool :: "gostring \<Rightarrow> bool option" where
  "strconv_ParseBool s =
     (if s \<in> {''1'', ''t'', ''T'', ''true'', ''TRUE'', ''True''} then Some True
      else if s \<in> {''0'', ''f'', ''F'', ''false'', ''FALSE'', ''False''} then Some False
      else None)"

section \<open>Flags\<close>

datatype flag_value = StringFlag gostring | IntFlag int | BoolFlag bool

text \<open>\<open>Set\<close> of the three kinds of values.\<close>

fun flag_Set :: "flag_value \<Rightarrow> gostring \<Rightarrow> flag_value option" where
  "flag_Set (StringFlag x) s = Some (StringFlag s)"
| "flag_Set (IntFlag x) s = map_option IntFlag (strconv_ParseInt0 s)"
| "flag_Set (BoolFlag x) s = map_option BoolFlag (strconv_ParseBool s)"

fun is_bool_flag :: "flag_value \<Rightarrow> bool" where
  "is_bool_flag (BoolFlag x) = True"
| "is_bool_flag v = False"

datatype flag_arg = Positional | Terminator | BadSyntax | FlagArg gostring "gostring option"

definition flag_of :: "gostring \<Rightarrow> flag_arg" where
  "flag_of s =
     (if length s < 2 \<or> s ! 0 \<noteq> CHR ''-'' then Positional
      else if s = ''--'' then Terminator
      else let name = drop (if s ! 1 = CHR ''-'' then 2 else 1) s in
        if name = [] \<or> hd name = CHR ''-'' \<or> hd name = CHR ''='' then BadSyntax
        else let k = takeWhile (\<lambda>c. c \<noteq> CHR ''='') name in
          if length k = length name then FlagArg name None else FlagArg k (Some (drop (length k + 1) name)))"

text \<open>
  \<open>Parse\<close>: the values and the remaining arguments, or the exit code (0 after the usage text,
  2 after an error).
\<close>

datatype flag_end = Parsed "gostring \<rightharpoonup> flag_value" "gostring list" | FlagExit nat

fun parse_flags :: "(gostring \<rightharpoonup> flag_value) \<Rightarrow> gostring list \<Rightarrow> flag_end" where
  "parse_flags vals [] = Parsed vals []"
| "parse_flags vals (s # args) =
     (case flag_of s of
        Positional \<Rightarrow> Parsed vals (s # args)
      | Terminator \<Rightarrow> Parsed vals args
      | BadSyntax \<Rightarrow> FlagExit 2
      | FlagArg name value \<Rightarrow>
          (case vals name of
             None \<Rightarrow> FlagExit (if name = ''help'' \<or> name = ''h'' then 0 else 2)
           | Some v \<Rightarrow>
               if is_bool_flag v then
                 (case flag_Set v (case value of Some x \<Rightarrow> x | None \<Rightarrow> ''true'') of
                    None \<Rightarrow> FlagExit 2
                  | Some v' \<Rightarrow> parse_flags (vals(name \<mapsto> v')) args)
               else
                 (case value of
                    Some x \<Rightarrow>
                      (case flag_Set v x of None \<Rightarrow> FlagExit 2 | Some v' \<Rightarrow> parse_flags (vals(name \<mapsto> v')) args)
                  | None \<Rightarrow>
                      (case args of
                         [] \<Rightarrow> FlagExit 2
                       | x # rest \<Rightarrow>
                           (case flag_Set v x of None \<Rightarrow> FlagExit 2 | Some v' \<Rightarrow> parse_flags (vals(name \<mapsto> v')) rest)))))"

text \<open>The variables behind the flags.\<close>

definition string_flag :: "(gostring \<rightharpoonup> flag_value) \<Rightarrow> gostring \<Rightarrow> gostring" where
  "string_flag vals n = (case vals n of Some (StringFlag s) \<Rightarrow> s | _ \<Rightarrow> [])"

definition int_flag :: "(gostring \<rightharpoonup> flag_value) \<Rightarrow> gostring \<Rightarrow> int" where
  "int_flag vals n = (case vals n of Some (IntFlag i) \<Rightarrow> i | _ \<Rightarrow> 0)"

definition bool_flag :: "(gostring \<rightharpoonup> flag_value) \<Rightarrow> gostring \<Rightarrow> bool" where
  "bool_flag vals n = (case vals n of Some (BoolFlag b) \<Rightarrow> b | _ \<Rightarrow> False)"

section \<open>Laws\<close>

lemma ParseInt0_Itoa:
  assumes "- (2 ^ 63) \<le> i" "i < 2 ^ 63"
  shows "strconv_ParseInt0 (strconv_Itoa i) = Some i"
proof -
  have body: "parse_digits (fst (base_prefix (show_nat n))) 0 (filter (\<lambda>c. c \<noteq> CHR ''_'') (snd (base_prefix (show_nat n)))) = Some n \<and>
      CHR ''_'' \<notin> set (snd (base_prefix (show_nat n)))" for n
  proof (cases "n = 0")
    case True
    moreover have "digit_char 0 = CHR ''0''" by code_simp
    then have "show_nat 0 = ''0''" by (simp add: show_nat.simps)
    ultimately show ?thesis by (simp add: base_prefix_def)
  next
    case False
    then have "base_prefix (show_nat n) = (10, show_nat n)"
      using show_nat_leading_zero [of n] by (auto simp: base_prefix_def)
    moreover have "CHR ''_'' \<notin> set (show_nat n)" using show_nat_digits [of "CHR ''_''" n] by (auto simp: is_digit_def)
    moreover have "filter (\<lambda>c. c \<noteq> CHR ''_'') (show_nat n) = show_nat n"
      using calculation(2) by (auto intro: filter_True)
    ultimately show ?thesis by (simp add: parse_digits_show_nat)
  qed
  have hd: "hd (show_nat n) \<noteq> CHR ''-'' \<and> hd (show_nat n) \<noteq> CHR ''+''" for n
    using show_nat_digits [OF hd_in_set, of n] by (auto simp: is_digit_def)
  obtain base ds where p: "base_prefix (show_nat (nat \<bar>i\<bar>)) = (base, ds)" by fastforce
  show ?thesis
  proof (cases "i < 0")
    case True
    with assms body [of "nat \<bar>i\<bar>"] p show ?thesis by (simp add: strconv_ParseInt0_def strconv_Itoa_def)
  next
    case False
    with assms body [of "nat \<bar>i\<bar>"] p hd [of "nat i"] show ?thesis
      by (simp add: strconv_ParseInt0_def strconv_Itoa_def)
  qed
qed

definition bool_text :: "bool \<Rightarrow> gostring" where
  "bool_text b = (if b then ''true'' else ''false'')"

lemma ParseBool_text [simp]: "strconv_ParseBool (bool_text b) = Some b"
  by (simp add: strconv_ParseBool_def bool_text_def)

text \<open>A flag with its value, as one argument.\<close>

definition flag_text :: "gostring \<Rightarrow> gostring \<Rightarrow> gostring" where
  "flag_text name x = ''-'' @ name @ ''='' @ x"

definition flag_name :: "gostring \<Rightarrow> bool" where
  "flag_name n \<longleftrightarrow> n \<noteq> [] \<and> hd n \<noteq> CHR ''-'' \<and> CHR ''='' \<notin> set n"

lemma flag_of_text: "flag_name n \<Longrightarrow> flag_of (flag_text n x) = FlagArg n (Some x)"
  by (cases n) (auto simp: flag_of_def flag_text_def flag_name_def Let_def takeWhile_append)

lemma parse_flags_text:
  "flag_name n \<Longrightarrow> vals n = Some v \<Longrightarrow> flag_Set v x = Some v' \<Longrightarrow>
   parse_flags vals (flag_text n x # args) = parse_flags (vals(n \<mapsto> v')) args"
  by (simp add: flag_of_text)

text \<open>Name and value may also be two arguments, except for a boolean flag.\<close>

lemma parse_flags_two_arguments:
  assumes "flag_name n" "vals n = Some v" "\<not> is_bool_flag v"
  shows "parse_flags vals ((CHR ''-'' # n) # x # args) = parse_flags vals (flag_text n x # args)"
proof -
  have "flag_of (CHR ''-'' # n) = FlagArg n None"
  proof -
    let ?k = "takeWhile (\<lambda>c. c \<noteq> CHR ''='') n"
    have "n \<noteq> []" "hd n \<noteq> CHR ''-''" using assms(1) by (simp_all add: flag_name_def)
    then have d: "drop (if (CHR ''-'' # n) ! 1 = CHR ''-'' then 2 else 1) (CHR ''-'' # n) = n"
      "\<not> (length (CHR ''-'' # n) < 2 \<or> (CHR ''-'' # n) ! 0 \<noteq> CHR ''-'')" "CHR ''-'' # n \<noteq> ''--''"
      by (auto simp: hd_conv_nth Suc_le_eq)
    have h: "\<not> (n = [] \<or> hd n = CHR ''-'' \<or> hd n = CHR ''='')"
      using assms(1) hd_in_set [of n] unfolding flag_name_def by metis
    have "?k = n" using assms(1) by (auto simp: flag_name_def takeWhile_eq_all_conv)
    then show ?thesis unfolding flag_of_def Let_def d(1) using d(2,3) h by (simp only: if_False if_True refl)
  qed
  with assms show ?thesis by (simp add: flag_of_text)
qed

end
