(* ===== verification/RotatingFile.thy ===== *)
theory RotatingFile
  imports GoStrings
begin

text \<open>
  The rotating log file of \<open>util/zlog/writer.go\<close>.  The directory is a map from names to
  contents; what the system refuses (a stat, a rename, an open) is an argument.  The handle
  is either open on the log's name or invalid, as it is after a failed open.  The
  specification is the list of the log's segments, newest first.
\<close>

section \<open>Files\<close>

type_synonym files = "gostring \<rightharpoonup> gostring"

record os_files =
  stat_ok :: bool
  rename_ok :: "gostring \<Rightarrow> gostring \<Rightarrow> bool"
  open_ok :: bool

definition os_Rename :: "os_files \<Rightarrow> gostring \<Rightarrow> gostring \<Rightarrow> files \<Rightarrow> files" where
  "os_Rename os old new fs =
     (if \<not> rename_ok os old new then fs
      else case fs old of None \<Rightarrow> fs | Some c \<Rightarrow> (fs(old := None))(new \<mapsto> c))"

text \<open>\<open>os.OpenFile\<close> for appending, creating the file.\<close>

definition os_Open :: "os_files \<Rightarrow> gostring \<Rightarrow> files \<Rightarrow> bool \<times> files" where
  "os_Open os name fs =
     (if \<not> open_ok os then (False, fs)
      else (True, case fs name of None \<Rightarrow> fs(name \<mapsto> []) | Some _ \<Rightarrow> fs))"

section \<open>RotatingFile\<close>

record rotating_file =
  rf_file :: bool
  rf_fileName :: gostring
  rf_maxBytes :: int
  rf_backupCount :: int

datatype rotate_error = BytesNotPositive | MkdirError | OpenError

definition NewRotatingFile ::
  "bool \<Rightarrow> os_files \<Rightarrow> gostring \<Rightarrow> int \<Rightarrow> int \<Rightarrow> files \<Rightarrow> (rotate_error + rotating_file) \<times> files" where
  "NewRotatingFile mkdir_ok os fileName bytes backupCount fs =
     (if bytes \<le> 0 then (Inl BytesNotPositive, fs)
      else if \<not> mkdir_ok then (Inl MkdirError, fs)
      else case os_Open os fileName fs of
        (False, fs') \<Rightarrow> (Inl OpenError, fs')
      | (True, fs') \<Rightarrow>
          (Inr \<lparr>rf_file = True, rf_fileName = fileName, rf_maxBytes = bytes, rf_backupCount = backupCount\<rparr>, fs'))"

text \<open>The names of the backups; backup 0 stands for the log itself.\<close>

definition backup :: "gostring \<Rightarrow> nat \<Rightarrow> gostring" where
  "backup name i = (if i = 0 then name else name @ ''-'' @ strconv_Itoa (int i))"

text \<open>The loop from \<open>backupCount - 1\<close> down to 1.\<close>

fun shift_loop :: "os_files \<Rightarrow> gostring \<Rightarrow> nat \<Rightarrow> files \<Rightarrow> files" where
  "shift_loop os name 0 fs = fs"
| "shift_loop os name (Suc i) fs =
     shift_loop os name i (os_Rename os (backup name (Suc i)) (backup name (Suc (Suc i))) fs)"

definition rotating :: "os_files \<Rightarrow> int \<Rightarrow> rotating_file \<times> files \<Rightarrow> rotating_file \<times> files" where
  "rotating os wn = (\<lambda>(rf, fs).
     let name = rf_fileName rf in
     if rf_backupCount rf < 1 then (rf, fs)
     else if \<not> rf_file rf \<or> \<not> stat_ok os then (rf, fs)
     else if int (length (case fs name of Some c \<Rightarrow> c | None \<Rightarrow> [])) + wn < rf_maxBytes rf then (rf, fs)
     else
       let fs1 = shift_loop os name (nat (rf_backupCount rf) - 1) fs;
           fs2 = os_Rename os name (backup name 1) fs1
       in case os_Open os name fs2 of (ok, fs3) \<Rightarrow> (rf\<lparr>rf_file := ok\<rparr>, fs3))"

text \<open>\<open>Write\<close>: the number of bytes written, \<open>None\<close> for the error of an invalid handle.\<close>

definition rf_Write :: "os_files \<Rightarrow> gostring \<Rightarrow> rotating_file \<times> files \<Rightarrow> nat option \<times> rotating_file \<times> files" where
  "rf_Write os p st =
     (case rotating os (int (length p)) st of (rf, fs) \<Rightarrow>
        if rf_file rf then
          (Some (length p), rf, fs(rf_fileName rf \<mapsto> (case fs (rf_fileName rf) of Some c \<Rightarrow> c | None \<Rightarrow> []) @ p))
        else (None, rf, fs))"

fun rf_Writes :: "os_files \<Rightarrow> gostring list \<Rightarrow> rotating_file \<times> files \<Rightarrow> rotating_file \<times> files" where
  "rf_Writes os [] st = st"
| "rf_Writes os (p # ps) st = (case rf_Write os p st of (_, st') \<Rightarrow> rf_Writes os ps st')"

definition rf_Close :: "rotating_file \<Rightarrow> rotating_file" where
  "rf_Close rf = rf\<lparr>rf_file := False\<rparr>"

section \<open>The specification\<close>

text \<open>The segments, newest first, at most \<open>n + 1\<close> of them.\<close>

definition spec_write :: "nat \<Rightarrow> nat \<Rightarrow> gostring \<Rightarrow> gostring list \<Rightarrow> gostring list" where
  "spec_write n limit p segs =
     (case segs of
        [] \<Rightarrow> []
      | s # ss \<Rightarrow> if length s + length p < limit then (s @ p) # ss else p # take n (s # ss))"

definition represents :: "gostring \<Rightarrow> nat \<Rightarrow> files \<Rightarrow> gostring list \<Rightarrow> bool" where
  "represents name n fs segs \<longleftrightarrow> segs \<noteq> [] \<and> length segs \<le> Suc n \<and>
     (\<forall>i\<le>n. fs (backup name i) = (if i < length segs then Some (segs ! i) else None))"

definition healthy :: os_files where
  "healthy = \<lparr>stat_ok = True, rename_ok = (\<lambda>_ _. True), open_ok = True\<rparr>"

section \<open>Lemmas\<close>

lemma Itoa_inj: "strconv_Itoa (int i) = strconv_Itoa (int j) \<Longrightarrow> i = j"
proof -
  assume "strconv_Itoa (int i) = strconv_Itoa (int j)"
  then have "show_nat i = show_nat j"
    unfolding strconv_Itoa_def by (simp only: nat_int of_nat_less_0_iff if_False)
  then show "i = j" by (metis parse_digits_show_nat option.inject)
qed

lemma backup_inj [simp]: "backup name i = backup name j \<longleftrightarrow> i = j"
  by (auto simp: backup_def dest: Itoa_inj)

lemma backup_0: "backup name 0 = name"
  by (simp add: backup_def)

lemma backup_eq_name [simp]: "backup name i = name \<longleftrightarrow> i = 0" "name = backup name i \<longleftrightarrow> i = 0"
  using backup_inj [of name i 0] backup_inj [of name 0 i] by (auto simp: backup_0)

lemma Rename_at:
  "os_Rename healthy (backup name a) (backup name (Suc a)) fs (backup name j) =
     (if fs (backup name a) = None then fs (backup name j)
      else if j = Suc a then fs (backup name a) else if j = a then None else fs (backup name j))"
  by (auto simp: os_Rename_def healthy_def split: option.splits)

text \<open>The backups move up by one, given that there is no gap among them.\<close>

definition no_gap :: "gostring \<Rightarrow> nat \<Rightarrow> files \<Rightarrow> bool" where
  "no_gap name i fs \<longleftrightarrow> (\<forall>k\<le>i. fs (backup name k) = None \<longrightarrow> fs (backup name (Suc k)) = None)"

lemma shift_loop_at:
  "no_gap name i fs \<Longrightarrow> shift_loop healthy name i fs (backup name j) =
     (if j = 0 \<or> Suc i < j \<or> i = 0 then fs (backup name j)
      else if j = 1 then None else fs (backup name (j - 1)))"
proof (induction i arbitrary: fs)
  case 0
  then show ?case by simp
next
  case (Suc i)
  let ?fs = "os_Rename healthy (backup name (Suc i)) (backup name (Suc (Suc i))) fs"
  have gap: "fs (backup name (Suc i)) = None \<longrightarrow> fs (backup name (Suc (Suc i))) = None"
    using Suc.prems by (simp add: no_gap_def)
  have at: "?fs (backup name j) = (if j = Suc (Suc i) then fs (backup name (Suc i))
      else if j = Suc i then None else fs (backup name j))" for j
    using gap by (auto simp: Rename_at)
  have "no_gap name i ?fs" using Suc.prems by (auto simp: no_gap_def at)
  from Suc.IH [OF this] show ?case unfolding shift_loop.simps at by auto
qed

lemma represents_no_gap: "represents name n fs segs \<Longrightarrow> i < n \<Longrightarrow> no_gap name i fs"
  by (auto simp: represents_def no_gap_def)

definition rotated :: "gostring \<Rightarrow> nat \<Rightarrow> files \<Rightarrow> files" where
  "rotated name n fs = snd (os_Open healthy name
     (os_Rename healthy name (backup name 1) (shift_loop healthy name (n - 1) fs)))"

lemma rotated_represents:
  assumes "represents name n fs segs" "1 \<le> n"
  shows "represents name n (rotated name n fs) ([] # take n segs)"
proof -
  let ?fs1 = "shift_loop healthy name (n - Suc 0) fs"
  let ?fs2 = "os_Rename healthy (backup name 0) (backup name (Suc 0)) ?fs1"
  have at1: "?fs1 (backup name j) = (if j = 0 \<or> n < j \<or> n = 1 then fs (backup name j)
      else if j = 1 then None else fs (backup name (j - 1)))" for j
    using shift_loop_at [OF represents_no_gap [OF assms(1)], of "n - Suc 0" j] assms(2) by auto
  have s: "segs \<noteq> []" "fs (backup name 0) = Some (hd segs)"
    using assms(1) by (auto simp: represents_def hd_conv_nth)
  then have at2: "?fs2 (backup name j) = (if j = 0 then None else if j \<le> n then fs (backup name (j - 1)) else fs (backup name j))" for j
    using assms(2) by (auto simp: Rename_at at1)
  have "rotated name n fs (backup name j) = (if j = 0 then Some [] else ?fs2 (backup name j))" for j
    using at2 [of 0] by (simp add: rotated_def os_Open_def healthy_def backup_0)
  then have "rotated name n fs (backup name j) = (if j = 0 then Some [] else fs (backup name (j - 1)))" if "j \<le> n" for j
    using that by (simp add: at2)
  then show ?thesis
    using assms(1) s(1) by (auto simp: represents_def nth_Cons' min_def)
qed

lemma rotating_healthy:
  assumes "rf_file rf" "1 \<le> rf_backupCount rf"
  shows "rotating healthy wn (rf, fs) =
    (if int (length (case fs (rf_fileName rf) of Some c \<Rightarrow> c | None \<Rightarrow> [])) + wn < rf_maxBytes rf then (rf, fs)
     else (rf, rotated (rf_fileName rf) (nat (rf_backupCount rf)) fs))"
proof -
  let ?fs2 = "os_Rename healthy (rf_fileName rf) (backup (rf_fileName rf) 1)
      (shift_loop healthy (rf_fileName rf) (nat (rf_backupCount rf) - 1) fs)"
  obtain fs3 where o: "os_Open healthy (rf_fileName rf) ?fs2 = (True, fs3)"
    by (simp add: os_Open_def healthy_def)
  moreover have "rf\<lparr>rf_file := True\<rparr> = rf" using assms(1) by simp
  moreover have "stat_ok healthy" by (simp add: healthy_def)
  ultimately show ?thesis using assms by (simp add: rotating_def Let_def rotated_def)
qed

lemma represents_append:
  assumes "represents name n fs (s # ss)"
  shows "represents name n (fs(name \<mapsto> (case fs name of Some c \<Rightarrow> c | None \<Rightarrow> []) @ p)) ((s @ p) # ss)"
proof -
  have "fs (backup name 0) = Some s" using assms by (auto simp: represents_def)
  then have n: "fs name = Some s" by (simp add: backup_0)
  have "(fs(name \<mapsto> s @ p)) (backup name i) = (if i = 0 then Some (s @ p) else fs (backup name i))" for i
    using backup_inj [of name i 0] by (simp add: backup_0)
  then show ?thesis using assms n by (auto simp: represents_def nth_Cons')
qed

definition log_of :: "gostring \<Rightarrow> nat \<Rightarrow> nat \<Rightarrow> rotating_file" where
  "log_of name n limit = \<lparr>rf_file = True, rf_fileName = name, rf_maxBytes = int limit, rf_backupCount = int n\<rparr>"

lemma Write_refines:
  assumes "represents name n fs segs" "1 \<le> n"
  shows "\<exists>fs'. rf_Write healthy p (log_of name n limit, fs) = (Some (length p), log_of name n limit, fs') \<and>
    represents name n fs' (spec_write n limit p segs)"
proof -
  obtain s ss where s: "segs = s # ss" using assms(1) by (cases segs) (auto simp: represents_def)
  have "fs (backup name 0) = Some s" using assms(1) by (auto simp: represents_def s)
  then have n: "fs name = Some s" by (simp add: backup_0)
  let ?rf = "log_of name n limit"
  have r: "rotating healthy (int (length p)) (?rf, fs) =
      (?rf, if length s + length p < limit then fs else rotated name n fs)"
    using rotating_healthy [of ?rf "int (length p)" fs] assms(2) n by (auto simp: log_of_def)
  show ?thesis
  proof (cases "length s + length p < limit")
    case True
    with r represents_append [of name n fs s ss p] assms(1) n show ?thesis
      by (auto simp: rf_Write_def log_of_def spec_write_def s)
  next
    case False
    with r represents_append [OF rotated_represents [OF assms, unfolded s], of p] show ?thesis
      by (auto simp: rf_Write_def log_of_def spec_write_def s)
  qed
qed

lemma Writes_refine:
  "represents name n fs segs \<Longrightarrow> 1 \<le> n \<Longrightarrow>
   \<exists>fs'. rf_Writes healthy ps (log_of name n limit, fs) = (log_of name n limit, fs') \<and>
     represents name n fs' (foldl (\<lambda>segs p. spec_write n limit p segs) segs ps)"
proof (induction ps arbitrary: fs segs)
  case Nil
  then show ?case by auto
next
  case (Cons p ps)
  obtain fs1 where 1: "rf_Write healthy p (log_of name n limit, fs) = (Some (length p), log_of name n limit, fs1)"
    "represents name n fs1 (spec_write n limit p segs)"
    using Write_refines [OF Cons.prems] by blast
  from Cons.IH [OF 1(2) Cons.prems(2)] 1(1) show ?case by simp
qed

text \<open>The specification keeps the newest data and bounds the segments.\<close>

lemma spec_write_suffix:
  assumes "segs \<noteq> []"
  shows "suffix (concat (rev (spec_write n limit p segs))) (concat (rev segs) @ p) \<and> spec_write n limit p segs \<noteq> []"
proof -
  obtain s ss where s: "segs = s # ss" using assms by (cases segs) auto
  have "concat (rev segs) = concat (rev (drop n segs)) @ concat (rev (take n segs))"
    by (metis append_take_drop_id concat_append rev_append)
  then show ?thesis by (auto simp: spec_write_def s suffix_def)
qed

lemma spec_writes_suffix:
  "segs \<noteq> [] \<Longrightarrow> suffix (concat (rev (foldl (\<lambda>segs p. spec_write n limit p segs) segs ps))) (concat (rev segs) @ concat ps)"
proof (induction ps arbitrary: segs)
  case Nil
  then show ?case by simp
next
  case (Cons p ps)
  let ?s = "spec_write n limit p segs"
  note sw = spec_write_suffix [OF Cons.prems, of n limit p]
  have "suffix (concat (rev ?s) @ concat ps) ((concat (rev segs) @ p) @ concat ps)"
    using sw by (auto simp: suffix_def)
  with Cons.IH [of ?s] sw show ?case by (auto intro: suffix_order.trans)
qed

lemma spec_writes_bound:
  "list_all (\<lambda>s. length s \<le> b) segs \<Longrightarrow> limit \<le> Suc b \<Longrightarrow> list_all (\<lambda>p. length p \<le> b) ps \<Longrightarrow>
   list_all (\<lambda>s. length s \<le> b) (foldl (\<lambda>segs p. spec_write n limit p segs) segs ps)"
proof (induction ps arbitrary: segs)
  case Nil
  then show ?case by simp
next
  case (Cons p ps)
  have "list_all (\<lambda>s. length s \<le> b) (spec_write n limit p segs)"
    using Cons.prems by (auto simp: spec_write_def list_all_iff split: list.splits dest: in_set_takeD)
  with Cons show ?case by simp
qed

section \<open>Properties\<close>

text \<open>A fresh log, for the witnesses.\<close>

definition demo_log :: files where "demo_log = [''l'' \<mapsto> []]"

lemma demo_log_represents: "represents ''l'' n demo_log [[]]"
proof -
  have "demo_log (backup ''l'' i) = (if i = 0 then Some [] else None)" for i
    using backup_inj [of "''l''" i 0] by (simp add: demo_log_def backup_0)
  then show ?thesis by (simp add: represents_def)
qed

text \<open>C13: Writing through a rotating file, when the system refuses nothing, implements the list of
  segments: below the limit the newest grows, otherwise a new one starts and only the
  configured number of older ones is kept, each under the next name.\<close>

theorem rotation_refines_segments:
  assumes "represents name n fs segs" "1 \<le> n"
  shows "\<exists>fs'. rf_Writes healthy ps (log_of name n limit, fs) = (log_of name n limit, fs') \<and>
    represents name n fs' (foldl (\<lambda>segs p. spec_write n limit p segs) segs ps)"
  using assms by (rule Writes_refine)

lemma rotation_refines_segments_witness:
  "\<exists>fs'. rf_Writes healthy [''ab'', ''cd'', ''ef''] (log_of ''l'' 1 4, demo_log) = (log_of ''l'' 1 4, fs') \<and>
     represents ''l'' 1 fs' [''ef'', ''cd'']"
  using rotation_refines_segments [OF demo_log_represents, of 1 "[''ab'', ''cd'', ''ef'']" 4]
  by (simp add: spec_write_def)

text \<open>C29: What the files hold, oldest backup first, is always an uninterrupted tail of everything
  written, and no file is longer than the longer of the limit less one and the longest single
  write.\<close>

theorem rotation_keeps_tail:
  assumes "represents name n fs segs" "1 \<le> n" "list_all (\<lambda>s. length s \<le> b) (segs @ ps)" "limit \<le> Suc b"
  shows "\<exists>fs' segs'. rf_Writes healthy ps (log_of name n limit, fs) = (log_of name n limit, fs') \<and>
    represents name n fs' segs' \<and> suffix (concat (rev segs')) (concat (rev segs) @ concat ps) \<and>
    list_all (\<lambda>s. length s \<le> b) segs'"
proof -
  have "segs \<noteq> []" using assms(1) by (simp add: represents_def)
  with Writes_refine [OF assms(1,2), of ps limit] spec_writes_suffix [of segs n limit ps]
    spec_writes_bound [of b segs limit ps n] assms(3,4)
  show ?thesis by auto
qed

lemma rotation_keeps_tail_witness:
  "\<exists>fs' segs'. rf_Writes healthy [''ab'', ''cd'', ''ef''] (log_of ''l'' 1 4, demo_log) = (log_of ''l'' 1 4, fs') \<and>
     represents ''l'' 1 fs' segs' \<and> suffix (concat (rev segs')) ''abcdef'' \<and> list_all (\<lambda>s. length s \<le> 3) segs'"
  using rotation_keeps_tail [OF demo_log_represents, of 1 3 "[''ab'', ''cd'', ''ef'']" 4] by simp

end
