(* ===== verification/GoNet.thy ===== *)
theory GoNet
  imports GoStrings
begin

text \<open>
  The text form of addresses, as Go's \<open>net.IP\<close> prints them: dotted decimal for four bytes
  (also inside a mapped IPv6 address), and for sixteen bytes hexadecimal groups with the
  longest run of zeros, if it has two groups or more, as a double colon.
\<close>

definition lower_hex_digit :: "nat \<Rightarrow> char" where
  "lower_hex_digit d = (if d < 10 then byte (48 + d) else byte (87 + d))"

fun show_hex :: "nat \<Rightarrow> gostring" where
  "show_hex n = (if n < 16 then [lower_hex_digit n] else show_hex (n div 16) @ [lower_hex_digit (n mod 16)])"

declare show_hex.simps [simp del]

fun hex_pairs :: "gostring \<Rightarrow> gostring" where
  "hex_pairs [] = []"
| "hex_pairs (b # s) = lower_hex_digit (code b div 16) # lower_hex_digit (code b mod 16) # hex_pairs s"

definition dotted :: "gostring \<Rightarrow> gostring" where
  "dotted ip = strings_Join (map (\<lambda>b. show_nat (code b)) ip) ''.''"

definition To4 :: "gostring \<Rightarrow> gostring option" where
  "To4 ip =
     (if length ip = 4 then Some ip
      else if length ip = 16 \<and> take 10 ip = replicate 10 (byte 0) \<and> ip ! 10 = byte 255 \<and> ip ! 11 = byte 255
      then Some (drop 12 ip) else None)"

fun groups16 :: "gostring \<Rightarrow> nat list" where
  "groups16 (a # b # s) = (code a * 256 + code b) # groups16 s"
| "groups16 s = []"

text \<open>The first longest run of zero groups: where it starts and its length, 0 for none.\<close>

fun best_run :: "nat \<Rightarrow> nat list \<Rightarrow> nat \<times> nat \<Rightarrow> nat \<times> nat" where
  "best_run i [] b = b"
| "best_run i (g # gs) (st, len) =
     (let l = length (takeWhile (\<lambda>x. x = 0) (g # gs)) in
      best_run (Suc i) gs (if 2 \<le> l \<and> len < l then (i, l) else (st, len)))"

definition colons :: "nat list \<Rightarrow> gostring" where
  "colons gs = strings_Join (map show_hex gs) '':''"

definition string6 :: "nat list \<Rightarrow> gostring" where
  "string6 gs =
     (case best_run 0 gs (0, 0) of (st, len) \<Rightarrow>
        if len = 0 then colons gs else colons (take st gs) @ ''::'' @ colons (drop (st + len) gs))"

definition IP_String :: "gostring \<Rightarrow> gostring" where
  "IP_String ip =
     (if length ip = 0 then ''<nil>''
      else if length ip \<noteq> 4 \<and> length ip \<noteq> 16 then ''?'' @ hex_pairs ip
      else case To4 ip of
        Some p4 \<Rightarrow> dotted p4
      | None \<Rightarrow> string6 (groups16 ip))"

lemma show_nat_small: "n < 10 \<Longrightarrow> show_nat n = [digit_char n]"
  by (simp add: show_nat.simps [of n])

end
