(* ===== verification/Netstat.thy ===== *)
theory Netstat
  imports GoNet Util
begin

text \<open>
  The common part of package \<open>netstat\<close>, \<open>netstat/netstat.go\<close>: sockets and their states, and
  the queries over all socket tables.  The queries use six functions that each operating
  system provides; they are a record, and what the queries rely on is the interface
  \<open>socket_tables\<close>, which \<open>NetstatLinux\<close> and \<open>NetstatWindows\<close> interpret on their models.
\<close>

section \<open>Sockets\<close>

record SockAddr =
  sa_IP :: gostring
  sa_Port :: u16

definition SockAddr_String :: "SockAddr \<Rightarrow> gostring" where
  "SockAddr_String s = IP_String (sa_IP s) @ '':'' @ show_nat (unat (sa_Port s))"

record Process =
  pr_Pid :: int
  pr_Name :: gostring

definition Process_String :: "Process \<Rightarrow> gostring" where
  "Process_String p = strconv_Itoa (pr_Pid p) @ ''/'' @ pr_Name p"

record SockTabEntry =
  ste_ino :: gostring
  ste_LocalAddr :: SockAddr
  ste_RemoteAddr :: SockAddr
  ste_State :: u8
  ste_UID :: u32
  ste_Process :: "Process option"

definition SockTabEntry_Port :: "SockTabEntry \<Rightarrow> u16" where
  "SockTabEntry_Port s = sa_Port (ste_LocalAddr s)"

text \<open>A state is printed by indexing the system's table of names, out of range a panic.\<close>

definition SkState_String :: "gostring list \<Rightarrow> u8 \<Rightarrow> gostring outcome" where
  "SkState_String skStates s = (if unat s < length skStates then Returns (skStates ! unat s) else Panics)"

type_synonym AcceptFn = "SockTabEntry \<Rightarrow> bool"

definition NoopFilter :: AcceptFn where
  "NoopFilter e = True"

definition SockPort :: "SockTabEntry \<Rightarrow> u16" where
  "SockPort e = sa_Port (ste_LocalAddr e)"

fun ToPorts_loop :: "nat \<Rightarrow> u16 list \<Rightarrow> SockTabEntry list \<Rightarrow> u16 list" where
  "ToPorts_loop i ports [] = ports"
| "ToPorts_loop i ports (e # s) = ToPorts_loop (Suc i) (ports[i := sa_Port (ste_LocalAddr e)]) s"

definition ToPorts :: "SockTabEntry list \<Rightarrow> u16 list" where
  "ToPorts s = DeDuplicate (ToPorts_loop 0 (replicate (length s) 0) s)"

section \<open>The functions of the operating system\<close>

type_synonym ('e, 'a) table = "AcceptFn \<Rightarrow> ('e + 'a list) outcome"

record 'e os_api =
  osTCPSocks :: "('e, SockTabEntry) table"
  osTCP6Socks :: "('e, SockTabEntry) table"
  osUDPSocks :: "('e, SockTabEntry) table"
  osUDP6Socks :: "('e, SockTabEntry) table"
  osSocks :: "gostring \<Rightarrow> ('e, SockTabEntry) table"
  osPorts :: "gostring \<Rightarrow> ('e, u16) table"

text \<open>The exported wrappers.\<close>

definition TCPSocks :: "'e os_api \<Rightarrow> ('e, SockTabEntry) table" where
  "TCPSocks api accept = osTCPSocks api accept"

definition TCP6Socks :: "'e os_api \<Rightarrow> ('e, SockTabEntry) table" where
  "TCP6Socks api accept = osTCP6Socks api accept"

definition UDPSocks :: "'e os_api \<Rightarrow> ('e, SockTabEntry) table" where
  "UDPSocks api accept = osUDPSocks api accept"

definition UDP6Socks :: "'e os_api \<Rightarrow> ('e, SockTabEntry) table" where
  "UDP6Socks api accept = osUDP6Socks api accept"

definition Socks :: "'e os_api \<Rightarrow> gostring \<Rightarrow> ('e, SockTabEntry) table" where
  "Socks api mode accept = osSocks api mode accept"

definition Ports :: "'e os_api \<Rightarrow> gostring \<Rightarrow> ('e, u16) table" where
  "Ports api mode accept = osPorts api mode accept"

section \<open>All tables\<close>

text \<open>
  The queries over all tables ask one table after the other and append; the first error
  ends them with what was collected.
\<close>

fun append_tables :: "('e, 'a) table list \<Rightarrow> AcceptFn \<Rightarrow> 'a list \<Rightarrow> ('a list \<times> 'e option) outcome" where
  "append_tables [] accept xs = Returns (xs, None)"
| "append_tables (t # ts) accept xs =
     (case t accept of
        Returns (Inr tbl) \<Rightarrow> append_tables ts accept (xs @ tbl)
      | Returns (Inl err) \<Rightarrow> Returns (xs, Some err)
      | Panics \<Rightarrow> Panics
      | Blocks \<Rightarrow> Blocks)"

definition GetAllSocks :: "'e os_api \<Rightarrow> AcceptFn \<Rightarrow> (SockTabEntry list \<times> 'e option) outcome" where
  "GetAllSocks api accept =
     append_tables [osTCPSocks api, osTCP6Socks api, osUDPSocks api, osUDP6Socks api] accept []"

definition all_modes :: "gostring list" where
  "all_modes = [''tcp'', ''tcp6'', ''udp'', ''udp6'']"

definition GetAllPorts :: "'e os_api \<Rightarrow> AcceptFn \<Rightarrow> u16 list outcome" where
  "GetAllPorts api accept =
     (case append_tables (map (osPorts api) all_modes) accept [] of
        Returns (ports, err) \<Rightarrow> Returns (DeDuplicate ports)
      | Panics \<Rightarrow> Panics
      | Blocks \<Rightarrow> Blocks)"

text \<open>
  The variant with a compressed bitmap of a third-party package: \<open>ToArray\<close> gives the
  numbers added, and its documented behaviour is \<open>bitmap_array\<close>.
\<close>

definition GetAllPortSet :: "(u32 list \<Rightarrow> u32 list) \<Rightarrow> 'e os_api \<Rightarrow> AcceptFn \<Rightarrow> u16 list outcome" where
  "GetAllPortSet ToArray api accept =
     (case osPorts api ''tcp'' accept of
        Panics \<Rightarrow> Panics
      | Blocks \<Rightarrow> Blocks
      | Returns (Inl err) \<Rightarrow> Returns []
      | Returns (Inr portSet) \<Rightarrow>
          (case append_tables (map (osPorts api) (tl all_modes)) accept portSet of
             Returns (ports, err) \<Rightarrow> Returns (util_Map (ToArray (map ucast ports)) ucast)
           | Panics \<Rightarrow> Panics
           | Blocks \<Rightarrow> Blocks))"

definition bitmap_array :: "(u32 list \<Rightarrow> u32 list) \<Rightarrow> bool" where
  "bitmap_array ToArray \<longleftrightarrow> (\<forall>xs. set (ToArray xs) = set xs \<and> sorted (ToArray xs) \<and> distinct (ToArray xs))"

section \<open>Lemmas\<close>

lemma ToPorts_loop_eq:
  "length pre = i \<Longrightarrow> ToPorts_loop i (pre @ replicate (length s) 0) s = pre @ map SockPort s"
proof (induction s arbitrary: i pre)
  case Nil
  then show ?case by simp
next
  case (Cons e s)
  then have "(pre @ 0 # replicate (length s) 0)[i := sa_Port (ste_LocalAddr e)] =
      (pre @ [SockPort e]) @ replicate (length s) 0"
    by (simp add: list_update_append SockPort_def)
  with Cons.IH [of "pre @ [SockPort e]" "Suc i"] Cons.prems show ?case by simp
qed

lemma ToPorts_eq: "ToPorts s = DeDuplicate (map SockPort s)"
  using ToPorts_loop_eq [of "[]" 0 s] by (simp add: ToPorts_def)

lemma set_DeDuplicate [simp]: "set (DeDuplicate xs) = set xs" "distinct (DeDuplicate xs)"
  by (simp_all add: DeDuplicate_eq set_first_occurrences distinct_first_occurrences)

lemma set_ToPorts: "set (ToPorts s) = SockPort ` set s" "distinct (ToPorts s)"
  by (simp_all add: ToPorts_eq)

lemma append_tables_ok:
  "list_all2 (\<lambda>t tbl. t accept = Returns (Inr tbl)) ts tbls \<Longrightarrow>
   append_tables ts accept xs = Returns (xs @ concat tbls, None)"
  by (induction ts tbls arbitrary: xs rule: list_all2_induct) auto

lemma append_tables_Returns:
  "append_tables ts accept xs = Returns (ys, None) \<Longrightarrow>
   \<exists>tbls. list_all2 (\<lambda>t tbl. t accept = Returns (Inr tbl)) ts tbls \<and> ys = xs @ concat tbls"
proof (induction ts arbitrary: xs)
  case Nil
  then show ?case by simp
next
  case (Cons t ts)
  then obtain tbl where t: "t accept = Returns (Inr tbl)" "append_tables ts accept (xs @ tbl) = Returns (ys, None)"
    by (auto split: outcome.splits sum.splits)
  from Cons.IH [OF t(2)] obtain tbls where
    "list_all2 (\<lambda>t tbl. t accept = Returns (Inr tbl)) ts tbls" "ys = (xs @ tbl) @ concat tbls" by blast
  with t(1) show ?case by (intro exI [of _ "tbl # tbls"]) simp
qed

section \<open>The interface\<close>

text \<open>
  What the queries rely on.  A filtered table is the whole table filtered; a mode names one
  of the four tables; and where the sockets of a table can be read so can the ports, which
  are those of the sockets, though not as often nor in that order on every system.
\<close>

locale socket_tables =
  fixes api :: "'e os_api"
  assumes tcp: "osSocks api ''tcp'' accept = osTCPSocks api accept"
    and tcp6: "osSocks api ''tcp6'' accept = osTCP6Socks api accept"
    and udp: "osSocks api ''udp'' accept = osUDPSocks api accept"
    and udp6: "osSocks api ''udp6'' accept = osUDP6Socks api accept"
    and unknown: "mode \<notin> set all_modes \<Longrightarrow> (\<exists>e. osSocks api mode accept = Returns (Inl e)) \<and> (\<exists>e. osPorts api mode accept = Returns (Inl e))"
    and filtered: "osSocks api mode NoopFilter = Returns (Inr es) \<Longrightarrow> osSocks api mode accept = Returns (Inr (filter accept es))"
    and ports: "osSocks api mode NoopFilter = Returns (Inr es) \<Longrightarrow>
      \<exists>ps. osPorts api mode NoopFilter = Returns (Inr ps) \<and> set ps = SockPort ` set es"
begin

lemma GetAllSocks_modes: "GetAllSocks api accept = append_tables (map (osSocks api) all_modes) accept []"
  by (simp add: GetAllSocks_def all_modes_def tcp tcp6 udp udp6 cong: outcome.case_cong sum.case_cong)

lemma GetAllSocks_tables:
  assumes "GetAllSocks api NoopFilter = Returns (es, None)"
  obtains tbls where "list_all2 (\<lambda>m tbl. osSocks api m NoopFilter = Returns (Inr tbl)) all_modes tbls" "es = concat tbls"
proof -
  from append_tables_Returns [OF assms [unfolded GetAllSocks_modes]]
  obtain tbls where "list_all2 (\<lambda>t tbl. t NoopFilter = Returns (Inr tbl)) (map (osSocks api) all_modes) tbls" "es = concat tbls"
    by auto
  then show ?thesis using that by (simp add: list_all2_map1)
qed

lemma GetAllSocks_filtered:
  assumes "GetAllSocks api NoopFilter = Returns (es, None)"
  shows "GetAllSocks api accept = Returns (filter accept es, None)"
proof -
  obtain tbls where t: "list_all2 (\<lambda>m tbl. osSocks api m NoopFilter = Returns (Inr tbl)) all_modes tbls" "es = concat tbls"
    using assms by (rule GetAllSocks_tables)
  have "list_all2 (\<lambda>t tbl. t accept = Returns (Inr tbl)) (map (osSocks api) all_modes) (map (filter accept) tbls)"
    using t(1) by (simp add: list_all2_map1 list_all2_map2) (erule list_all2_mono, rule filtered)
  from append_tables_ok [OF this, of "[]"] show ?thesis
    by (simp add: GetAllSocks_modes t(2) filter_concat)
qed

lemma all_ports_tables:
  assumes "GetAllSocks api NoopFilter = Returns (es, None)"
  obtains ps where "append_tables (map (osPorts api) all_modes) NoopFilter [] = Returns (ps, None)"
    "set ps = SockPort ` set es"
proof -
  obtain tbls where t: "list_all2 (\<lambda>m tbl. osSocks api m NoopFilter = Returns (Inr tbl)) all_modes tbls" "es = concat tbls"
    using assms by (rule GetAllSocks_tables)
  define pss where "pss = map (\<lambda>m. SOME ps. osPorts api m NoopFilter = Returns (Inr ps)) all_modes"
  have *: "list_all2 (\<lambda>m ps. osPorts api m NoopFilter = Returns (Inr ps)) all_modes pss \<and>
      list_all2 (\<lambda>tbl ps. set ps = SockPort ` set tbl) tbls pss"
    unfolding pss_def using t(1)
  proof (induction rule: list_all2_induct)
    case Nil
    then show ?case by simp
  next
    case (Cons m ms tbl tbls)
    then obtain ps where "osPorts api m NoopFilter = Returns (Inr ps)" "set ps = SockPort ` set tbl"
      using ports by blast
    with Cons show ?case by simp
  qed
  then have "list_all2 (\<lambda>t ps. t NoopFilter = Returns (Inr ps)) (map (osPorts api) all_modes) pss"
    by (simp add: list_all2_map1)
  from append_tables_ok [OF this, of "[]"] have
    "append_tables (map (osPorts api) all_modes) NoopFilter [] = Returns (concat pss, None)" by simp
  moreover have "set (concat pss) = SockPort ` set (concat tbls)"
    using conjunct2 [OF *] by (induction rule: list_all2_induct) (auto simp: image_Un)
  ultimately show ?thesis using that t(2) by simp
qed

lemma GetAllPorts_of_socks:
  assumes "GetAllSocks api NoopFilter = Returns (es, None)"
  shows "\<exists>ps. GetAllPorts api NoopFilter = Returns ps \<and> set ps = set (ToPorts es) \<and> distinct ps"
proof -
  obtain ps where "append_tables (map (osPorts api) all_modes) NoopFilter [] = Returns (ps, None)"
    "set ps = SockPort ` set es"
    using assms by (rule all_ports_tables)
  then show ?thesis by (simp add: GetAllPorts_def set_ToPorts)
qed

lemma GetAllPortSet_of_socks:
  assumes "GetAllSocks api NoopFilter = Returns (es, None)" "bitmap_array ToArray"
  shows "\<exists>ps. GetAllPortSet ToArray api NoopFilter = Returns ps \<and> set ps = set (ToPorts es) \<and>
    sorted ps \<and> distinct ps"
proof -
  obtain ps where ps: "append_tables (map (osPorts api) all_modes) NoopFilter [] = Returns (ps, None)"
    "set ps = SockPort ` set es"
    using assms(1) by (rule all_ports_tables)
  let ?A = "ToArray (map ucast ps)"
  have A: "set ?A = ucast ` set ps" "sorted ?A" "distinct ?A"
    using assms(2) by (simp_all add: bitmap_array_def)
  have small: "\<exists>p::u16. x = ucast p" if "x \<in> set ?A" for x using that A(1) by auto
  have up: "ucast (ucast p :: u32) = (p::u16)" for p by (simp add: ucast_up_ucast_id is_up)
  have unat: "unat (ucast p :: u32) = unat p" for p :: u16
  proof -
    have "unat p < 2 ^ LENGTH(16)" by (rule unsigned_less)
    then show ?thesis by (simp add: unsigned_ucast_eq take_bit_nat_eq_self)
  qed
  have "set (map ucast ?A) = set ps" using A(1) up by (auto simp: image_image)
  moreover have "distinct (map ucast ?A :: u16 list)"
    using A(3) small up by (auto simp: distinct_map inj_on_def) (metis up)
  moreover have "sorted (map ucast ?A :: u16 list)"
    unfolding sorted_map
  proof (rule sorted_wrt_mono_rel [OF _ A(2)])
    fix x y assume xy: "x \<in> set ?A" "y \<in> set ?A" "x \<le> y"
    then obtain p q :: u16 where "x = ucast p" "y = ucast q" using small by blast
    with xy(3) show "(ucast x :: u16) \<le> ucast y"
      by (simp add: up word_le_nat_alt unat)
  qed
  ultimately show ?thesis using ps
    by (auto simp: GetAllPortSet_def set_ToPorts all_modes_def split: outcome.splits sum.splits)
qed

end

end
