(* ===== verification/GoText.thy ===== *)
theory GoText
  imports GoStrings GoUtf8 GoIO
begin

text \<open>
  Go's text input: \<open>strings.Fields\<close>, \<open>strings.Index\<close> of a byte, the line scanner of
  \<open>bufio\<close> with its limit on a line's length, and the laws for text made of plain words.
\<close>

section \<open>Fields and positions\<close>

text \<open>\<open>unicode.IsSpace\<close>.\<close>

definition unicode_IsSpace :: "nat \<Rightarrow> bool" where
  "unicode_IsSpace r \<longleftrightarrow>
     (9 \<le> r \<and> r \<le> 13) \<or> r = 32 \<or> r = 133 \<or> r = 160 \<or> r = 5760 \<or> (8192 \<le> r \<and> r \<le> 8202) \<or>
     r = 8232 \<or> r = 8233 \<or> r = 8239 \<or> r = 8287 \<or> r = 12288"

text \<open>\<open>strings.Fields\<close>; the accumulator holds the current field, reversed.\<close>

function fields_acc :: "gostring \<Rightarrow> gostring \<Rightarrow> gostring list" where
  "fields_acc cur [] = (if cur = [] then [] else [rev cur])"
| "fields_acc cur (c # s) =
     (case DecodeRune (c # s) of (r, w) \<Rightarrow>
        if unicode_IsSpace r
        then (if cur = [] then [] else [rev cur]) @ fields_acc [] (drop (w - 1) s)
        else fields_acc (rev (take w (c # s)) @ cur) (drop (w - 1) s))"
  by pat_completeness auto
termination
  by (relation "measure (\<lambda>(cur, s). length s)") auto

definition strings_Fields :: "gostring \<Rightarrow> gostring list" where
  "strings_Fields s = fields_acc [] s"

text \<open>\<open>strings.Index(s, c)\<close> for a separator of one byte.\<close>

fun index_byte :: "char \<Rightarrow> gostring \<Rightarrow> nat option" where
  "index_byte c [] = None"
| "index_byte c (d # s) = (if c = d then Some 0 else map_option Suc (index_byte c s))"

lemma index_byte_None [simp]: "index_byte c s = None \<longleftrightarrow> c \<notin> set s"
  by (induction s) auto

lemma index_byte_absent: "c \<notin> set s \<Longrightarrow> index_byte c s = None"
  by simp

lemma index_byte_first: "c \<notin> set a \<Longrightarrow> index_byte c (a @ c # s) = Some (length a)"
  by (induction a) auto

lemma index_byte_Some:
  "index_byte c s = Some i \<Longrightarrow> i < length s \<and> s = take i s @ c # drop (Suc i) s \<and> c \<notin> set (take i s)"
  by (induction s arbitrary: i) (auto split: if_splits)

text \<open>A plain byte is an ASCII character that is not white space.\<close>

definition plain_char :: "char \<Rightarrow> bool" where
  "plain_char c \<longleftrightarrow> code c < 128 \<and> \<not> unicode_IsSpace (code c)"

definition plain_word :: "gostring \<Rightarrow> bool" where
  "plain_word w \<longleftrightarrow> w \<noteq> [] \<and> list_all plain_char w"

lemma fields_acc_space: "fields_acc cur (CHR '' '' # s) = (if cur = [] then [] else [rev cur]) @ fields_acc [] s"
  by (simp add: unicode_IsSpace_def)

lemma fields_acc_spaces: "fields_acc [] (replicate n (CHR '' '') @ s) = fields_acc [] s"
  by (induction n) (simp_all add: fields_acc_space del: fields_acc.simps(2))

lemma fields_acc_plain: "list_all plain_char w \<Longrightarrow> fields_acc cur (w @ s) = fields_acc (rev w @ cur) s"
  by (induction w arbitrary: cur) (auto simp: plain_char_def simp del: DecodeRune.simps)

text \<open>A line of fields: each word after some spaces.\<close>

fun spaced :: "(nat \<times> gostring) list \<Rightarrow> gostring" where
  "spaced [] = []"
| "spaced ((n, w) # ws) = replicate n (CHR '' '') @ w @ spaced ws"

lemma length_spaced: "length (spaced ws) = (\<Sum>(n, w)\<leftarrow>ws. n + length w)"
  by (induction ws rule: spaced.induct) auto

lemma spaced_start: "ws = [] \<or> (\<exists>n w ws'. ws = (Suc n, w) # ws') \<Longrightarrow> cur \<noteq> [] \<Longrightarrow>
    fields_acc cur (spaced ws) = rev cur # fields_acc [] (spaced ws)"
  by (auto simp: fields_acc_space simp del: fields_acc.simps(2))

lemma Fields_spaced:
  "list_all (plain_word \<circ> snd) ws \<Longrightarrow> list_all (\<lambda>(n, w). 0 < n) (tl ws) \<Longrightarrow>
   strings_Fields (spaced ws) = map snd ws"
proof (induction ws)
  case Nil
  then show ?case by (simp add: strings_Fields_def)
next
  case (Cons p ws)
  obtain n w where p: "p = (n, w)" by (cases p)
  have w: "w \<noteq> []" "list_all plain_char w" using Cons.prems by (auto simp: p plain_word_def)
  have "ws = [] \<or> (\<exists>n w ws'. ws = (Suc n, w) # ws')"
    using Cons.prems(2) by (cases ws) (auto simp: gr0_conv_Suc)
  then have "fields_acc (rev w @ []) (spaced ws) = w # fields_acc [] (spaced ws)"
    using spaced_start [of ws "rev w"] w by simp
  moreover have "list_all (\<lambda>(n, w). 0 < n) (tl ws)" using Cons.prems(2) by (cases ws) auto
  ultimately show ?case using Cons.IH Cons.prems(1) w
    by (simp add: p strings_Fields_def fields_acc_spaces fields_acc_plain)
qed

lemma Fields_spaced_padded:
  assumes "list_all (plain_word \<circ> snd) ws" "list_all (\<lambda>(n, w). 0 < n) (tl ws)"
  shows "strings_Fields (spaced ws @ replicate k (CHR '' '')) = map snd ws"
proof -
  have "fields_acc cur (s @ replicate k (CHR '' '')) = fields_acc cur s" if "list_all (\<lambda>c. code c < 128) s" for cur s
    using that
  proof (induction s arbitrary: cur)
    case Nil
    then show ?case using fields_acc_spaces [of k "[]"]
      by (cases k) (simp_all add: fields_acc_space del: fields_acc.simps(2))
  next
    case (Cons c s)
    then show ?case by (simp del: DecodeRune.simps)
  qed
  moreover have "list_all (\<lambda>c. code c < 128) (spaced ws)"
    using assms(1) by (induction ws) (auto simp: plain_word_def plain_char_def list_all_iff)
  ultimately show ?thesis using Fields_spaced [OF assms] by (simp add: strings_Fields_def)
qed

lemma plain_not: "plain_char c \<Longrightarrow> unicode_IsSpace (code d) \<Longrightarrow> c \<noteq> d"
  by (auto simp: plain_char_def)

section \<open>The line scanner\<close>

definition MaxScanTokenSize :: nat where
  "MaxScanTokenSize = 65536"

definition newline :: char where "newline = byte 10"

definition dropCR :: "gostring \<Rightarrow> gostring" where
  "dropCR s = (if s \<noteq> [] \<and> last s = byte 13 then butlast s else s)"

text \<open>\<open>bufio.ScanLines\<close>: how far to advance and the line; \<open>None\<close> asks for more data.\<close>

definition ScanLines :: "gostring \<Rightarrow> bool \<Rightarrow> (nat \<times> gostring) option" where
  "ScanLines data atEOF =
     (if atEOF \<and> data = [] then None
      else case index_byte newline data of
        Some i \<Rightarrow> Some (i + 1, dropCR (take i data))
      | None \<Rightarrow> if atEOF then Some (length data, dropCR data) else None)"

datatype scan_error = ScanIO ioerr | ErrTooLong

text \<open>
  A scanner: the data not consumed yet, the error that reading it ends with, and the
  error met.  A line that does not fit the buffer is an error; what the buffer holds then
  is still delivered if \<open>Scan\<close> is called again.
\<close>

record scanner =
  sc_data :: gostring
  sc_fin :: ioerr
  sc_err :: "scan_error option"

definition NewScanner :: "reader \<Rightarrow> scanner" where
  "NewScanner r = \<lparr>sc_data = content r, sc_fin = final_err r, sc_err = None\<rparr>"

definition scan_at_end :: "scanner \<Rightarrow> gostring option \<times> scanner" where
  "scan_at_end s =
     (case ScanLines (sc_data s) True of
        Some (n, line) \<Rightarrow> (Some line, s\<lparr>sc_data := drop n (sc_data s)\<rparr>)
      | None \<Rightarrow> (None, s\<lparr>sc_data := []\<rparr>))"

definition Scan :: "scanner \<Rightarrow> gostring option \<times> scanner" where
  "Scan s =
     (case sc_err s of
        Some e \<Rightarrow> scan_at_end s
      | None \<Rightarrow>
          (case ScanLines (take MaxScanTokenSize (sc_data s)) False of
             Some (n, line) \<Rightarrow> (Some line, s\<lparr>sc_data := drop n (sc_data s)\<rparr>)
           | None \<Rightarrow>
               if MaxScanTokenSize \<le> length (sc_data s)
               then (None, s\<lparr>sc_data := take MaxScanTokenSize (sc_data s), sc_err := Some ErrTooLong\<rparr>)
               else scan_at_end (s\<lparr>sc_err := Some (ScanIO (sc_fin s))\<rparr>)))"

definition Scanner_Err :: "scanner \<Rightarrow> scan_error option" where
  "Scanner_Err s = (if sc_err s = Some (ScanIO EOF) then None else sc_err s)"

lemma ScanLines_advance: "ScanLines data b = Some (n, line) \<Longrightarrow> 0 < n \<and> n \<le> length data"
  by (auto simp: ScanLines_def dest: index_byte_Some split: if_splits option.splits)

lemma Scan_shorter: "Scan s = (Some line, s') \<Longrightarrow> length (sc_data s') < length (sc_data s)"
  by (fastforce simp: Scan_def scan_at_end_def dest: ScanLines_advance split: option.splits if_splits)

text \<open>Text of short lines is scanned line by line, then ends without an error.\<close>

definition fits :: "gostring \<Rightarrow> bool" where
  "fits l \<longleftrightarrow> newline \<notin> set l \<and> byte 13 \<notin> set l \<and> length l < MaxScanTokenSize"

lemma fits_codes: "list_all (\<lambda>c. code c \<noteq> 10 \<and> code c \<noteq> 13) l \<Longrightarrow> length l < MaxScanTokenSize \<Longrightarrow> fits l"
  by (auto simp: fits_def MaxScanTokenSize_def newline_def list_all_iff)

definition unlines :: "gostring list \<Rightarrow> gostring" where
  "unlines ls = concat (map (\<lambda>l. l @ [newline]) ls)"

definition text_scanner :: "gostring \<Rightarrow> scanner" where
  "text_scanner s = \<lparr>sc_data = s, sc_fin = EOF, sc_err = None\<rparr>"

lemma dropCR_fits: "fits l \<Longrightarrow> dropCR l = l"
  by (metis dropCR_def fits_def last_in_set)

lemma Scan_line:
  assumes "fits l"
  shows "Scan (text_scanner (l @ newline # s)) = (Some l, text_scanner s)"
proof -
  have l: "length l < MaxScanTokenSize" "newline \<notin> set l" using assms by (auto simp: fits_def)
  then have t: "take MaxScanTokenSize (l @ newline # s) = l @ newline # take (MaxScanTokenSize - Suc (length l)) s"
    by (simp add: Suc_diff_Suc [symmetric] del: Suc_diff_Suc)
  have "ScanLines (l @ newline # take (MaxScanTokenSize - Suc (length l)) s) False = Some (length l + 1, l)"
    using index_byte_first [OF l(2)] by (simp add: ScanLines_def dropCR_fits [OF assms])
  with t show ?thesis by (simp add: Scan_def text_scanner_def)
qed

lemma Scan_end: "Scan (text_scanner []) = (None, \<lparr>sc_data = [], sc_fin = EOF, sc_err = Some (ScanIO EOF)\<rparr>)"
  by (simp add: Scan_def text_scanner_def ScanLines_def scan_at_end_def MaxScanTokenSize_def)

lemma Scanner_Err_EOF [simp]: "Scanner_Err \<lparr>sc_data = [], sc_fin = EOF, sc_err = Some (ScanIO EOF)\<rparr> = None"
  by (simp add: Scanner_Err_def)

end
