(* ===== verification/GoBytes.thy ===== *)
theory GoBytes
  imports Prelude
begin

text \<open>
  The little-endian integers of \<open>encoding/binary\<close>, which are also how the program's
  machines keep their words in memory: four bytes of a number, and the number of four bytes.
\<close>

text \<open>\<open>binary.LittleEndian.PutUint32\<close>.\<close>

definition le32 :: "nat \<Rightarrow> gostring" where
  "le32 v = [byte (v mod 256), byte (v div 256 mod 256), byte (v div 65536 mod 256), byte (v div 16777216 mod 256)]"

definition le32_value :: "gostring \<Rightarrow> nat" where
  "le32_value s = code (s ! 0) + code (s ! 1) * 256 + code (s ! 2) * 65536 + code (s ! 3) * 16777216"

lemma length_le32 [simp]: "length (le32 v) = 4"
  by (simp add: le32_def)

lemma base256: "a < 256 \<Longrightarrow> (a + 256 * x) mod 256 = a" "a < 256 \<Longrightarrow> (a + 256 * x) div 256 = x" for a x :: nat
  by simp_all

lemma digits256:
  fixes a b c d :: nat
  assumes "a < 256" "b < 256" "c < 256" "d < 256"
  defines "v \<equiv> a + b * 256 + c * 65536 + d * 16777216"
  shows "v mod 256 = a" "v div 256 mod 256 = b" "v div 65536 mod 256 = c" "v div 16777216 mod 256 = d" "v < 4294967296"
proof -
  define y where "y = c + 256 * d"
  define x where "x = b + 256 * y"
  have v: "v = a + 256 * x" by (simp add: v_def x_def y_def)
  have 1: "v div 256 = x" unfolding v by (rule base256) fact
  have "v div 65536 = v div 256 div 256" by (simp add: div_mult2_eq [symmetric])
  also have "\<dots> = y" unfolding 1 x_def by (rule base256) fact
  finally have 2: "v div 65536 = y" .
  have "v div 16777216 = v div 65536 div 256" by (simp add: div_mult2_eq [symmetric])
  also have "\<dots> = d" unfolding 2 y_def by (rule base256) fact
  finally have 3: "v div 16777216 = d" .
  show "v mod 256 = a" unfolding v by (rule base256) fact
  show "v div 256 mod 256 = b" unfolding 1 x_def by (rule base256) fact
  show "v div 65536 mod 256 = c" unfolding 2 y_def by (rule base256) fact
  show "v div 16777216 mod 256 = d" unfolding 3 using assms(4) by simp
  show "v < 4294967296" using assms by simp
qed

lemma le32_bytes: "le32 (code a + code b * 256 + code c * 65536 + code d * 16777216) = [a, b, c, d]"
  unfolding le32_def using code_less_256 [of a] code_less_256 [of b] code_less_256 [of c] code_less_256 [of d]
  by (simp only: digits256 char_of_char)

lemma le32_value_list: "le32_value (a # b # c # d # s) = code a + code b * 256 + code c * 65536 + code d * 16777216"
  by (simp add: le32_value_def)

lemma le32_value_lt: "le32_value (a # b # c # d # s) < 4294967296"
  unfolding le32_value_list by (rule digits256) simp_all

lemma le32_le32_value: "le32 (le32_value (a # b # c # d # s)) = [a, b, c, d]"
  by (simp only: le32_value_list le32_bytes)

lemma le32_value_le32:
  assumes "v < 4294967296"
  shows "le32_value (le32 v @ s) = v"
proof -
  define a where "a = v mod 256"
  define b where "b = v div 256 mod 256"
  define c where "c = v div 256 div 256 mod 256"
  define d where "d = v div 256 div 256 div 256"
  have d: "d < 256" using assms by (simp add: d_def div_mult2_eq [symmetric])
  have "v = v div 256 * 256 + a" "v div 256 = v div 256 div 256 * 256 + b" "v div 256 div 256 = d * 256 + c"
    unfolding a_def b_def c_def d_def by (simp_all only: div_mult_mod_eq)
  then have v: "v = a + b * 256 + c * 65536 + d * 16777216" by linarith
  have lt: "a < 256" "b < 256" "c < 256" by (simp_all add: a_def b_def c_def)
  have "le32 v = [byte a, byte b, byte c, byte d]"
    unfolding le32_def v digits256(1-4) [OF lt d] ..
  then show ?thesis using lt d by (simp add: le32_value_def v [symmetric])
qed

end
