(* ===== verification/NetstatLinux.thy ===== *)
theory NetstatLinux
  imports Netstat GoText GoBytes
begin

text \<open>
  \<open>netstat/netstat_linux.go\<close>: parsing addresses and lines of \<open>/proc/net/{tcp,tcp6,udp,udp6}\<close>,
  the two parsers of a whole table, and the functions the package provides on Linux.  A file
  is a reader or, when it cannot be opened, \<open>None\<close>.  Slicing out of range panics, so the
  parsers have an outcome; the lemmas show that they always return.
\<close>

section \<open>Constants\<close>

definition pathTCPTab :: gostring where "pathTCPTab = ''/proc/net/tcp''"
definition pathTCP6Tab :: gostring where "pathTCP6Tab = ''/proc/net/tcp6''"
definition pathUDPTab :: gostring where "pathUDPTab = ''/proc/net/udp''"
definition pathUDP6Tab :: gostring where "pathUDP6Tab = ''/proc/net/udp6''"

definition ipv4StrLen :: nat where "ipv4StrLen = 8"
definition ipv6StrLen :: nat where "ipv6StrLen = 32"

text \<open>The states' numbers; the others are the positions of their names.\<close>

definition Established :: u8 where "Established = 1"
definition Listen :: u8 where "Listen = 10"
definition Closing :: u8 where "Closing = 11"

definition skStates :: "gostring list" where
  "skStates = [''UNKNOWN'', ''ESTABLISHED'', ''SYN_SENT'', ''SYN_RECV'', ''FIN_WAIT1'', ''FIN_WAIT2'',
     ''TIME_WAIT'', [], ''CLOSE_WAIT'', ''LAST_ACK'', ''LISTEN'', ''CLOSING'']"

section \<open>Addresses\<close>

datatype proc_error = OpenFails | NotEnoughFields | BadFormat | NumError | ScanFails scan_error | UnknownMode

definition parseIPv4 :: "gostring \<Rightarrow> proc_error + gostring" where
  "parseIPv4 s = (case strconv_ParseUint s 16 32 of None \<Rightarrow> Inl NumError | Some v \<Rightarrow> Inr (le32 v))"

text \<open>
  The loop over groups of eight digits: \<open>s[0:8]\<close> panics on a shorter rest, \<open>ip[i:j]\<close> beyond
  sixteen bytes.
\<close>

function parseIPv6_loop :: "nat \<Rightarrow> gostring \<Rightarrow> gostring \<Rightarrow> (proc_error + gostring) outcome" where
  "parseIPv6_loop i ip s =
     (if s = [] then Returns (Inr ip)
      else if length s < 8 then Panics
      else case strconv_ParseUint (take 8 s) 16 32 of
        None \<Rightarrow> Returns (Inl NumError)
      | Some u \<Rightarrow>
          if length ip < i + 4 then Panics
          else parseIPv6_loop (i + 4) (take i ip @ le32 u @ drop (i + 4) ip) (drop 8 s))"
  by pat_completeness auto
termination
  by (relation "measure (\<lambda>(i, ip, s). length s)") auto

declare parseIPv6_loop.simps [simp del]

definition parseIPv6 :: "gostring \<Rightarrow> (proc_error + gostring) outcome" where
  "parseIPv6 s = parseIPv6_loop 0 (replicate 16 (byte 0)) s"

definition parseAddr :: "gostring \<Rightarrow> (proc_error + SockAddr) outcome" where
  "parseAddr s =
     (let fields = strings_Split s '':'' in
      if length fields < 2 then Returns (Inl NotEnoughFields)
      else case (if length (fields ! 0) = ipv4StrLen then Returns (parseIPv4 (fields ! 0))
                 else if length (fields ! 0) = ipv6StrLen then parseIPv6 (fields ! 0)
                 else Returns (Inl BadFormat)) of
        Returns (Inr ip) \<Rightarrow>
          (case strconv_ParseUint (fields ! 1) 16 16 of
             None \<Rightarrow> Returns (Inl NumError)
           | Some v \<Rightarrow> Returns (Inr \<lparr>sa_IP = ip, sa_Port = of_nat v\<rparr>))
      | Returns (Inl err) \<Rightarrow> Returns (Inl err)
      | Panics \<Rightarrow> Panics
      | Blocks \<Rightarrow> Blocks)"

definition parsePort :: "gostring \<Rightarrow> proc_error + u16" where
  "parsePort s =
     (let fields = strings_Split s '':'' in
      if length fields < 2 then Inl NotEnoughFields
      else case strconv_ParseUint (fields ! 1) 16 16 of
        None \<Rightarrow> Inl NumError
      | Some v \<Rightarrow> Inr (of_nat v))"

section \<open>Tables\<close>

text \<open>The fields of a line, what follows a number sign left out.\<close>

definition line_fields :: "gostring \<Rightarrow> gostring list" where
  "line_fields line =
     strings_Fields (case index_byte (CHR ''#'') line of Some i \<Rightarrow> take i line | None \<Rightarrow> line)"

definition sock_line :: "gostring \<Rightarrow> (proc_error + SockTabEntry) outcome" where
  "sock_line line =
     (let fields = line_fields line in
      if length fields < 12 then Returns (Inl NotEnoughFields)
      else case parseAddr (fields ! 1) of
        Panics \<Rightarrow> Panics | Blocks \<Rightarrow> Blocks
      | Returns (Inl err) \<Rightarrow> Returns (Inl err)
      | Returns (Inr local) \<Rightarrow>
        (case parseAddr (fields ! 2) of
           Panics \<Rightarrow> Panics | Blocks \<Rightarrow> Blocks
         | Returns (Inl err) \<Rightarrow> Returns (Inl err)
         | Returns (Inr remote) \<Rightarrow>
           (case strconv_ParseUint (fields ! 3) 16 8 of
              None \<Rightarrow> Returns (Inl NumError)
            | Some st \<Rightarrow>
              (case strconv_ParseUint (fields ! 7) 10 32 of
                 None \<Rightarrow> Returns (Inl NumError)
               | Some uid \<Rightarrow> Returns (Inr
                   \<lparr>ste_ino = fields ! 9, ste_LocalAddr = local, ste_RemoteAddr = remote,
                    ste_State = of_nat st, ste_UID = of_nat uid, ste_Process = None\<rparr>)))))"

definition scan_result :: "'a \<Rightarrow> scanner \<Rightarrow> proc_error + 'a" where
  "scan_result x br = (case Scanner_Err br of None \<Rightarrow> Inr x | Some e \<Rightarrow> Inl (ScanFails e))"

text \<open>
  The loops of the two parsers.  With the error of the scanner the code also returns what it
  has; both callers drop it.
\<close>

function ParseSocktab_loop ::
  "AcceptFn \<Rightarrow> scanner \<Rightarrow> SockTabEntry list \<Rightarrow> (proc_error + SockTabEntry list) outcome" where
  "ParseSocktab_loop accept br tab =
     (case Scan br of
        (None, br') \<Rightarrow> Returns (scan_result tab br')
      | (Some line, br') \<Rightarrow>
          (case sock_line line of
             Panics \<Rightarrow> Panics | Blocks \<Rightarrow> Blocks
           | Returns (Inl err) \<Rightarrow> Returns (Inl err)
           | Returns (Inr e) \<Rightarrow> ParseSocktab_loop accept br' (if accept e then tab @ [e] else tab)))"
  by pat_completeness auto
termination
  by (relation "measure (\<lambda>(accept, br, tab). length (sc_data br))") (auto dest: Scan_shorter [OF sym])

declare ParseSocktab_loop.simps [simp del]

definition ParseSocktab :: "reader \<Rightarrow> AcceptFn \<Rightarrow> (proc_error + SockTabEntry list) outcome" where
  "ParseSocktab r accept = ParseSocktab_loop accept (snd (Scan (NewScanner r))) []"

definition port_line :: "gostring \<Rightarrow> proc_error + u16" where
  "port_line line =
     (let fields = line_fields line in
      if length fields < 12 then Inl NotEnoughFields else parsePort (fields ! 1))"

function ParseSockPort_loop :: "scanner \<Rightarrow> u16 list \<Rightarrow> proc_error + u16 list" where
  "ParseSockPort_loop br ports =
     (case Scan br of
        (None, br') \<Rightarrow> scan_result ports br'
      | (Some line, br') \<Rightarrow>
          (case port_line line of
             Inl err \<Rightarrow> Inl err
           | Inr port \<Rightarrow> ParseSockPort_loop br' (ports @ [port])))"
  by pat_completeness auto
termination
  by (relation "measure (\<lambda>(br, ports). length (sc_data br))") (auto dest: Scan_shorter [OF sym])

declare ParseSockPort_loop.simps [simp del]

text \<open>The filter is an argument of \<open>ParseSockPort\<close> but not used.\<close>

definition ParseSockPort :: "reader \<Rightarrow> AcceptFn \<Rightarrow> proc_error + u16 list" where
  "ParseSockPort r accept = ParseSockPort_loop (snd (Scan (NewScanner r))) []"

section \<open>The functions of the system\<close>

type_synonym proc_files = "gostring \<Rightarrow> reader option"

definition DoNetstat :: "proc_files \<Rightarrow> gostring \<Rightarrow> AcceptFn \<Rightarrow> (proc_error + SockTabEntry list) outcome" where
  "DoNetstat open_file path fn =
     (case open_file path of None \<Rightarrow> Returns (Inl OpenFails) | Some f \<Rightarrow> ParseSocktab f fn)"

definition ListPorts :: "proc_files \<Rightarrow> gostring \<Rightarrow> AcceptFn \<Rightarrow> (proc_error + u16 list) outcome" where
  "ListPorts open_file path fn =
     (case open_file path of None \<Rightarrow> Returns (Inl OpenFails) | Some f \<Rightarrow> Returns (ParseSockPort f fn))"

definition linux_osPorts :: "proc_files \<Rightarrow> gostring \<Rightarrow> AcceptFn \<Rightarrow> (proc_error + u16 list) outcome" where
  "linux_osPorts open_file mode accept =
     (if mode = ''tcp'' then ListPorts open_file pathTCPTab accept
      else if mode = ''tcp6'' then ListPorts open_file pathTCP6Tab accept
      else if mode = ''udp'' then ListPorts open_file pathUDPTab accept
      else if mode = ''udp6'' then ListPorts open_file pathUDP6Tab accept
      else Returns (Inl UnknownMode))"

definition linux_osSocks :: "proc_files \<Rightarrow> gostring \<Rightarrow> AcceptFn \<Rightarrow> (proc_error + SockTabEntry list) outcome" where
  "linux_osSocks open_file mode accept =
     (if mode = ''tcp'' then DoNetstat open_file pathTCPTab accept
      else if mode = ''tcp6'' then DoNetstat open_file pathTCP6Tab accept
      else if mode = ''udp'' then DoNetstat open_file pathUDPTab accept
      else if mode = ''udp6'' then DoNetstat open_file pathUDP6Tab accept
      else Returns (Inl UnknownMode))"

definition linux_api :: "proc_files \<Rightarrow> proc_error os_api" where
  "linux_api open_file =
     \<lparr>osTCPSocks = DoNetstat open_file pathTCPTab, osTCP6Socks = DoNetstat open_file pathTCP6Tab,
      osUDPSocks = DoNetstat open_file pathUDPTab, osUDP6Socks = DoNetstat open_file pathUDP6Tab,
      osSocks = linux_osSocks open_file, osPorts = linux_osPorts open_file\<rparr>"

section \<open>The parsers return\<close>

lemma parseIPv6_loop_returns:
  "length s = 8 * n \<Longrightarrow> length ip = i + 4 * n \<Longrightarrow> \<exists>r. parseIPv6_loop i ip s = Returns r"
proof (induction n arbitrary: i ip s)
  case 0
  then show ?case by (simp add: parseIPv6_loop.simps)
next
  case (Suc n)
  have "\<exists>r. parseIPv6_loop (i + 4) (take i ip @ le32 u @ drop (i + 4) ip) (drop 8 s) = Returns r" for u
    using Suc.prems by (intro Suc.IH) auto
  then show ?case using Suc.prems by (subst parseIPv6_loop.simps) (auto split: option.split)
qed

lemma parseIPv6_returns: "length s = ipv6StrLen \<Longrightarrow> \<exists>r. parseIPv6 s = Returns r"
  unfolding parseIPv6_def by (rule parseIPv6_loop_returns [of s 4]) (simp_all add: ipv6StrLen_def)

lemma parseAddr_returns: "\<exists>r. parseAddr s = Returns r"
proof -
  let ?f = "strings_Split s '':'' ! 0"
  have "\<exists>r. parseIPv6 ?f = Returns r" if "length ?f = ipv6StrLen" using that by (rule parseIPv6_returns)
  then show ?thesis
    by (auto simp: parseAddr_def Let_def split: sum.split option.split if_splits)
qed

lemma sock_line_returns: "\<exists>r. sock_line line = Returns r"
proof -
  obtain a b where a: "parseAddr (line_fields line ! 1) = Returns a" "parseAddr (line_fields line ! 2) = Returns b"
    using parseAddr_returns by metis
  then show ?thesis by (auto simp: sock_line_def Let_def split: sum.split option.split)
qed

lemma ParseSocktab_loop_returns: "\<exists>r. ParseSocktab_loop accept br tab = Returns r"
proof (induction accept br tab rule: ParseSocktab_loop.induct)
  case (1 accept br tab)
  show ?case
  proof (cases "Scan br")
    case (Pair l br')
    show ?thesis
    proof (cases l)
      case None
      with Pair show ?thesis by (simp add: ParseSocktab_loop.simps)
    next
      case (Some line)
      obtain r where r: "sock_line line = Returns r" using sock_line_returns by blast
      show ?thesis
      proof (cases r)
        case (Inl e)
        with Pair Some r show ?thesis by (simp add: ParseSocktab_loop.simps)
      next
        case (Inr e)
        with "1.IH" [OF Pair [symmetric] Some r Inr] Pair Some r show ?thesis
          by (subst ParseSocktab_loop.simps) simp
      qed
    qed
  qed
qed

end
