(* ===== verification/NetstatLinuxLaws.thy ===== *)
theory NetstatLinuxLaws
  imports NetstatLinux
begin

text \<open>
  The laws of the Linux socket tables: the two parsers agree, filtering commutes with
  parsing, the system's functions satisfy the interface \<open>socket_tables\<close>, and the parsers
  invert the text the kernel prints.
\<close>

section \<open>The parsers agree\<close>

lemma parsePort_parseAddr: "parseAddr s = Returns (Inr a) \<Longrightarrow> parsePort s = Inr (sa_Port a)"
  by (auto simp: parseAddr_def parsePort_def Let_def split: if_splits outcome.splits sum.splits option.splits)

lemma port_line_sock_line: "sock_line line = Returns (Inr e) \<Longrightarrow> port_line line = Inr (SockPort e)"
  by (auto simp: sock_line_def port_line_def Let_def SockPort_def parsePort_parseAddr
      split: if_splits outcome.splits sum.splits option.splits)

lemma scan_result_Inr: "scan_result x br = Inr y \<longleftrightarrow> x = y \<and> Scanner_Err br = None"
  by (auto simp: scan_result_def split: option.splits)

lemma ParseSocktab_loop_step:
  "ParseSocktab_loop accept br tab = Returns (Inr es) \<longleftrightarrow>
   (case Scan br of
      (None, br') \<Rightarrow> es = tab \<and> Scanner_Err br' = None
    | (Some line, br') \<Rightarrow> (\<exists>e. sock_line line = Returns (Inr e) \<and>
        ParseSocktab_loop accept br' (if accept e then tab @ [e] else tab) = Returns (Inr es)))"
  by (subst ParseSocktab_loop.simps)
    (auto simp: scan_result_Inr split: prod.splits option.splits outcome.splits sum.splits)

text \<open>What a successful unfiltered parse says about every other parse of the same text.\<close>

lemma ParseSocktab_loop_agree:
  "ParseSocktab_loop NoopFilter br tab = Returns (Inr es) \<Longrightarrow>
   ParseSocktab_loop accept br (filter accept tab) = Returns (Inr (filter accept es)) \<and>
   ParseSockPort_loop br (map SockPort tab) = Inr (map SockPort es)"
proof (induction NoopFilter br tab rule: ParseSocktab_loop.induct)
  case (1 br tab)
  show ?case
  proof (cases "Scan br")
    case (Pair l br')
    show ?thesis
    proof (cases l)
      case None
      with Pair "1.prems" show ?thesis
        by (subst ParseSockPort_loop.simps) (auto simp: ParseSocktab_loop_step scan_result_Inr)
    next
      case (Some line)
      with Pair "1.prems" obtain e where e: "sock_line line = Returns (Inr e)"
        "ParseSocktab_loop NoopFilter br' (tab @ [e]) = Returns (Inr es)"
        by (auto simp: ParseSocktab_loop_step [of NoopFilter br] NoopFilter_def)
      have "ParseSocktab_loop accept br' (filter accept (tab @ [e])) = Returns (Inr (filter accept es)) \<and>
          ParseSockPort_loop br' (map SockPort (tab @ [e])) = Inr (map SockPort es)"
        using "1.hyps" [OF Pair [symmetric] Some e(1) refl] e(2) by (simp add: NoopFilter_def)
      with Pair Some e(1) port_line_sock_line [OF e(1)] show ?thesis
        by (subst ParseSockPort_loop.simps) (auto simp: ParseSocktab_loop_step [of accept br])
    qed
  qed
qed

lemma ParseSocktab_agree:
  assumes "ParseSocktab r NoopFilter = Returns (Inr es)"
  shows "ParseSocktab r accept = Returns (Inr (filter accept es))"
    "ParseSockPort r accept = Inr (map SockPort es)"
  using ParseSocktab_loop_agree [of _ "[]" es accept] assms by (simp_all add: ParseSocktab_def ParseSockPort_def)

lemma DoNetstat_agree:
  assumes "DoNetstat open_file path NoopFilter = Returns (Inr es)"
  shows "DoNetstat open_file path accept = Returns (Inr (filter accept es))"
    "ListPorts open_file path accept = Returns (Inr (map SockPort es))"
  using assms ParseSocktab_agree
  by (auto simp: DoNetstat_def ListPorts_def split: option.splits)

interpretation linux: socket_tables "linux_api open_file" for open_file
proof unfold_locales
  fix mode es
  assume "osSocks (linux_api open_file) mode NoopFilter = Returns (Inr es)"
  then have m: "linux_osSocks open_file mode NoopFilter = Returns (Inr es)" by (simp add: linux_api_def)
  show "osSocks (linux_api open_file) mode accept = Returns (Inr (filter accept es))" for accept
    using m by (auto simp: linux_api_def linux_osSocks_def intro: DoNetstat_agree split: if_splits)
  have "linux_osPorts open_file mode NoopFilter = Returns (Inr (map SockPort es))"
    using m by (auto simp: linux_osSocks_def linux_osPorts_def intro: DoNetstat_agree split: if_splits)
  then show "\<exists>ps. osPorts (linux_api open_file) mode NoopFilter = Returns (Inr ps) \<and> set ps = SockPort ` set es"
    by (simp add: linux_api_def)
qed (auto simp: linux_api_def linux_osSocks_def linux_osPorts_def all_modes_def)

section \<open>The kernel's text\<close>

text \<open>The \<open>%0nX\<close> of the kernel.\<close>

definition upper_hex_digit :: "nat \<Rightarrow> char" where
  "upper_hex_digit d = (if d < 10 then byte (48 + d) else byte (55 + d))"

fun hex_fixed :: "nat \<Rightarrow> nat \<Rightarrow> gostring" where
  "hex_fixed 0 v = []"
| "hex_fixed (Suc k) v = hex_fixed k (v div 16) @ [upper_hex_digit (v mod 16)]"

text \<open>An address: each group of four bytes read as one little-endian number.\<close>

fun hex_ip :: "gostring \<Rightarrow> gostring" where
  "hex_ip (a # b # c # d # s) =
     hex_fixed 8 (code a + code b * 256 + code c * 65536 + code d * 16777216) @ hex_ip s"
| "hex_ip s = []"

definition proc_addr :: "SockAddr \<Rightarrow> gostring" where
  "proc_addr a = hex_ip (sa_IP a) @ '':'' @ hex_fixed 4 (unat (sa_Port a))"

text \<open>The fields of a line, given the ones the parser does not look at.\<close>

definition proc_fields :: "SockTabEntry \<Rightarrow> gostring list \<Rightarrow> gostring list" where
  "proc_fields e ws =
     [ws ! 0, proc_addr (ste_LocalAddr e), proc_addr (ste_RemoteAddr e), hex_fixed 2 (unat (ste_State e)),
      ws ! 1, ws ! 2, ws ! 3, show_nat (unat (ste_UID e)), ws ! 4, ste_ino e] @ drop 5 ws"

record proc_row =
  row_entry :: SockTabEntry
  row_others :: "gostring list"
  row_pads :: "nat list"
  row_trail :: nat

definition row_text :: "proc_row \<Rightarrow> gostring" where
  "row_text r = spaced (zip (row_pads r) (proc_fields (row_entry r) (row_others r))) @ replicate (row_trail r) (CHR '' '')"

definition field_word :: "gostring \<Rightarrow> bool" where
  "field_word w \<longleftrightarrow> plain_word w \<and> CHR ''#'' \<notin> set w"

definition addr_ok :: "SockAddr \<Rightarrow> bool" where
  "addr_ok a \<longleftrightarrow> length (sa_IP a) = 4 \<or> length (sa_IP a) = 16"

definition row_ok :: "proc_row \<Rightarrow> bool" where
  "row_ok r \<longleftrightarrow>
     addr_ok (ste_LocalAddr (row_entry r)) \<and> addr_ok (ste_RemoteAddr (row_entry r)) \<and>
     ste_Process (row_entry r) = None \<and> field_word (ste_ino (row_entry r)) \<and>
     7 \<le> length (row_others r) \<and> list_all field_word (row_others r) \<and>
     length (row_pads r) = length (row_others r) + 5 \<and> list_all (\<lambda>n. 0 < n) (tl (row_pads r)) \<and>
     length (row_text r) < MaxScanTokenSize"

section \<open>Parsing inverts printing\<close>

lemma upper_hex_digit:
  assumes "d < 16"
  shows "digit_val (upper_hex_digit d) = Some d" "plain_char (upper_hex_digit d)"
    "upper_hex_digit d \<noteq> CHR ''#''" "upper_hex_digit d \<noteq> CHR '':''"
proof -
  have c: "code (upper_hex_digit d) = (if d < 10 then 48 + d else 55 + d)"
    using assms by (simp add: upper_hex_digit_def)
  then show "digit_val (upper_hex_digit d) = Some d" "plain_char (upper_hex_digit d)"
    using assms by (auto simp: digit_val_def plain_char_def unicode_IsSpace_def)
  have "code (upper_hex_digit d) \<noteq> code (CHR ''#'')" "code (upper_hex_digit d) \<noteq> code (CHR '':'')"
    using assms by (auto simp: c)
  then show "upper_hex_digit d \<noteq> CHR ''#''" "upper_hex_digit d \<noteq> CHR '':''" by auto
qed

lemma length_hex_fixed [simp]: "length (hex_fixed k v) = k"
  by (induction k arbitrary: v) auto

lemma hex_fixed_Nil [simp]: "hex_fixed k v = [] \<longleftrightarrow> k = 0"
  by (cases k) auto

lemma hex_fixed_chars: "list_all (\<lambda>c. plain_char c \<and> c \<noteq> CHR ''#'' \<and> c \<noteq> CHR '':'') (hex_fixed k v)"
  by (induction k arbitrary: v) (auto simp: upper_hex_digit)

lemma parse_hex_fixed: "parse_digits 16 0 (hex_fixed k v) = Some (v mod 16 ^ k)"
proof (induction k arbitrary: v)
  case 0
  then show ?case by simp
next
  case (Suc k)
  have "v div 16 mod 16 ^ k * 16 + v mod 16 = v mod 16 ^ Suc k"
    using mod_mult2_eq [of v 16 "16 ^ k"] by (simp add: mult.commute)
  then show ?case using Suc by (simp add: parse_digits_append upper_hex_digit)
qed

lemma ParseUint_hex_fixed: "0 < k \<Longrightarrow> v < 16 ^ k \<Longrightarrow> v < 2 ^ bits \<Longrightarrow> strconv_ParseUint (hex_fixed k v) 16 bits = Some v"
  using length_hex_fixed [of k v] by (auto simp: strconv_ParseUint_def parse_hex_fixed simp del: length_hex_fixed)

lemma hex32_bytes:
  "strconv_ParseUint (hex_fixed 8 (code a + code b * 256 + code c * 65536 + code d * 16777216)) 16 32 =
   Some (code a + code b * 256 + code c * 65536 + code d * 16777216)"
  using digits256(5) [of "code a" "code b" "code c" "code d"] by (intro ParseUint_hex_fixed) simp_all

lemma length_four: "length s = 4 + n \<longleftrightarrow> (\<exists>a b c d t. s = a # b # c # d # t \<and> length t = n)"
  by (auto simp: numeral_eq_Suc length_Suc_conv)

lemma parseIPv4_hex: "length ip = 4 \<Longrightarrow> parseIPv4 (hex_ip ip) = Inr ip"
  using length_four [of ip 0] by (auto simp: parseIPv4_def hex32_bytes le32_bytes)

lemma parseIPv6_loop_hex:
  "length ip = 4 * n \<Longrightarrow> length rest = length ip \<Longrightarrow>
   parseIPv6_loop (length pre) (pre @ rest) (hex_ip ip) = Returns (Inr (pre @ ip))"
proof (induction n arbitrary: ip pre rest)
  case 0
  then show ?case by (simp add: parseIPv6_loop.simps)
next
  case (Suc n)
  then obtain a b c d t where ip: "ip = a # b # c # d # t" "length t = 4 * n"
    using length_four [of ip "4 * n"] by auto
  let ?g = "[a, b, c, d]"
  have "parseIPv6_loop (length (pre @ ?g)) ((pre @ ?g) @ drop 4 rest) (hex_ip t) = Returns (Inr ((pre @ ?g) @ t))"
    using Suc.prems ip by (intro Suc.IH) auto
  then have "parseIPv6_loop (length pre + 4) (pre @ a # b # c # d # drop 4 rest) (hex_ip t) = Returns (Inr (pre @ a # b # c # d # t))"
    by (simp add: numeral_eq_Suc)
  moreover have "hex_ip ip = hex_fixed 8 (code a + code b * 256 + code c * 65536 + code d * 16777216) @ hex_ip t"
    by (simp add: ip(1))
  ultimately show ?case using Suc.prems
    by (subst parseIPv6_loop.simps) (simp add: ip(1) hex32_bytes le32_bytes)
qed

lemma parseIPv6_hex: "length ip = 16 \<Longrightarrow> parseIPv6 (hex_ip ip) = Returns (Inr ip)"
  using parseIPv6_loop_hex [of ip 4 "replicate 16 (byte 0)" "[]"] by (simp add: parseIPv6_def)

lemma length_hex_ip: "length ip = 4 * n \<Longrightarrow> length (hex_ip ip) = 8 * n"
  by (induction n arbitrary: ip) (auto simp: length_four [of _ "4 * _"] simp del: length_greater_0_conv)

lemma hex_ip_chars: "list_all (\<lambda>c. plain_char c \<and> c \<noteq> CHR ''#'' \<and> c \<noteq> CHR '':'') (hex_ip ip)"
  by (induction ip rule: hex_ip.induct) (auto simp: hex_fixed_chars)

lemma parseAddr_proc_addr:
  assumes "addr_ok a"
  shows "parseAddr (proc_addr a) = Returns (Inr a)"
proof -
  let ?h = "hex_ip (sa_IP a)" and ?p = "hex_fixed 4 (unat (sa_Port a))"
  have c: "CHR '':'' \<notin> set ?h" "CHR '':'' \<notin> set ?p"
    using hex_ip_chars [of "sa_IP a"] hex_fixed_chars [of 4 "unat (sa_Port a)"] by (auto simp: list_all_iff)
  have "strings_Split (proc_addr a) '':'' = [?h, ?p]"
    using c by (simp add: proc_addr_def Split_char_step Split_char_absent)
  moreover have "unat (sa_Port a) < 2 ^ LENGTH(16)" by (rule unsigned_less)
  then have "strconv_ParseUint ?p 16 16 = Some (unat (sa_Port a))"
    by (intro ParseUint_hex_fixed) simp_all
  moreover have "length ?h = ipv4StrLen \<longleftrightarrow> length (sa_IP a) = 4" "length ?h = ipv6StrLen \<longleftrightarrow> length (sa_IP a) = 16"
    using assms length_hex_ip [of "sa_IP a" 1] length_hex_ip [of "sa_IP a" 4]
    by (auto simp: addr_ok_def ipv4StrLen_def ipv6StrLen_def)
  ultimately show ?thesis using assms
    by (auto simp: parseAddr_def Let_def addr_ok_def parseIPv4_hex parseIPv6_hex ipv4StrLen_def ipv6StrLen_def)
qed

section \<open>Lines and tables\<close>

lemma field_word_plain: "field_word w \<Longrightarrow> plain_word w"
  by (simp add: field_word_def)

lemma field_word_hex: "0 < k \<Longrightarrow> field_word (hex_fixed k v)"
  using hex_fixed_chars [of k v] by (auto simp: field_word_def plain_word_def list_all_iff)

lemma field_word_addr: "addr_ok a \<Longrightarrow> field_word (proc_addr a)"
  using hex_ip_chars [of "sa_IP a"] hex_fixed_chars [of 4 "unat (sa_Port a)"]
  by (auto simp: field_word_def plain_word_def proc_addr_def list_all_iff plain_char_def unicode_IsSpace_def)

lemma field_word_show_nat: "field_word (show_nat n)"
proof -
  have "plain_char c \<and> c \<noteq> CHR ''#''" if "c \<in> set (show_nat n)" for c
    using show_nat_digits [OF that] by (auto simp: is_digit_def plain_char_def unicode_IsSpace_def)
  then show ?thesis by (auto simp: field_word_def plain_word_def list_all_iff)
qed

lemma proc_fields_words:
  assumes "row_ok r"
  shows "list_all field_word (proc_fields (row_entry r) (row_others r))"
    "length (proc_fields (row_entry r) (row_others r)) = length (row_pads r)"
proof -
  have n: "field_word (row_others r ! i)" if "i < 7" for i
    using assms that by (auto simp: row_ok_def list_all_length)
  have "list_all field_word (drop 5 (row_others r))"
    using assms by (auto simp: row_ok_def list_all_iff dest: in_set_dropD)
  then show "list_all field_word (proc_fields (row_entry r) (row_others r))"
    using assms n by (simp add: proc_fields_def row_ok_def field_word_addr field_word_hex field_word_show_nat)
  show "length (proc_fields (row_entry r) (row_others r)) = length (row_pads r)"
    using assms by (simp add: proc_fields_def row_ok_def)
qed

lemma set_spaced: "set (spaced ws) \<subseteq> insert (CHR '' '') (\<Union>(set ` snd ` set ws))"
  by (induction ws rule: spaced.induct) auto

lemma row_text_chars:
  assumes "row_ok r" "c \<in> set (row_text r)"
  shows "c = CHR '' '' \<or> plain_char c \<and> c \<noteq> CHR ''#''"
proof -
  have "c = CHR '' '' \<or> (\<exists>w\<in>set (proc_fields (row_entry r) (row_others r)). c \<in> set w)"
    using assms(2) set_spaced by (fastforce simp: row_text_def dest: set_zip_rightD)
  then show ?thesis using proc_fields_words(1) [OF assms(1)]
    by (auto simp: list_all_iff field_word_def plain_word_def)
qed

lemma row_text_fits:
  assumes "row_ok r"
  shows "fits (row_text r)"
proof (rule fits_codes)
  have "code c \<noteq> 10 \<and> code c \<noteq> 13" if "c = CHR '' '' \<or> plain_char c" for c
    using that by (auto simp: plain_char_def unicode_IsSpace_def)
  then show "list_all (\<lambda>c. code c \<noteq> 10 \<and> code c \<noteq> 13) (row_text r)"
    using row_text_chars [OF assms] unfolding list_all_iff by blast
qed (use assms in \<open>simp add: row_ok_def\<close>)

lemma tl_zip: "tl (zip xs ys) = zip (tl xs) (tl ys)"
  by (cases xs; cases ys) auto

lemma line_fields_row:
  assumes "row_ok r"
  shows "line_fields (row_text r) = proc_fields (row_entry r) (row_others r)"
proof -
  let ?fs = "proc_fields (row_entry r) (row_others r)"
  note w = proc_fields_words [OF assms]
  have "CHR ''#'' \<notin> set (row_text r)" using row_text_chars [OF assms] by auto
  moreover have "list_all (plain_word \<circ> snd) (zip (row_pads r) ?fs)"
    using w(1) by (auto simp: list_all_iff field_word_plain dest: set_zip_rightD)
  moreover have "list_all (\<lambda>(n, w). 0 < n) (tl (zip (row_pads r) ?fs))"
    using assms by (auto simp: row_ok_def list_all_iff tl_zip dest: set_zip_leftD)
  ultimately have "strings_Fields (row_text r) = ?fs" using Fields_spaced_padded w(2)
    by (simp add: row_text_def)
  moreover have "index_byte (CHR ''#'') (row_text r) = None"
    by (rule index_byte_absent) fact
  ultimately show ?thesis unfolding line_fields_def by (simp only: option.case)
qed

lemma sock_line_row:
  assumes "row_ok r"
  shows "sock_line (row_text r) = Returns (Inr (row_entry r))"
proof -
  let ?e = "row_entry r"
  have "unat (ste_UID ?e) < 2 ^ LENGTH(32)" "unat (ste_State ?e) < 2 ^ LENGTH(8)" by (rule unsigned_less)+
  then have "strconv_ParseUint (show_nat (unat (ste_UID ?e))) 10 32 = Some (unat (ste_UID ?e))"
    "strconv_ParseUint (hex_fixed 2 (unat (ste_State ?e))) 16 8 = Some (unat (ste_State ?e))"
    by (simp_all add: ParseUint_show_nat ParseUint_hex_fixed)
  moreover have "\<not> length (proc_fields ?e (row_others r)) < 12"
    using assms by (simp add: proc_fields_def row_ok_def not_less) linarith
  ultimately show ?thesis using assms
    by (cases "row_entry r") (simp add: sock_line_def line_fields_row row_ok_def Let_def proc_fields_def parseAddr_proc_addr)
qed

lemma ParseSocktab_loop_rows:
  "list_all row_ok rows \<Longrightarrow>
   ParseSocktab_loop accept (text_scanner (unlines (map row_text rows) @ rest)) tab =
   ParseSocktab_loop accept (text_scanner rest) (tab @ filter accept (map row_entry rows))"
proof (induction rows arbitrary: tab)
  case Nil
  then show ?case by (simp add: unlines_def)
next
  case (Cons r rows)
  have "Scan (text_scanner (unlines (map row_text (r # rows)) @ rest)) =
      (Some (row_text r), text_scanner (unlines (map row_text rows) @ rest))"
    using Cons.prems Scan_line [OF row_text_fits] by (simp add: unlines_def)
  then show ?case using Cons sock_line_row [of r]
    by (subst ParseSocktab_loop.simps) simp
qed

lemma Scan_title:
  assumes "fits title" "content r = unlines (title # ls) @ rest" "final_err r = EOF"
  shows "snd (Scan (NewScanner r)) = text_scanner (unlines ls @ rest)"
proof -
  have "NewScanner r = text_scanner (title @ newline # unlines ls @ rest)"
    using assms(2,3) by (simp add: NewScanner_def text_scanner_def unlines_def)
  then show ?thesis by (simp add: Scan_line [OF assms(1)])
qed

section \<open>Properties\<close>

text \<open>A table with one socket, for the witnesses.\<close>

definition demo_entry :: SockTabEntry where
  "demo_entry = \<lparr>ste_ino = ''20'', ste_LocalAddr = \<lparr>sa_IP = [byte 127, byte 0, byte 0, byte 1], sa_Port = 80\<rparr>,
     ste_RemoteAddr = \<lparr>sa_IP = [byte 0, byte 0, byte 0, byte 0], sa_Port = 0\<rparr>, ste_State = 10, ste_UID = 0, ste_Process = None\<rparr>"

definition demo_row :: proc_row where
  "demo_row = \<lparr>row_entry = demo_entry, row_others = [''0:'', ''0:0'', ''00:0'', ''0'', ''0'', ''1'', ''0''],
     row_pads = [1, 1, 1, 1, 1, 1, 1, 1, 1, 1, 1, 1], row_trail = 3\<rparr>"

definition demo_table :: reader where
  "demo_table = \<lparr>chunks = [unlines [''  sl  local_address'', row_text demo_row]], final_err = EOF\<rparr>"

lemma demo_row_ok: "row_ok demo_row"
proof -
  have w: "list_all field_word (row_others demo_row)" "field_word (ste_ino demo_entry)"
    by (simp_all add: demo_row_def demo_entry_def field_word_def plain_word_def plain_char_def unicode_IsSpace_def)
  have "length (show_nat 0) = 1" by (simp add: show_nat.simps [of 0])
  then have "length (row_text demo_row) < MaxScanTokenSize"
    by (simp add: row_text_def demo_row_def demo_entry_def proc_fields_def proc_addr_def MaxScanTokenSize_def
        length_spaced)
  with w show ?thesis
    by (simp add: row_ok_def addr_ok_def) (simp add: demo_row_def demo_entry_def)
qed

lemma demo_title_fits: "fits ''  sl  local_address''"
  by (rule fits_codes) (simp_all add: MaxScanTokenSize_def)

lemma demo_table_content:
  "content demo_table = unlines (''  sl  local_address'' # map row_text [demo_row])" "final_err demo_table = EOF"
  by (simp_all add: content_def demo_table_def)

text \<open>C11: Parsing inverts printing: from a table as the kernel prints it, a title and then for each
  socket a line of padded fields, \<open>ParseSocktab\<close> reads exactly the sockets, in order, with
  their addresses of four or sixteen bytes, states, users and inodes, and keeps those the
  filter accepts.\<close>

theorem ParseSocktab_reads:
  assumes "fits title" "list_all row_ok rows" "content r = unlines (title # map row_text rows)" "final_err r = EOF"
  shows "ParseSocktab r accept = Returns (Inr (filter accept (map row_entry rows)))"
proof -
  have "snd (Scan (NewScanner r)) = text_scanner (unlines (map row_text rows) @ [])"
    using assms(3) by (intro Scan_title [OF assms(1) _ assms(4)]) simp
  then show ?thesis using ParseSocktab_loop_rows [OF assms(2), of accept "[]" "[]"]
    by (simp add: ParseSocktab_def ParseSocktab_loop.simps [of accept "text_scanner []"] Scan_end scan_result_def)
qed

lemma ParseSocktab_reads_witness: "ParseSocktab demo_table (\<lambda>e. ste_State e = Listen) = Returns (Inr [demo_entry])"
  using ParseSocktab_reads [OF demo_title_fits _ demo_table_content, of "\<lambda>e. ste_State e = Listen"] demo_row_ok
  by (simp add: demo_row_def demo_entry_def Listen_def)

text \<open>A line of fewer than twelve fields, an empty one for example, makes the whole query fail:
  nothing of the lines before it is returned, and what follows it is not read.\<close>

theorem ParseSocktab_short_line:
  assumes "fits title" "list_all row_ok rows" "fits line" "length (line_fields line) < 12"
    "content r = unlines (title # map row_text rows) @ line @ newline # rest" "final_err r = EOF"
  shows "ParseSocktab r accept = Returns (Inl NotEnoughFields)"
proof -
  have "snd (Scan (NewScanner r)) = text_scanner (unlines (map row_text rows) @ line @ newline # rest)"
    using Scan_title [OF assms(1,5,6)] .
  moreover have "sock_line line = Returns (Inl NotEnoughFields)"
    using assms(4) by (simp add: sock_line_def Let_def)
  ultimately show ?thesis using ParseSocktab_loop_rows [OF assms(2), of accept "line @ newline # rest" "[]"] assms(3)
    by (simp add: ParseSocktab_def ParseSocktab_loop.simps [of accept "text_scanner (line @ newline # rest)"] Scan_line)
qed

lemma ParseSocktab_short_line_witness:
  "ParseSocktab \<lparr>chunks = [unlines [''  sl  local_address'', row_text demo_row, []]], final_err = EOF\<rparr> (\<lambda>_. True) =
     Returns (Inl NotEnoughFields)"
proof -
  have "fits []" "length (line_fields []) < 12"
    by (simp_all add: fits_def MaxScanTokenSize_def line_fields_def strings_Fields_def)
  from ParseSocktab_short_line [OF demo_title_fits _ this, of "[demo_row]" _ "[]"] demo_row_ok
  show ?thesis by (simp add: content_def unlines_def)
qed

text \<open>C37: Parsing a table never panics and always ends, whatever bytes the file holds: no slice is
  taken out of range and the scanner consumes the text.\<close>

theorem ParseSocktab_total: "\<exists>result. ParseSocktab r accept = Returns result"
  by (simp add: ParseSocktab_def ParseSocktab_loop_returns)

text \<open>C26: The two parsers agree: where the sockets of a table can be read, its ports are those of the
  sockets, one for one and in order, and reading with a filter is filtering what is read
  without one.  The filter given to the port parser has no effect.\<close>

theorem port_parser_agrees:
  assumes "ParseSocktab r NoopFilter = Returns (Inr es)"
  shows "ParseSocktab r accept = Returns (Inr (filter accept es)) \<and> ParseSockPort r accept = Inr (map SockPort es)"
  using ParseSocktab_agree [OF assms] by simp

lemma port_parser_agrees_witness: "ParseSockPort demo_table (\<lambda>_. False) = Inr [80]"
proof -
  have "ParseSocktab demo_table NoopFilter = Returns (Inr [demo_entry])"
    using ParseSocktab_reads [OF demo_title_fits _ demo_table_content] demo_row_ok
    by (simp add: demo_row_def NoopFilter_def)
  from port_parser_agrees [OF this] show ?thesis by (simp add: SockPort_def demo_entry_def)
qed

text \<open>C25: On Linux, when all four tables can be read, the three queries for the ports in use agree:
  \<open>ToPorts\<close> of all sockets, \<open>GetAllPorts\<close> and, the bitmap package keeping its contract,
  \<open>GetAllPortSet\<close> hold the same ports, each once, the last in order.\<close>

theorem port_queries_agree:
  assumes "GetAllSocks (linux_api open_file) NoopFilter = Returns (es, None)" "bitmap_array ToArray"
  shows "\<exists>ps qs. GetAllPorts (linux_api open_file) NoopFilter = Returns ps \<and>
    GetAllPortSet ToArray (linux_api open_file) NoopFilter = Returns qs \<and>
    set ps = set (ToPorts es) \<and> set qs = set ps \<and> distinct ps \<and> distinct qs \<and> sorted qs"
  using linux.GetAllPorts_of_socks [OF assms(1)] linux.GetAllPortSet_of_socks [OF assms] by auto

lemma port_queries_agree_witness:
  "\<exists>qs. GetAllPortSet (\<lambda>xs. sorted_list_of_set (set xs)) (linux_api (\<lambda>_. Some demo_table)) NoopFilter = Returns qs \<and> set qs = {80}"
proof -
  have "DoNetstat (\<lambda>_. Some demo_table) path NoopFilter = Returns (Inr [demo_entry])" for path
    using ParseSocktab_loop_rows [of "[demo_row]" NoopFilter "[]" "[]"] demo_row_ok
      Scan_title [OF demo_title_fits _ demo_table_content(2), of "[row_text demo_row]" "[]"] demo_table_content(1)
    by (simp add: DoNetstat_def ParseSocktab_def ParseSocktab_loop.simps [of NoopFilter "text_scanner []"]
        Scan_end scan_result_def NoopFilter_def) (simp add: demo_row_def)
  then have "GetAllSocks (linux_api (\<lambda>_. Some demo_table)) NoopFilter = Returns (replicate 4 demo_entry, None)"
    by (simp add: GetAllSocks_def linux_api_def eval_nat_numeral)
  moreover have "bitmap_array (\<lambda>xs. sorted_list_of_set (set xs))" by (simp add: bitmap_array_def)
  ultimately show ?thesis using port_queries_agree [of "\<lambda>_. Some demo_table"]
    by (force simp: set_ToPorts SockPort_def demo_entry_def)
qed

end
