(* ===== verification/NetstatCmd.thy ===== *)
theory NetstatCmd
  imports NetstatLinuxLaws PortAlloc
begin

text \<open>
  The command \<open>netstat/cmd/main.go\<close> on Linux: what it prints for its flags, as text, and the
  ports it occupies.  The flags' values, the user, the socket tables, the outcomes of
  listening and reverse lookups of addresses are arguments.
\<close>

section \<open>Formatting\<close>

text \<open>Package \<open>fmt\<close> counts runes when it pads (\<open>%-ns\<close>) and truncates (\<open>%.ns\<close>).\<close>

definition rune_count :: "gostring \<Rightarrow> nat" where
  "rune_count s = length (runes s)"

function rune_take :: "nat \<Rightarrow> gostring \<Rightarrow> gostring" where
  "rune_take n [] = []"
| "rune_take n (c # s) =
     (if n = 0 then []
      else let w = snd (DecodeRune (c # s)) in take w (c # s) @ rune_take (n - 1) (drop (w - 1) s))"
  by pat_completeness auto
termination
  by (relation "measure (\<lambda>(n, s). length s)") auto

definition pad_right :: "nat \<Rightarrow> gostring \<Rightarrow> gostring" where
  "pad_right n s = s @ replicate (n - rune_count s) (CHR '' '')"

definition line_end :: gostring where "line_end = [newline]"

text \<open>
  A state is printed through its \<open>String\<close> method; \<open>fmt\<close> turns a panic in it into text, without
  padding.
\<close>

definition state_column :: "u8 \<Rightarrow> gostring" where
  "state_column st =
     (case SkState_String skStates st of
        Returns name \<Rightarrow> pad_right 12 name
      | _ \<Rightarrow> ''%!s(PANIC=String method: runtime error: index out of range ['' @ show_nat (unat st) @ ''] with length 12)'')"

definition print_ports :: "u16 list \<Rightarrow> gostring" where
  "print_ports p = ''['' @ strings_Join (map (\<lambda>x. show_nat (unat x)) p) '' '' @ '']'' @ line_end"

section \<open>The flags\<close>

record cmd_flags =
  fl_ocp :: gostring
  fl_rand :: gostring
  fl_listPort :: bool
  fl_udp :: bool
  fl_tcp :: bool
  fl_listening :: bool
  fl_all :: bool
  fl_resolve :: bool
  fl_ipv4 :: bool
  fl_ipv6 :: bool
  fl_help :: bool

definition protoIPv4 :: u32 where "protoIPv4 = 1"
definition protoIPv6 :: u32 where "protoIPv6 = 2"

definition cmd_proto :: "cmd_flags \<Rightarrow> u32" where
  "cmd_proto f =
     (let p = or (if fl_ipv4 f then protoIPv4 else 0) (if fl_ipv6 f then protoIPv6 else 0)
      in if p = 0 then or protoIPv4 protoIPv6 else p)"

text \<open>The value \<open>strconv.Atoi\<close> gives besides its error: 0, or the nearest number in range.\<close>

definition Atoi_value :: "gostring \<Rightarrow> int" where
  "Atoi_value s =
     (case strconv_Atoi s of
        Some v \<Rightarrow> v
      | None \<Rightarrow>
          (let ds = (if s \<noteq> [] \<and> (hd s = CHR ''-'' \<or> hd s = CHR ''+'') then tl s else s)
           in if ds = [] \<or> parse_digits 10 0 ds = None then 0
              else if hd s = CHR ''-'' then - (2 ^ 63) else 2 ^ 63 - 1))"

text \<open>Both range flags split at the colon and index the second part unchecked.\<close>

definition cmd_range :: "gostring \<Rightarrow> (int \<times> int) outcome" where
  "cmd_range s =
     (let ports = strings_Split s '':'' in
      if length ports < 2 then Panics else Returns (Atoi_value (ports ! 0), Atoi_value (ports ! 1)))"

section \<open>Output\<close>

definition lookup :: "bool \<Rightarrow> (gostring \<Rightarrow> gostring list option) \<Rightarrow> SockAddr \<Rightarrow> gostring" where
  "lookup resolve LookupAddr skaddr =
     (let addr = IP_String (sa_IP skaddr);
          addr = (if resolve then (case LookupAddr addr of Some (n # ns) \<Rightarrow> n | _ \<Rightarrow> addr) else addr);
          addr = (if 17 < length addr then take 17 addr else addr)
      in addr @ '':'' @ show_nat (unat (sa_Port skaddr)))"

definition sock_row :: "bool \<Rightarrow> (gostring \<Rightarrow> gostring list option) \<Rightarrow> gostring \<Rightarrow> SockTabEntry \<Rightarrow> gostring" where
  "sock_row resolve LookupAddr proto e =
     (let p = (case ste_Process e of None \<Rightarrow> [] | Some q \<Rightarrow> Process_String q);
          lAddr = lookup resolve LookupAddr (ste_LocalAddr e);
          rAddr = lookup resolve LookupAddr (ste_RemoteAddr e)
      in pad_right 5 proto @ '' '' @ pad_right 23 (rune_take 23 lAddr) @ '' '' @ pad_right 23 (rune_take 23 rAddr) @ '' '' @
         state_column (ste_State e) @ '' '' @ pad_right 16 p @ line_end)"

definition displaySockInfo ::
  "bool \<Rightarrow> (gostring \<Rightarrow> gostring list option) \<Rightarrow> gostring \<Rightarrow> SockTabEntry list \<Rightarrow> bool \<Rightarrow> gostring" where
  "displaySockInfo resolve LookupAddr proto socks listPort =
     concat (map (sock_row resolve LookupAddr proto) socks) @ (if listPort then print_ports (ToPorts socks) else [])"

text \<open>A table that cannot be read prints nothing.\<close>

definition show_table ::
  "cmd_flags \<Rightarrow> (gostring \<Rightarrow> gostring list option) \<Rightarrow> gostring \<Rightarrow> (proc_error + SockTabEntry list) outcome \<Rightarrow> gostring" where
  "show_table f LookupAddr proto tbl =
     (case tbl of
        Returns (Inr socks) \<Rightarrow> displaySockInfo (fl_resolve f) LookupAddr proto socks (fl_listPort f)
      | _ \<Rightarrow> [])"

definition tcp_filter :: "cmd_flags \<Rightarrow> AcceptFn" where
  "tcp_filter f =
     (if fl_all f then (\<lambda>s. True)
      else if fl_listening f then (\<lambda>s. ste_State s = Listen)
      else (\<lambda>s. ste_State s \<noteq> Listen))"

text \<open>The occupied ports, the last of them last; a last port that is taken makes \<open>Accept\<close> panic.\<close>

datatype cmd_result = Usage | Occupies "int list" | Prints gostring

definition header_line :: gostring where
  "header_line = ''Proto '' @ pad_right 23 ''Local Addr'' @ '' '' @ pad_right 23 ''Foreign Addr'' @ '' '' @
     pad_right 12 ''State'' @ '' '' @ pad_right 16 ''PID/Program name'' @ line_end"

definition occupy :: "probe \<Rightarrow> int \<Rightarrow> int \<Rightarrow> cmd_result outcome" where
  "occupy free s e =
     (if listen_ok free 0 e then Returns (Occupies ([s..e - 1] @ [e])) else Panics)"

definition cmd_main ::
  "cmd_flags \<Rightarrow> bool \<Rightarrow> probe \<Rightarrow> proc_files \<Rightarrow> (gostring \<Rightarrow> gostring list option) \<Rightarrow> cmd_result outcome" where
  "cmd_main f root free files LookupAddr =
     (if fl_help f then Returns Usage
      else if fl_ocp f \<noteq> [] then
        (case cmd_range (fl_ocp f) of
           Returns (s, e) \<Rightarrow> occupy free s e
         | Panics \<Rightarrow> Panics | Blocks \<Rightarrow> Blocks)
      else if fl_rand f \<noteq> [] then
        (case cmd_range (fl_rand f) of
           Panics \<Rightarrow> Panics | Blocks \<Rightarrow> Blocks
         | Returns (s, e) \<Rightarrow> Returns (Prints (case FindOneAvailablePort free s e of
             Inl err \<Rightarrow> ''no available port in the specified range'' @ line_end
           | Inr aPort \<Rightarrow> ''Available port: '' @ strconv_Itoa aPort @ line_end)))
      else
        (let proto = cmd_proto f; api = linux_api files; v4 = and proto protoIPv4 = protoIPv4;
             v6 = and proto protoIPv6 = protoIPv6; tcp = (if fl_udp f then fl_tcp f else True)
         in Returns (Prints (
           (if root then [] else ''Not all processes could be identified, you would have to be root to see it all.'' @ line_end) @
           header_line @
           (if fl_udp f then
              (if v4 then show_table f LookupAddr ''udp'' (UDPSocks api NoopFilter) else []) @
              (if v6 then show_table f LookupAddr ''udp6'' (UDP6Socks api NoopFilter) else [])
            else []) @
           (if tcp then
              (if v4 then show_table f LookupAddr ''tcp'' (TCPSocks api (tcp_filter f)) else []) @
              (if v6 then show_table f LookupAddr ''tcp6'' (TCP6Socks api (tcp_filter f)) else [])
            else [])))))"

section \<open>Lemmas\<close>

lemma rune_take_ascii: "list_all (\<lambda>c. code c < 128) s \<Longrightarrow> rune_take n s = take n s"
  by (induction s arbitrary: n) (auto simp: take_Cons' simp del: DecodeRune.simps)

text \<open>Columns of ASCII text have their width.\<close>

lemma pad_right_width:
  assumes "list_all (\<lambda>c. code c < 128) s"
  shows "length (pad_right n (rune_take n s)) = n"
proof -
  have "runes (take n s) = map code (take n s)"
    using assms by (intro runes_ascii) (auto simp: list_all_iff dest: in_set_takeD)
  then show ?thesis by (simp add: pad_right_def rune_count_def rune_take_ascii [OF assms])
qed

text \<open>The three selections of TCP sockets: listening and other sockets make up all of them.\<close>

lemma tcp_filter_partition:
  assumes "\<not> fl_all f" "\<not> fl_listening f"
  shows "tcp_filter (f\<lparr>fl_all := True\<rparr>) s \<longleftrightarrow> tcp_filter f s \<or> tcp_filter (f\<lparr>fl_listening := True\<rparr>) s"
    and "\<not> (tcp_filter f s \<and> tcp_filter (f\<lparr>fl_listening := True\<rparr>) s)"
  using assms by (auto simp: tcp_filter_def)

end
