(* ===== verification/Commands.thy ===== *)
theory Commands
  imports GoFlag ServerRun Client RotatingFile NetstatCmd
begin

text \<open>
  The three commands from their arguments on: \<open>server/main.go\<close>, \<open>client/main.go\<close> and the
  flags of \<open>netstat/cmd/main.go\<close>.  The flags are a map from names to values, with the
  defaults of the code.
\<close>

section \<open>Logging\<close>

definition LogFileSize :: int where "LogFileSize = 1024 * 1024"
definition LogBackupCount :: int where "LogBackupCount = 5"

text \<open>A log file that cannot be opened is reported and the command goes on without it.\<close>

definition open_log :: "bool \<Rightarrow> os_files \<Rightarrow> gostring \<Rightarrow> files \<Rightarrow> rotating_file option \<times> files" where
  "open_log mkdir_ok os name fs =
     (if name = [] then (None, fs)
      else case NewRotatingFile mkdir_ok os name LogFileSize LogBackupCount fs of
        (Inl e, fs') \<Rightarrow> (None, fs')
      | (Inr rf, fs') \<Rightarrow> (Some rf, fs'))"

text \<open>
  The caller in a log line: the file's name without its directories, and the line.  The loop
  runs from the last byte to the second.
\<close>

fun short_file :: "nat \<Rightarrow> gostring \<Rightarrow> gostring" where
  "short_file 0 file = file"
| "short_file (Suc i) file = (if file ! Suc i = CHR ''/'' then drop (Suc (Suc i)) file else short_file i file)"

definition CallerMarshal :: "gostring \<Rightarrow> int \<Rightarrow> gostring" where
  "CallerMarshal file line = short_file (length file - 1) file @ '':'' @ strconv_Itoa line"

section \<open>Server\<close>

record server_options =
  so_config :: server_config
  so_LogFile :: gostring
  so_Debug :: bool

definition server_flags :: "gostring \<rightharpoonup> flag_value" where
  "server_flags = map_of
     [(''ip'', StringFlag ''0.0.0.0''), (''port'', StringFlag ''8080''), (''auth'', StringFlag []),
      (''start'', IntFlag 30000), (''end'', IntFlag 40000), (''forceRange'', BoolFlag False),
      (''api'', StringFlag ''localhost:3000''), (''mux'', StringFlag ''localhost:4000''),
      (''domain'', StringFlag []), (''log'', StringFlag []), (''debug'', BoolFlag False)]"

definition server_options_of :: "(gostring \<rightharpoonup> flag_value) \<Rightarrow> server_options" where
  "server_options_of vals =
     \<lparr>so_config = \<lparr>cfg_Ip = string_flag vals ''ip'', cfg_Port = string_flag vals ''port'',
        cfg_AuthCode = string_flag vals ''auth'', cfg_startPort = int_flag vals ''start'',
        cfg_endPort = int_flag vals ''end'', cfg_forceRange = bool_flag vals ''forceRange'',
        cfg_Api = string_flag vals ''api'', cfg_MuxAddr = string_flag vals ''mux'',
        cfg_Domain = string_flag vals ''domain''\<rparr>,
      so_LogFile = string_flag vals ''log'', so_Debug = bool_flag vals ''debug''\<rparr>"

text \<open>How a command gets on: it exits with a code, stops after an error message, or runs.\<close>

datatype 'a command_end = Exits nat | Stops | Runs 'a

definition server_main ::
  "bool \<Rightarrow> os_files \<Rightarrow> perms \<Rightarrow> gostring list \<Rightarrow> files \<Rightarrow>
    (server_options \<times> rotating_file option \<times> files \<times> server outcome) command_end" where
  "server_main mkdir_ok os perms args fs =
     (case parse_flags server_flags args of
        FlagExit n \<Rightarrow> Exits n
      | Parsed vals rest \<Rightarrow>
          (let opt = server_options_of vals in
           case open_log mkdir_ok os (so_LogFile opt) fs of (file, fs') \<Rightarrow>
             Runs (opt, file, fs', NewServer perms (so_config opt))))"

section \<open>Client\<close>

definition client_flags :: "gostring \<Rightarrow> gostring \<rightharpoonup> flag_value" where
  "client_flags hostname = map_of
     [(''host'', StringFlag hostname), (''tag'', StringFlag ''aero''), (''server'', StringFlag ''0.0.0.0:8080''),
      (''auth'', StringFlag []), (''log'', StringFlag []), (''debug'', BoolFlag False), (''ping'', IntFlag 60),
      (''pool'', IntFlag 2), (''target'', StringFlag [])]"

definition client_config_of :: "(gostring \<rightharpoonup> flag_value) \<Rightarrow> ClientConfig" where
  "client_config_of vals =
     \<lparr>ccfg_Name = string_flag vals ''host'', ccfg_Tag = string_flag vals ''tag'',
      ccfg_ServerAddr = string_flag vals ''server'', ccfg_AuthCode = string_flag vals ''auth'',
      ccfg_PoolSize = word_of_int (int_flag vals ''pool''), ccfg_LogFile = string_flag vals ''log'',
      ccfg_Proxies = Map.empty, ccfg_HeartbeatInterval = int_flag vals ''ping'', ccfg_Debug = bool_flag vals ''debug''\<rparr>"

text \<open>The target list is checked before the log file is opened.\<close>

definition client_main ::
  "bool \<Rightarrow> os_files \<Rightarrow> gostring \<Rightarrow> gostring list \<Rightarrow> files \<Rightarrow> (client \<times> rotating_file option \<times> files) command_end" where
  "client_main mkdir_ok os hostname args fs =
     (case parse_flags (client_flags hostname) args of
        FlagExit n \<Rightarrow> Exits n
      | Parsed vals rest \<Rightarrow>
          (case client_setup (string_flag vals ''target'') (client_config_of vals) of
             None \<Rightarrow> Stops
           | Some cfg \<Rightarrow>
               (case open_log mkdir_ok os (ccfg_LogFile cfg) fs of (file, fs') \<Rightarrow>
                  Runs (NewClient cfg, file, fs'))))"

section \<open>Socket command\<close>

definition socket_flags :: "gostring \<rightharpoonup> flag_value" where
  "socket_flags = map_of
     [(''ocp'', StringFlag []), (''range'', StringFlag []), (''port'', BoolFlag False), (''udp'', BoolFlag False),
      (''tcp'', BoolFlag False), (''lis'', BoolFlag False), (''all'', BoolFlag False), (''res'', BoolFlag False),
      (''4'', BoolFlag False), (''6'', BoolFlag False), (''help'', BoolFlag False)]"

definition cmd_flags_of :: "(gostring \<rightharpoonup> flag_value) \<Rightarrow> cmd_flags" where
  "cmd_flags_of vals =
     \<lparr>fl_ocp = string_flag vals ''ocp'', fl_rand = string_flag vals ''range'', fl_listPort = bool_flag vals ''port'',
      fl_udp = bool_flag vals ''udp'', fl_tcp = bool_flag vals ''tcp'', fl_listening = bool_flag vals ''lis'',
      fl_all = bool_flag vals ''all'', fl_resolve = bool_flag vals ''res'', fl_ipv4 = bool_flag vals ''4'',
      fl_ipv6 = bool_flag vals ''6'', fl_help = bool_flag vals ''help''\<rparr>"

section \<open>Command lines\<close>

text \<open>A command line that gives every flag.\<close>

definition server_args :: "server_options \<Rightarrow> gostring list" where
  "server_args opt =
     (let c = so_config opt in
      [flag_text ''ip'' (cfg_Ip c), flag_text ''port'' (cfg_Port c), flag_text ''auth'' (cfg_AuthCode c),
       flag_text ''start'' (strconv_Itoa (cfg_startPort c)), flag_text ''end'' (strconv_Itoa (cfg_endPort c)),
       flag_text ''forceRange'' (bool_text (cfg_forceRange c)), flag_text ''api'' (cfg_Api c),
       flag_text ''mux'' (cfg_MuxAddr c), flag_text ''domain'' (cfg_Domain c), flag_text ''log'' (so_LogFile opt),
       flag_text ''debug'' (bool_text (so_Debug opt))])"

definition int64 :: "int \<Rightarrow> bool" where
  "int64 i \<longleftrightarrow> - (2 ^ 63) \<le> i \<and> i < 2 ^ 63"

lemma flag_names:
  "flag_name ''ip''" "flag_name ''port''" "flag_name ''auth''" "flag_name ''start''" "flag_name ''end''"
  "flag_name ''forceRange''" "flag_name ''api''" "flag_name ''mux''" "flag_name ''domain''" "flag_name ''log''"
  "flag_name ''debug''" "flag_name ''host''" "flag_name ''tag''" "flag_name ''server''" "flag_name ''ping''"
  "flag_name ''pool''" "flag_name ''target''"
  by (simp_all add: flag_name_def)

lemma parse_server_args:
  assumes "int64 (cfg_startPort (so_config opt))" "int64 (cfg_endPort (so_config opt))"
  shows "\<exists>vals. parse_flags server_flags (server_args opt) = Parsed vals [] \<and> server_options_of vals = opt"
proof -
  have "strconv_ParseInt0 (strconv_Itoa (cfg_startPort (so_config opt))) = Some (cfg_startPort (so_config opt))"
    "strconv_ParseInt0 (strconv_Itoa (cfg_endPort (so_config opt))) = Some (cfg_endPort (so_config opt))"
    using assms ParseInt0_Itoa by (simp_all add: int64_def)
  then show ?thesis
    by (simp add: server_args_def Let_def parse_flags_text flag_names server_flags_def server_options_of_def
        string_flag_def int_flag_def bool_flag_def del: parse_flags.simps(2))
qed

definition client_args :: "ClientConfig \<Rightarrow> gostring \<Rightarrow> gostring list" where
  "client_args cfg target =
     [flag_text ''host'' (ccfg_Name cfg), flag_text ''tag'' (ccfg_Tag cfg), flag_text ''server'' (ccfg_ServerAddr cfg),
      flag_text ''auth'' (ccfg_AuthCode cfg), flag_text ''log'' (ccfg_LogFile cfg), flag_text ''debug'' (bool_text (ccfg_Debug cfg)),
      flag_text ''ping'' (strconv_Itoa (ccfg_HeartbeatInterval cfg)), flag_text ''pool'' (strconv_Itoa (sint (ccfg_PoolSize cfg))),
      flag_text ''target'' target]"

lemma parse_client_args:
  assumes "int64 (ccfg_HeartbeatInterval cfg)" "ccfg_Proxies cfg = Map.empty"
  shows "\<exists>vals. parse_flags (client_flags hostname) (client_args cfg target) = Parsed vals [] \<and>
    client_config_of vals = cfg \<and> string_flag vals ''target'' = target"
proof -
  have "int64 (sint (ccfg_PoolSize cfg))"
    using sint_greater_eq [of "ccfg_PoolSize cfg"] sint_less [of "ccfg_PoolSize cfg"] by (simp add: int64_def)
  then have "strconv_ParseInt0 (strconv_Itoa (sint (ccfg_PoolSize cfg))) = Some (sint (ccfg_PoolSize cfg))"
    "strconv_ParseInt0 (strconv_Itoa (ccfg_HeartbeatInterval cfg)) = Some (ccfg_HeartbeatInterval cfg)"
    using assms ParseInt0_Itoa by (simp_all add: int64_def)
  then show ?thesis using assms(2)
    by (simp add: client_args_def parse_flags_text flag_names client_flags_def client_config_of_def
        string_flag_def int_flag_def bool_flag_def del: parse_flags.simps(2))
qed

text \<open>A file name without a slash behind the first byte stays; otherwise the last part remains.\<close>

lemma short_file_skip: "\<forall>j. 0 < j \<and> j \<le> i \<longrightarrow> file ! j \<noteq> CHR ''/'' \<Longrightarrow> short_file i file = file"
  by (induction i) auto

lemma short_file_base:
  assumes "d \<noteq> []" "CHR ''/'' \<notin> set base" "i < length d + length base + 1" "length d \<le> i"
  shows "short_file i (d @ CHR ''/'' # base) = base"
  using assms(3,4)
proof (induction i)
  case 0
  with assms(1) show ?case by simp
next
  case (Suc i)
  show ?case
  proof (cases "Suc i = length d")
    case True
    then have "(d @ CHR ''/'' # base) ! Suc i = CHR ''/''" "drop (Suc (Suc i)) (d @ CHR ''/'' # base) = base"
      by simp_all
    then show ?thesis by simp
  next
    case False
    then obtain j where j: "Suc i = length d + Suc j" using Suc.prems(2) by (metis less_iff_Suc_add le_neq_implies_less add_Suc_right)
    then have "(d @ CHR ''/'' # base) ! Suc i = base ! j" "j < length base"
      using Suc.prems(1) by (simp_all add: nth_append)
    then have "(d @ CHR ''/'' # base) ! Suc i \<noteq> CHR ''/''" using assms(2) nth_mem by metis
    then show ?thesis using Suc False by simp
  qed
qed

theorem CallerMarshal_base:
  assumes "d \<noteq> []" "CHR ''/'' \<notin> set base"
  shows "CallerMarshal (d @ CHR ''/'' # base) line = base @ '':'' @ strconv_Itoa line"
  using short_file_base [OF assms, of "length d + length base"] by (simp add: CallerMarshal_def)

section \<open>Properties\<close>

text \<open>A server started with its flags written out runs with exactly these settings, for all
  texts and all 64-bit port numbers.\<close>

theorem server_command_line:
  assumes "int64 (cfg_startPort (so_config opt))" "int64 (cfg_endPort (so_config opt))"
  shows "server_main mkdir_ok os perms (server_args opt) fs =
    Runs (opt, fst (open_log mkdir_ok os (so_LogFile opt) fs), snd (open_log mkdir_ok os (so_LogFile opt) fs),
      NewServer perms (so_config opt))"
  using parse_server_args [OF assms] by (auto simp: server_main_def Let_def case_prod_beta)

definition willing_os :: os_files where
  "willing_os = \<lparr>stat_ok = True, rename_ok = (\<lambda>_ _. True), open_ok = True\<rparr>"

definition demo_options :: server_options where
  "demo_options = \<lparr>so_config = config demo_server, so_LogFile = [], so_Debug = True\<rparr>"

lemma server_command_line_witness:
  "\<exists>r. server_main True willing_os (\<lambda>_. []) (server_args demo_options) Map.empty = Runs (demo_options, None, Map.empty, r)"
  using server_command_line [of demo_options True willing_os "\<lambda>_. []" Map.empty]
  by (simp add: demo_options_def demo_server_def int64_def open_log_def)

text \<open>C39: A client started with all its flags and a target list of \<open>name@address@port\<close> elements with
  distinct names runs with exactly these settings and these proxies, each filed under its name
  and not started.\<close>

theorem client_command_line:
  assumes "int64 (ccfg_HeartbeatInterval cfg)" "ccfg_Proxies cfg = Map.empty" "ccfg_Name cfg \<noteq> []" "ccfg_Tag cfg \<noteq> []"
    "ts \<noteq> []" "list_all plain_target ts" "distinct (map fst ts)"
  shows "client_main mkdir_ok os hostname (client_args cfg (strings_Join (map target_text ts) '','')) fs =
    Runs (NewClient (cfg\<lparr>ccfg_Proxies := map_of (map (\<lambda>t. (fst t, target_proxy t)) ts)\<rparr>),
      open_log mkdir_ok os (ccfg_LogFile cfg) fs)"
proof -
  have "client_setup (strings_Join (map target_text ts) '','') cfg =
      Some (cfg\<lparr>ccfg_Proxies := map_of (map (\<lambda>t. (fst t, target_proxy t)) ts)\<rparr>)"
    using assms(5-7,3,4,2) by (rule client_setup_targets)
  with parse_client_args [OF assms(1,2), of hostname "strings_Join (map target_text ts) '',''"]
  show ?thesis by (auto simp: client_main_def split: prod.splits)
qed

lemma client_command_line_witness:
  "client_main True willing_os ''host'' (client_args (demo_config 60) ''a@h:1@80,b@h:2@0'') Map.empty =
     Runs (NewClient ((demo_config 60)\<lparr>ccfg_Proxies := map_of [(''a'', target_proxy (''a'', ''h:1'', ''80'')),
       (''b'', target_proxy (''b'', ''h:2'', ''0''))]\<rparr>), None, Map.empty)"
  using client_command_line [of "demo_config 60" "[(''a'', ''h:1'', ''80''), (''b'', ''h:2'', ''0'')]" True willing_os "''host''" Map.empty]
  by (simp add: plain_target_def target_text_def demo_config_def int64_def open_log_def)

end
