(* ===== verification/ConsoleLog.thy ===== *)
theory ConsoleLog
  imports Commands
begin

text \<open>
  The rest of \<open>util/zlog/writer.go\<close> and its use by the commands: the settings of package
  zerolog, the functions that format the parts of a line on the console, and where the lines
  go.  Package zerolog itself is not modelled: it calls these functions with the parts of an
  event and passes the event to each output.
\<close>

section \<open>Formatting\<close>

text \<open>
  What zerolog passes as \<open>interface{}\<close>: nothing, or text (a \<open>string\<close>, a \<open>json.Number\<close>, or
  bytes it has encoded itself).  Package \<open>fmt\<close> prints nothing as an error, without padding.
\<close>

datatype log_value = NoValue | TextValue gostring

definition Sprintf_s :: "log_value \<Rightarrow> gostring" where
  "Sprintf_s i = (case i of NoValue \<Rightarrow> ''%!s(<nil>)'' | TextValue s \<Rightarrow> s)"

definition Sprintf_5s :: "log_value \<Rightarrow> gostring" where
  "Sprintf_5s i = (case i of NoValue \<Rightarrow> ''%!s(<nil>)'' | TextValue s \<Rightarrow> pad_right 5 s)"

text \<open>
  \<open>unicode.ToUpper\<close>, whose table beyond ASCII is an argument, and \<open>strings.ToUpper\<close>, which maps
  it over the runes.
\<close>

definition unicode_ToUpper :: "(nat \<Rightarrow> nat) \<Rightarrow> nat \<Rightarrow> nat" where
  "unicode_ToUpper table r = (if r < 128 then (if 97 \<le> r \<and> r \<le> 122 then r - 32 else r) else table r)"

definition strings_ToUpper :: "(nat \<Rightarrow> nat) \<Rightarrow> gostring \<Rightarrow> gostring" where
  "strings_ToUpper table s = concat (map (EncodeRune \<circ> unicode_ToUpper table) (runes s))"

definition FormatLevel :: "(nat \<Rightarrow> nat) \<Rightarrow> log_value \<Rightarrow> gostring" where
  "FormatLevel table i = strings_ToUpper table (''|'' @ Sprintf_5s i @ ''|'')"

definition FormatMessage :: "log_value \<Rightarrow> gostring" where
  "FormatMessage i = Sprintf_s i"

definition FormatFieldName :: "log_value \<Rightarrow> gostring" where
  "FormatFieldName i = Sprintf_s i @ '':''"

definition FormatFieldValue :: "(nat \<Rightarrow> nat) \<Rightarrow> log_value \<Rightarrow> gostring" where
  "FormatFieldValue table i = strings_ToUpper table (Sprintf_s i)"

section \<open>The logger\<close>

datatype time_format = TimeFormatUnix | RFC3339

record console_writer =
  cw_TimeFormat :: time_format
  cw_FormatLevel :: "log_value \<Rightarrow> gostring"
  cw_FormatMessage :: "log_value \<Rightarrow> gostring"
  cw_FormatFieldName :: "log_value \<Rightarrow> gostring"
  cw_FormatFieldValue :: "log_value \<Rightarrow> gostring"

definition ConsoleLogger :: "(nat \<Rightarrow> nat) \<Rightarrow> console_writer" where
  "ConsoleLogger table =
     \<lparr>cw_TimeFormat = RFC3339, cw_FormatLevel = FormatLevel table, cw_FormatMessage = FormatMessage,
      cw_FormatFieldName = FormatFieldName, cw_FormatFieldValue = FormatFieldValue table\<rparr>"

datatype log_level = DebugLevel | InfoLevel

datatype log_output = Console console_writer | File rotating_file

text \<open>The variables of package zerolog that the program sets, and the outputs of its logger.\<close>

record zlog =
  z_TimestampFieldName :: gostring
  z_LevelFieldName :: gostring
  z_MessageFieldName :: gostring
  z_TimeFieldFormat :: time_format
  z_CallerMarshalFunc :: "gostring \<Rightarrow> int \<Rightarrow> gostring"
  z_level :: log_level
  z_outputs :: "log_output list"

definition zlog_Init :: "zlog \<Rightarrow> zlog" where
  "zlog_Init z = z\<lparr>z_TimestampFieldName := ''t'', z_LevelFieldName := ''l'', z_MessageFieldName := ''msg'',
     z_TimeFieldFormat := TimeFormatUnix, z_CallerMarshalFunc := CallerMarshal\<rparr>"

definition zlog_Default :: "(nat \<Rightarrow> nat) \<Rightarrow> zlog \<Rightarrow> zlog" where
  "zlog_Default table z = (zlog_Init z)\<lparr>z_outputs := [Console (ConsoleLogger table)]\<rparr>"

definition zlog_SetOutput :: "(nat \<Rightarrow> nat) \<Rightarrow> rotating_file \<Rightarrow> zlog \<Rightarrow> zlog" where
  "zlog_SetOutput table file z = z\<lparr>z_outputs := [Console (ConsoleLogger table), File file]\<rparr>"

text \<open>
  What both commands do with the logger: the console first, then the level, then the file if
  one was named and could be opened.
\<close>

definition setup_log :: "(nat \<Rightarrow> nat) \<Rightarrow> bool \<Rightarrow> rotating_file option \<Rightarrow> zlog \<Rightarrow> zlog" where
  "setup_log table debug file z =
     (let z1 = (zlog_Default table z)\<lparr>z_level := InfoLevel\<rparr>;
          z2 = (if debug then z1\<lparr>z_level := DebugLevel\<rparr> else z1)
      in case file of None \<Rightarrow> z2 | Some f \<Rightarrow> zlog_SetOutput table f z2)"

definition server_log :: "(nat \<Rightarrow> nat) \<Rightarrow> bool \<Rightarrow> os_files \<Rightarrow> server_options \<Rightarrow> files \<Rightarrow> zlog \<Rightarrow> zlog" where
  "server_log table mkdir_ok os opt fs z =
     setup_log table (so_Debug opt) (fst (open_log mkdir_ok os (so_LogFile opt) fs)) z"

text \<open>In the client the checks of the name, the tag and the targets lie between the two.\<close>

definition client_log :: "(nat \<Rightarrow> nat) \<Rightarrow> bool \<Rightarrow> os_files \<Rightarrow> (gostring \<rightharpoonup> flag_value) \<Rightarrow> files \<Rightarrow> zlog \<Rightarrow> zlog" where
  "client_log table mkdir_ok os vals fs z =
     setup_log table (bool_flag vals ''debug'') (fst (open_log mkdir_ok os (string_flag vals ''log'') fs)) z"

section \<open>Lemmas\<close>

definition upper_char :: "char \<Rightarrow> char" where
  "upper_char c = (if 97 \<le> code c \<and> code c \<le> 122 then byte (code c - 32) else c)"

lemma ToUpper_ascii: "list_all (\<lambda>c. code c < 128) s \<Longrightarrow> strings_ToUpper table s = map upper_char s"
proof -
  assume a: "list_all (\<lambda>c. code c < 128) s"
  then have "runes s = map code s" by (intro runes_ascii) (auto simp: list_all_iff)
  with a show ?thesis unfolding strings_ToUpper_def
    by (induction s) (auto simp: unicode_ToUpper_def EncodeRune_def upper_char_def)
qed

lemma upper_char_idem [simp]: "upper_char (upper_char c) = upper_char c"
  by (auto simp: upper_char_def)

lemma upper_char_ascii: "code c < 128 \<Longrightarrow> code (upper_char c) < 128"
  by (auto simp: upper_char_def)

text \<open>The level column of an ASCII level of at most five letters has seven characters.\<close>

lemma FormatLevel_width:
  assumes "list_all (\<lambda>c. code c < 128) s" "length s \<le> 5"
  shows "length (FormatLevel table (TextValue s)) = 7"
proof -
  have "rune_count s = length s"
    using assms(1) by (simp add: rune_count_def runes_ascii list_all_iff)
  then have "list_all (\<lambda>c. code c < 128) (''|'' @ Sprintf_5s (TextValue s) @ ''|'')"
    and "length (''|'' @ Sprintf_5s (TextValue s) @ ''|'') = 7"
    using assms by (simp_all add: Sprintf_5s_def pad_right_def list_all_iff set_replicate_conv_if)
  then show ?thesis unfolding FormatLevel_def by (simp add: ToUpper_ascii)
qed

lemma FormatLevel_info: "FormatLevel table (TextValue ''info'') = ''|INFO |''"
  by (simp add: FormatLevel_def Sprintf_5s_def pad_right_def rune_count_def runes_ascii ToUpper_ascii upper_char_def)

text \<open>
  The values of fields are shown in capitals, so two identifiers that differ only in case look
  the same.  Messages are shown as they are.
\<close>

lemma FormatFieldValue_caseless:
  assumes "list_all (\<lambda>c. code c < 128) s"
  shows "FormatFieldValue table (TextValue (map upper_char s)) = FormatFieldValue table (TextValue s)"
  using assms by (simp add: FormatFieldValue_def Sprintf_s_def ToUpper_ascii upper_char_ascii list_all_iff comp_def)

text \<open>The console always gets the lines; the file gets them if it was named and could be opened.\<close>

lemma setup_log_outputs:
  "z_outputs (setup_log table debug file z) =
     Console (ConsoleLogger table) # (case file of None \<Rightarrow> [] | Some f \<Rightarrow> [File f])"
  "z_level (setup_log table debug file z) = (if debug then DebugLevel else InfoLevel)"
  by (simp_all add: setup_log_def Let_def zlog_Default_def zlog_SetOutput_def split: option.splits)

end
