(* ===== verification/ProcInfo.thy ===== *)
theory ProcInfo
  imports Netstat GoText
begin

text \<open>
  Finding the process of a socket, the second half of \<open>netstat/netstat_linux.go\<close>: the name
  in a \<open>stat\<close> file, the search through the file descriptors of a process, and the search
  through all processes.  The directories, links and files of \<open>/proc\<close> are an argument.
\<close>

record proc_os =
  ReadDir :: "gostring \<Rightarrow> (gostring \<times> bool) list option"
  Readlink :: "gostring \<Rightarrow> gostring option"
  OpenFile :: "gostring \<Rightarrow> reader option"

text \<open>\<open>path.Join\<close> of clean parts.\<close>

definition path_Join :: "gostring \<Rightarrow> gostring \<Rightarrow> gostring" where
  "path_Join a b = a @ ''/'' @ b"

definition sockPrefix :: gostring where
  "sockPrefix = ''socket:[''"

text \<open>\<open>bytes.SplitN\<close> and \<open>bytes.LastIndex\<close> for a separator of one byte.\<close>

fun SplitN_byte :: "nat \<Rightarrow> char \<Rightarrow> gostring \<Rightarrow> gostring list" where
  "SplitN_byte 0 c s = []"
| "SplitN_byte (Suc n) c s =
     (if n = 0 then [s]
      else case index_byte c s of
        None \<Rightarrow> [s]
      | Some i \<Rightarrow> take i s # SplitN_byte n c (drop (Suc i) s))"

definition last_index_byte :: "char \<Rightarrow> gostring \<Rightarrow> nat option" where
  "last_index_byte c s = map_option (\<lambda>i. length s - Suc i) (index_byte c (rev s))"

text \<open>The text between the first opening and the last closing parenthesis.\<close>

definition getProcName :: "gostring \<Rightarrow> gostring" where
  "getProcName s =
     (case index_byte (CHR ''('') s of
        None \<Rightarrow> []
      | Some i \<Rightarrow>
          (case last_index_byte (CHR '')'') s of
             None \<Rightarrow> []
           | Some j \<Rightarrow> if j < i then [] else take (j - (i + 1)) (drop (i + 1) s)))"

text \<open>
  The loop over the descriptors of the process \<open>pid\<close>.  \<open>p\<close> is the process once read, \<open>sk\<close>
  what the socket's entry holds.  The second field of \<open>stat\<close> is indexed unchecked.
\<close>

fun iterFdDir_loop ::
  "proc_os \<Rightarrow> gostring \<Rightarrow> int \<Rightarrow> gostring \<Rightarrow> Process option \<Rightarrow> Process option \<Rightarrow> (gostring \<times> bool) list \<Rightarrow>
    Process option outcome" where
  "iterFdDir_loop os base pid ino p sk [] = Returns sk"
| "iterFdDir_loop os base pid ino p sk ((file, d) # fi) =
     (case Readlink os (path_Join (path_Join base ''fd'') file) of
        None \<Rightarrow> iterFdDir_loop os base pid ino p sk fi
      | Some lname \<Rightarrow>
          if \<not> strings_HasPrefix lname sockPrefix then iterFdDir_loop os base pid ino p sk fi
          else if sockPrefix @ ino @ '']'' \<noteq> lname then iterFdDir_loop os base pid ino p sk fi
          else case p of
            Some q \<Rightarrow> iterFdDir_loop os base pid ino p (Some q) fi
          | None \<Rightarrow>
              (case OpenFile os (path_Join base ''stat'') of
                 None \<Rightarrow> Returns sk
               | Some stat \<Rightarrow>
                   (case fst (conn_Read 128 stat) of
                      (buf, Some e) \<Rightarrow> Returns sk
                    | (buf, None) \<Rightarrow>
                        (let z = SplitN_byte 3 (CHR '' '') buf in
                         if length z < 2 then Panics
                         else let q = \<lparr>pr_Pid = pid, pr_Name = getProcName (z ! 1)\<rparr> in
                           iterFdDir_loop os base pid ino (Some q) (Some q) fi))))"

definition iterFdDir :: "proc_os \<Rightarrow> gostring \<Rightarrow> int \<Rightarrow> gostring \<Rightarrow> Process option \<Rightarrow> Process option outcome" where
  "iterFdDir os base pid ino sk =
     (case ReadDir os (path_Join base ''fd'') of
        None \<Rightarrow> Returns sk
      | Some fi \<Rightarrow> iterFdDir_loop os base pid ino None sk fi)"

fun extract_loop :: "proc_os \<Rightarrow> gostring \<Rightarrow> Process option \<Rightarrow> (gostring \<times> bool) list \<Rightarrow> Process option outcome" where
  "extract_loop os ino sk [] = Returns sk"
| "extract_loop os ino sk ((name, is_dir) # fi) =
     (if \<not> is_dir then extract_loop os ino sk fi
      else case strconv_Atoi name of
        None \<Rightarrow> extract_loop os ino sk fi
      | Some pid \<Rightarrow>
          (case iterFdDir os (path_Join ''/proc'' name) pid ino sk of
             Returns sk' \<Rightarrow> extract_loop os ino sk' fi
           | Panics \<Rightarrow> Panics
           | Blocks \<Rightarrow> Blocks))"

definition extractProcInfo :: "proc_os \<Rightarrow> SockTabEntry \<Rightarrow> SockTabEntry outcome" where
  "extractProcInfo os sktab =
     (case ReadDir os ''/proc'' of
        None \<Rightarrow> Returns sktab
      | Some fi \<Rightarrow>
          (case extract_loop os (ste_ino sktab) (ste_Process sktab) fi of
             Returns sk \<Rightarrow> Returns (sktab\<lparr>ste_Process := sk\<rparr>)
           | Panics \<Rightarrow> Panics
           | Blocks \<Rightarrow> Blocks))"

section \<open>Names\<close>

lemma last_index_byte_last: "c \<notin> set b \<Longrightarrow> last_index_byte c (a @ c # b) = Some (length a)"
  using index_byte_first [of c "rev b" "rev a"] by (simp add: last_index_byte_def)

lemma getProcName_parens: "getProcName (CHR ''('' # comm @ '')'') = comm"
  using last_index_byte_last [of "CHR '')''" "[]" "CHR ''('' # comm"] by (simp add: getProcName_def)

lemma getProcName_open: "CHR '')'' \<notin> set s \<Longrightarrow> getProcName s = []"
  by (simp add: getProcName_def last_index_byte_def index_byte_absent split: option.split)

text \<open>The second field of a \<open>stat\<close> line.\<close>

definition stat_line :: "gostring \<Rightarrow> gostring \<Rightarrow> gostring \<Rightarrow> gostring" where
  "stat_line pid comm rest = pid @ '' ('' @ comm @ '') '' @ rest"

definition recorded_name :: "gostring \<Rightarrow> gostring" where
  "recorded_name comm = getProcName (hd (SplitN_byte 2 (CHR '' '') (CHR ''('' # comm @ '') '')))"

lemma recorded_plain: "CHR '' '' \<notin> set comm \<Longrightarrow> recorded_name comm = comm"
  using index_byte_first [of "CHR '' ''" "CHR ''('' # comm @ '')''" "[]"] getProcName_parens [of comm]
  by (simp add: recorded_name_def eval_nat_numeral)

lemma recorded_space: "CHR '' '' \<notin> set a \<Longrightarrow> CHR '')'' \<notin> set a \<Longrightarrow> recorded_name (a @ CHR '' '' # b) = []"
  using index_byte_first [of "CHR '' ''" "CHR ''('' # a" "b @ '') ''"] getProcName_open [of "CHR ''('' # a"]
  by (simp add: recorded_name_def eval_nat_numeral)

lemma SplitN_two: "c \<notin> set a \<Longrightarrow> SplitN_byte 2 c (a @ c # b) = [a, b]"
  using index_byte_first [of c a b] by (simp add: eval_nat_numeral)

lemma SplitN_second:
  assumes "CHR '' '' \<notin> set pid"
  shows "2 \<le> length (SplitN_byte 3 (CHR '' '') (stat_line pid comm rest)) \<and>
    getProcName (SplitN_byte 3 (CHR '' '') (stat_line pid comm rest) ! 1) = recorded_name comm"
proof -
  let ?t = "CHR ''('' # comm @ '') '' @ rest"
  have "index_byte (CHR '' '') (pid @ CHR '' '' # ?t) = Some (length pid)"
    using assms by (rule index_byte_first)
  then have 1: "SplitN_byte 3 (CHR '' '') (stat_line pid comm rest) = pid # SplitN_byte 2 (CHR '' '') ?t"
    by (simp add: stat_line_def eval_nat_numeral)
  obtain a b where ab: "CHR ''('' # comm @ '') '' = a @ CHR '' '' # b" "CHR '' '' \<notin> set a"
    using split_list_first [of "CHR '' ''" "CHR ''('' # comm @ '') ''"] by auto
  then have t: "?t = a @ CHR '' '' # b @ rest" by (metis append.assoc append_Cons)
  have "SplitN_byte 2 (CHR '' '') ?t = [a, b @ rest]"
    unfolding t using ab(2) by (rule SplitN_two)
  moreover have "SplitN_byte 2 (CHR '' '') (CHR ''('' # comm @ '') '') = [a, b]"
    unfolding ab(1) using ab(2) by (rule SplitN_two)
  ultimately show ?thesis by (simp add: 1 recorded_name_def)
qed

section \<open>Owners\<close>

definition owns :: "proc_os \<Rightarrow> gostring \<Rightarrow> gostring \<Rightarrow> bool" where
  "owns os base ino \<longleftrightarrow>
     (case ReadDir os (path_Join base ''fd'') of
        None \<Rightarrow> False
      | Some fi \<Rightarrow> list_ex (\<lambda>(f, d). Readlink os (path_Join (path_Join base ''fd'') f) = Some (sockPrefix @ ino @ '']'')) fi)"

text \<open>The process's \<open>stat\<close> can be read and its line has the documented form.\<close>

definition readable :: "proc_os \<Rightarrow> gostring \<Rightarrow> gostring \<Rightarrow> bool" where
  "readable os base comm \<longleftrightarrow>
     (\<exists>r c cs pid rest. OpenFile os (path_Join base ''stat'') = Some r \<and> chunks r = c # cs \<and>
        take 128 c = stat_line pid comm rest \<and> CHR '' '' \<notin> set pid)"

lemma iterFdDir_loop_known:
  "iterFdDir_loop os base pid ino (Some q) sk fi =
     Returns (if list_ex (\<lambda>(f, d). Readlink os (path_Join (path_Join base ''fd'') f) = Some (sockPrefix @ ino @ '']'')) fi
              then Some q else sk)"
  by (induction fi arbitrary: sk)
    (auto simp: strings_HasPrefix_def split: option.splits)

lemma iterFdDir_loop_none:
  assumes "readable os base comm"
  shows "iterFdDir_loop os base pid ino None sk fi =
     Returns (if list_ex (\<lambda>(f, d). Readlink os (path_Join (path_Join base ''fd'') f) = Some (sockPrefix @ ino @ '']'')) fi
              then Some \<lparr>pr_Pid = pid, pr_Name = recorded_name comm\<rparr> else sk)"
proof (induction fi)
  case Nil
  then show ?case by simp
next
  case (Cons p fi)
  obtain f d where p: "p = (f, d)" by (cases p)
  obtain r c cs n rest where r: "OpenFile os (path_Join base ''stat'') = Some r" "chunks r = c # cs"
    "take 128 c = stat_line n comm rest" "CHR '' '' \<notin> set n"
    using assms by (auto simp: readable_def)
  have "fst (conn_Read 128 r) = (stat_line n comm rest, None)" using r(2,3) by (simp add: conn_Read_def)
  then show ?case using Cons r(1) SplitN_second [OF r(4), of comm rest]
    by (auto simp: p strings_HasPrefix_def iterFdDir_loop_known Let_def split: option.splits)
qed

lemma iterFdDir_loop_no_owner:
  "\<not> list_ex (\<lambda>(f, d). Readlink os (path_Join (path_Join base ''fd'') f) = Some (sockPrefix @ ino @ '']'')) fi \<Longrightarrow>
   iterFdDir_loop os base pid ino p sk fi = Returns sk"
  by (induction fi) (auto simp: strings_HasPrefix_def split: option.splits)

lemma iterFdDir_owner:
  "(owns os base ino \<Longrightarrow> readable os base comm) \<Longrightarrow>
   iterFdDir os base pid ino sk =
     Returns (if owns os base ino then Some \<lparr>pr_Pid = pid, pr_Name = recorded_name comm\<rparr> else sk)"
  by (auto simp: iterFdDir_def owns_def iterFdDir_loop_none iterFdDir_loop_no_owner split: option.splits)

text \<open>What the search finds: the last process, in the order of the directory, that owns the inode.\<close>

definition found :: "proc_os \<Rightarrow> gostring \<Rightarrow> (gostring \<Rightarrow> gostring) \<Rightarrow> Process option \<Rightarrow> (gostring \<times> bool) list \<Rightarrow> Process option" where
  "found os ino comm sk fi =
     foldl (\<lambda>sk (name, is_dir).
       case strconv_Atoi name of
         Some pid \<Rightarrow>
           if is_dir \<and> owns os (path_Join ''/proc'' name) ino
           then Some \<lparr>pr_Pid = pid, pr_Name = recorded_name (comm name)\<rparr> else sk
       | None \<Rightarrow> sk) sk fi"

lemma extract_loop_found:
  "(\<And>name d. (name, d) \<in> set fi \<Longrightarrow> owns os (path_Join ''/proc'' name) ino \<Longrightarrow>
      readable os (path_Join ''/proc'' name) (comm name)) \<Longrightarrow>
   extract_loop os ino sk fi = Returns (found os ino comm sk fi)"
proof (induction fi arbitrary: sk)
  case Nil
  then show ?case by (simp add: found_def)
next
  case (Cons p fi)
  obtain name d where p: "p = (name, d)" by (cases p)
  have "iterFdDir os (path_Join ''/proc'' name) pid ino sk =
      Returns (if owns os (path_Join ''/proc'' name) ino
        then Some \<lparr>pr_Pid = pid, pr_Name = recorded_name (comm name)\<rparr> else sk)" for pid sk
    using Cons.prems [of name d] by (intro iterFdDir_owner) (simp add: p)
  moreover have "extract_loop os ino sk fi = Returns (found os ino comm sk fi)" for sk
    using Cons.prems by (intro Cons.IH) auto
  ultimately show ?case by (auto simp: p found_def split: option.splits)
qed

section \<open>Properties\<close>

text \<open>One process with two descriptors, for the witness.\<close>

definition demo_proc :: proc_os where
  "demo_proc = \<lparr>
     ReadDir = [''/proc'' \<mapsto> [(''7'', True), (''net'', True)], ''/proc/7/fd'' \<mapsto> [(''0'', False), (''3'', False)]],
     Readlink = [''/proc/7/fd/0'' \<mapsto> ''/dev/null'', ''/proc/7/fd/3'' \<mapsto> ''socket:[20]''],
     OpenFile = [''/proc/7/stat'' \<mapsto> \<lparr>chunks = [''7 (sshd) S 1''], final_err = EOF\<rparr>]\<rparr>"

text \<open>C36: When the \<open>stat\<close> files of the owners can be read and have their documented form,
  \<open>extractProcInfo\<close> returns without a panic and sets the process of a socket to the last one,
  in the order of the directory, with a descriptor that links to the socket's inode; without
  one the entry stays as it is.\<close>

theorem extractProcInfo_finds:
  assumes "ReadDir os ''/proc'' = Some fi"
    "\<And>name d. (name, d) \<in> set fi \<Longrightarrow> owns os (path_Join ''/proc'' name) (ste_ino e) \<Longrightarrow>
      readable os (path_Join ''/proc'' name) (comm name)"
  shows "extractProcInfo os e = Returns (e\<lparr>ste_Process := found os (ste_ino e) comm (ste_Process e) fi\<rparr>)"
  using extract_loop_found [OF assms(2)] assms(1) by (simp add: extractProcInfo_def)

definition demo_sock :: SockTabEntry where
  "demo_sock = \<lparr>ste_ino = ''20'', ste_LocalAddr = \<lparr>sa_IP = [], sa_Port = 22\<rparr>, ste_RemoteAddr = \<lparr>sa_IP = [], sa_Port = 0\<rparr>,
     ste_State = 10, ste_UID = 0, ste_Process = None\<rparr>"

lemma demo_proc_facts:
  "ReadDir demo_proc ''/proc'' = Some [(''7'', True), (''net'', True)]"
  "owns demo_proc (path_Join ''/proc'' ''7'') ''20''" "\<not> owns demo_proc (path_Join ''/proc'' ''net'') ''20''"
  "readable demo_proc (path_Join ''/proc'' ''7'') ''sshd''"
proof -
  show "ReadDir demo_proc ''/proc'' = Some [(''7'', True), (''net'', True)]" by (simp add: demo_proc_def)
  show "owns demo_proc (path_Join ''/proc'' ''7'') ''20''" "\<not> owns demo_proc (path_Join ''/proc'' ''net'') ''20''"
    by (simp_all add: owns_def demo_proc_def path_Join_def sockPrefix_def)
  show "readable demo_proc (path_Join ''/proc'' ''7'') ''sshd''"
    unfolding readable_def
    by (rule exI [of _ "\<lparr>chunks = [''7 (sshd) S 1''], final_err = EOF\<rparr>"], rule exI [of _ "''7 (sshd) S 1''"],
        rule exI [of _ "[]"], rule exI [of _ "''7''"], rule exI [of _ "''S 1''"]) (simp add: demo_proc_def path_Join_def stat_line_def)
qed

lemma extractProcInfo_finds_witness:
  "extractProcInfo demo_proc demo_sock = Returns (demo_sock\<lparr>ste_Process := Some \<lparr>pr_Pid = 7, pr_Name = ''sshd''\<rparr>\<rparr>)"
proof -
  have "strconv_Atoi ''7'' = Some 7" "strconv_Atoi ''net'' = None"
    by (simp_all add: strconv_Atoi_def strconv_ParseInt_def digit_val_def)
  then have "found demo_proc ''20'' (\<lambda>_. ''sshd'') None [(''7'', True), (''net'', True)] = Some \<lparr>pr_Pid = 7, pr_Name = ''sshd''\<rparr>"
    by (simp add: found_def demo_proc_facts recorded_plain)
  moreover have "extractProcInfo demo_proc demo_sock =
      Returns (demo_sock\<lparr>ste_Process := found demo_proc (ste_ino demo_sock) (\<lambda>_. ''sshd'') (ste_Process demo_sock)
        [(''7'', True), (''net'', True)]\<rparr>)"
    using demo_proc_facts by (intro extractProcInfo_finds) (auto simp: demo_sock_def)
  ultimately show ?thesis by (simp add: demo_sock_def)
qed

text \<open>The name recorded for a process is its command, if that holds no space; of a command with
  a space, unless a closing parenthesis comes before it, nothing is recorded.\<close>

theorem recorded_name_spaces:
  "(CHR '' '' \<notin> set comm \<longrightarrow> recorded_name comm = comm) \<and>
   (CHR '' '' \<notin> set a \<and> CHR '')'' \<notin> set a \<longrightarrow> recorded_name (a @ CHR '' '' # b) = [])"
  using recorded_plain recorded_space by blast

lemma recorded_name_spaces_witness: "recorded_name ''sshd'' = ''sshd'' \<and> recorded_name ''tmux: server'' = []"
  using recorded_name_spaces [of "''sshd''" "''tmux:''" "''server''"] by simp

end
