(* ===== verification/NetstatWindows.thy ===== *)
theory NetstatWindows
  imports Netstat GoBytes
begin

text \<open>
  \<open>netstat/netstat_windows.go\<close>: the socket tables of Windows.  The system calls are an
  argument: what each answers and what it leaves in the buffer.  The buffer's bytes are read
  as the code reads them, by casting them to a count followed by rows of fixed layout, on a
  little-endian machine; a read beyond the buffer, which the code does not check, counts as a
  panic.
\<close>

section \<open>Constants\<close>

definition errInsuffBuff :: u32 where "errInsuffBuff = 122"

definition win_Close :: u8 where "win_Close = 1"
definition win_Listen :: u8 where "win_Listen = 2"
definition win_Established :: u8 where "win_Established = 5"

definition win_skStates :: "gostring list" where
  "win_skStates = [''UNKNOWN'', [], ''LISTEN'', ''SYN_SENT'', ''SYN_RECV'', ''ESTABLISHED'', ''FIN_WAIT1'',
     ''FIN_WAIT2'', ''CLOSE_WAIT'', ''CLOSING'', ''LAST_ACK'', ''TIME_WAIT'', ''DELETE_TCB'']"

section \<open>Memory\<close>

text \<open>A 32-bit word read from memory, and the bytes a word has there.\<close>

definition mem32 :: "gostring \<Rightarrow> nat \<Rightarrow> u32" where
  "mem32 b i = of_nat (le32_value (drop i b))"

definition memToIPv4 :: "u32 \<Rightarrow> gostring" where
  "memToIPv4 a = le32 (unat a)"

definition memToIPv6 :: "gostring \<Rightarrow> gostring" where
  "memToIPv6 a = take 16 a"

text \<open>The first two bytes of a word, the high one first.\<close>

definition memtohs :: "u32 \<Rightarrow> u16" where
  "memtohs n = (let b = le32 (unat n) in of_nat (code (b ! 0) * 256 + code (b ! 1)))"

record WinSock =
  ws_Addr :: u32
  ws_Port :: u32

definition WinSock_Sock :: "WinSock \<Rightarrow> SockAddr" where
  "WinSock_Sock w = \<lparr>sa_IP = memToIPv4 (ws_Addr w), sa_Port = memtohs (ws_Port w)\<rparr>"

record WinSock6 =
  ws6_Addr :: gostring
  ws6_ScopeID :: u32
  ws6_Port :: u32

definition WinSock6_Sock :: "WinSock6 \<Rightarrow> SockAddr" where
  "WinSock6_Sock w = \<lparr>sa_IP = memToIPv6 (ws6_Addr w), sa_Port = memtohs (ws6_Port w)\<rparr>"

definition mem_WinSock :: "gostring \<Rightarrow> nat \<Rightarrow> WinSock" where
  "mem_WinSock b i = \<lparr>ws_Addr = mem32 b i, ws_Port = mem32 b (i + 4)\<rparr>"

definition mem_WinSock6 :: "gostring \<Rightarrow> nat \<Rightarrow> WinSock6" where
  "mem_WinSock6 b i = \<lparr>ws6_Addr = take 16 (drop i b), ws6_ScopeID = mem32 b (i + 16), ws6_Port = mem32 b (i + 20)\<rparr>"

section \<open>Rows\<close>

record MibTCPRow =
  tcp_State :: u32
  tcp_LocalAddr :: WinSock
  tcp_RemoteAddr :: WinSock
  tcp_WinPid :: u32
  tcp_OffloadState :: u32

record MibTCP6Row =
  tcp6_LocalAddr :: WinSock6
  tcp6_RemoteAddr :: WinSock6
  tcp6_State :: u32
  tcp6_WinPid :: u32
  tcp6_OffloadState :: u32

record MibUDP4RowOwnerPID =
  udp_Sock :: WinSock
  udp_WinPid :: u32

record MibUDP6RowOwnerPID =
  udp6_Sock :: WinSock6
  udp6_WinPid :: u32

text \<open>The methods of \<open>winSockEnt\<close>, which the four kinds of row have.\<close>

record winSockEnt =
  ent_LocalSock :: SockAddr
  ent_RemoteSock :: SockAddr
  ent_SockState :: u8
  ent_UID :: u32

definition IPv4zero :: gostring where
  "IPv4zero = replicate 10 (byte 0) @ [byte 255, byte 255] @ replicate 4 (byte 0)"

definition tcp_ent :: "MibTCPRow \<Rightarrow> winSockEnt" where
  "tcp_ent m = \<lparr>ent_LocalSock = WinSock_Sock (tcp_LocalAddr m), ent_RemoteSock = WinSock_Sock (tcp_RemoteAddr m),
     ent_SockState = ucast (tcp_State m), ent_UID = tcp_WinPid m\<rparr>"

definition tcp6_ent :: "MibTCP6Row \<Rightarrow> winSockEnt" where
  "tcp6_ent m = \<lparr>ent_LocalSock = WinSock6_Sock (tcp6_LocalAddr m), ent_RemoteSock = WinSock6_Sock (tcp6_RemoteAddr m),
     ent_SockState = ucast (tcp6_State m), ent_UID = tcp6_WinPid m\<rparr>"

definition udp_ent :: "MibUDP4RowOwnerPID \<Rightarrow> winSockEnt" where
  "udp_ent m = \<lparr>ent_LocalSock = WinSock_Sock (udp_Sock m), ent_RemoteSock = \<lparr>sa_IP = IPv4zero, sa_Port = 0\<rparr>,
     ent_SockState = win_Close, ent_UID = udp_WinPid m\<rparr>"

definition udp6_ent :: "MibUDP6RowOwnerPID \<Rightarrow> winSockEnt" where
  "udp6_ent m = \<lparr>ent_LocalSock = WinSock6_Sock (udp6_Sock m), ent_RemoteSock = \<lparr>sa_IP = IPv4zero, sa_Port = 0\<rparr>,
     ent_SockState = win_Close, ent_UID = udp6_WinPid m\<rparr>"

definition toSockTabEntry :: "winSockEnt \<Rightarrow> SockTabEntry" where
  "toSockTabEntry ws =
     \<lparr>ste_ino = [], ste_LocalAddr = ent_LocalSock ws, ste_RemoteAddr = ent_RemoteSock ws,
      ste_State = ent_SockState ws, ste_UID = ent_UID ws, ste_Process = None\<rparr>"

text \<open>The rows as laid out in memory: 28, 56 + 4, 12 and 28 bytes.\<close>

definition mem_MibTCPRow :: "gostring \<Rightarrow> MibTCPRow" where
  "mem_MibTCPRow b = \<lparr>tcp_State = mem32 b 0, tcp_LocalAddr = mem_WinSock b 4, tcp_RemoteAddr = mem_WinSock b 12,
     tcp_WinPid = mem32 b 20, tcp_OffloadState = mem32 b 24\<rparr>"

definition mem_MibTCP6Row :: "gostring \<Rightarrow> MibTCP6Row" where
  "mem_MibTCP6Row b = \<lparr>tcp6_LocalAddr = mem_WinSock6 b 0, tcp6_RemoteAddr = mem_WinSock6 b 24, tcp6_State = mem32 b 48,
     tcp6_WinPid = mem32 b 52, tcp6_OffloadState = mem32 b 56\<rparr>"

definition mem_MibUDP4Row :: "gostring \<Rightarrow> MibUDP4RowOwnerPID" where
  "mem_MibUDP4Row b = \<lparr>udp_Sock = mem_WinSock b 0, udp_WinPid = mem32 b 8\<rparr>"

definition mem_MibUDP6Row :: "gostring \<Rightarrow> MibUDP6RowOwnerPID" where
  "mem_MibUDP6Row b = \<lparr>udp6_Sock = mem_WinSock6 b 0, udp6_WinPid = mem32 b 24\<rparr>"

text \<open>
  \<open>Rows\<close> of a table: the slice header is set to the count in the first word, the data to
  what follows it.
\<close>

definition Rows :: "nat \<Rightarrow> (gostring \<Rightarrow> 'r) \<Rightarrow> gostring \<Rightarrow> 'r list outcome" where
  "Rows width row b =
     (if length b < 4 then Panics
      else let n = unat (mem32 b 0) in
        if length b < 4 + n * width then Panics
        else Returns (map (\<lambda>i. row (take width (drop (4 + i * width) b))) [0..<n]))"

definition MibTCPTable_Rows :: "gostring \<Rightarrow> MibTCPRow list outcome" where
  "MibTCPTable_Rows = Rows 28 mem_MibTCPRow"

definition MibTCP6Table_Rows :: "gostring \<Rightarrow> MibTCP6Row list outcome" where
  "MibTCP6Table_Rows = Rows 60 mem_MibTCP6Row"

definition MibUDP4Table_Rows :: "gostring \<Rightarrow> MibUDP4RowOwnerPID list outcome" where
  "MibUDP4Table_Rows = Rows 12 mem_MibUDP4Row"

definition MibUDP6Table_Rows :: "gostring \<Rightarrow> MibUDP6RowOwnerPID list outcome" where
  "MibUDP6Table_Rows = Rows 28 mem_MibUDP6Row"

section \<open>System calls\<close>

text \<open>What a call answers: the error of the call, its result, the size and the buffer it leaves.\<close>

record win_call =
  callErr :: u32
  r1 :: u32
  call_size :: u32
  call_buf :: gostring

text \<open>\<open>GetTcpTable2\<close>, \<open>GetTcp6Table2\<close>, \<open>GetExtendedUdpTable\<close>: by size and order.\<close>

record win_os =
  procGetTCPTable2 :: "u32 \<Rightarrow> bool \<Rightarrow> win_call"
  procGetTCP6Table2 :: "u32 \<Rightarrow> bool \<Rightarrow> win_call"
  procGetUDPTable :: "u32 \<Rightarrow> bool \<Rightarrow> win_call"
  procGetUDP6Table :: "u32 \<Rightarrow> bool \<Rightarrow> win_call"

datatype win_error = Errno u32 | WinUnknownMode

definition raw_error :: "win_call \<Rightarrow> u32 option" where
  "raw_error c = (if callErr c \<noteq> 0 then Some (callErr c) else if r1 c \<noteq> 0 then Some (r1 c) else None)"

text \<open>
  Asking for the size and then for the table.  \<open>first_order\<close> is the order of the first call.
  Taking the address of the first byte of an empty buffer panics.
\<close>

definition get_table :: "(u32 \<Rightarrow> bool \<Rightarrow> win_call) \<Rightarrow> bool \<Rightarrow> bool \<Rightarrow> (win_error + gostring) outcome" where
  "get_table sys first_order order =
     (let c = sys 0 first_order in
      if raw_error c \<noteq> None \<and> raw_error c \<noteq> Some errInsuffBuff then Returns (Inl (Errno (the (raw_error c))))
      else let n = unat (call_size c) in
        if n = 0 then Panics
        else let c' = sys (call_size c) order in
          case raw_error c' of
            Some e \<Rightarrow> Returns (Inl (Errno e))
          | None \<Rightarrow> Returns (Inr (take n (call_buf c' @ replicate n (byte 0)))))"

definition getTCPTable :: "(u32 \<Rightarrow> bool \<Rightarrow> win_call) \<Rightarrow> bool \<Rightarrow> (win_error + gostring) outcome" where
  "getTCPTable sys order = get_table sys False True"

definition GetExtendedUDPTable :: "(u32 \<Rightarrow> bool \<Rightarrow> win_call) \<Rightarrow> bool \<Rightarrow> (win_error + gostring) outcome" where
  "GetExtendedUDPTable sys order = get_table sys order order"

text \<open>The argument \<open>order\<close> of the four functions is not passed on.\<close>

definition GetTCPTable :: "win_os \<Rightarrow> bool \<Rightarrow> (win_error + gostring) outcome" where
  "GetTCPTable os order = getTCPTable (procGetTCPTable2 os) True"

definition GetTCP6Table :: "win_os \<Rightarrow> bool \<Rightarrow> (win_error + gostring) outcome" where
  "GetTCP6Table os order = getTCPTable (procGetTCP6Table2 os) True"

definition GetUDPTableOwnerPID :: "win_os \<Rightarrow> bool \<Rightarrow> (win_error + gostring) outcome" where
  "GetUDPTableOwnerPID os order = GetExtendedUDPTable (procGetUDPTable os) True"

definition GetUDP6TableOwnerPID :: "win_os \<Rightarrow> bool \<Rightarrow> (win_error + gostring) outcome" where
  "GetUDP6TableOwnerPID os order = GetExtendedUDPTable (procGetUDP6Table os) True"

section \<open>Sockets\<close>

fun accept_loop :: "('r \<Rightarrow> winSockEnt) \<Rightarrow> AcceptFn \<Rightarrow> SockTabEntry list \<Rightarrow> 'r list \<Rightarrow> SockTabEntry list" where
  "accept_loop ent accept sktab [] = sktab"
| "accept_loop ent accept sktab (s # ss) =
     (let e = toSockTabEntry (ent s) in
      accept_loop ent accept (if accept e then sktab @ [e] else sktab) ss)"

text \<open>The common shape of the four functions, as in \<open>getSocks\<close>.\<close>

definition getSocks ::
  "(win_error + gostring) outcome \<Rightarrow> (gostring \<Rightarrow> 'r list outcome) \<Rightarrow> ('r \<Rightarrow> winSockEnt) \<Rightarrow> AcceptFn \<Rightarrow>
    (win_error + SockTabEntry list) outcome" where
  "getSocks tbl rows ent accept =
     (case tbl of
        Panics \<Rightarrow> Panics | Blocks \<Rightarrow> Blocks
      | Returns (Inl err) \<Rightarrow> Returns (Inl err)
      | Returns (Inr b) \<Rightarrow>
          (case rows b of
             Panics \<Rightarrow> Panics | Blocks \<Rightarrow> Blocks
           | Returns s \<Rightarrow> Returns (Inr (accept_loop ent accept [] s))))"

definition win_osTCPSocks :: "win_os \<Rightarrow> AcceptFn \<Rightarrow> (win_error + SockTabEntry list) outcome" where
  "win_osTCPSocks os accept = getSocks (GetTCPTable os True) MibTCPTable_Rows tcp_ent accept"

definition win_osTCP6Socks :: "win_os \<Rightarrow> AcceptFn \<Rightarrow> (win_error + SockTabEntry list) outcome" where
  "win_osTCP6Socks os accept = getSocks (GetTCP6Table os True) MibTCP6Table_Rows tcp6_ent accept"

definition win_osUDPSocks :: "win_os \<Rightarrow> AcceptFn \<Rightarrow> (win_error + SockTabEntry list) outcome" where
  "win_osUDPSocks os accept = getSocks (GetUDPTableOwnerPID os True) MibUDP4Table_Rows udp_ent accept"

definition win_osUDP6Socks :: "win_os \<Rightarrow> AcceptFn \<Rightarrow> (win_error + SockTabEntry list) outcome" where
  "win_osUDP6Socks os accept = getSocks (GetUDP6TableOwnerPID os True) MibUDP6Table_Rows udp6_ent accept"

definition win_osSocks :: "win_os \<Rightarrow> gostring \<Rightarrow> AcceptFn \<Rightarrow> (win_error + SockTabEntry list) outcome" where
  "win_osSocks os mode accept =
     (if mode = ''tcp'' then win_osTCPSocks os accept
      else if mode = ''tcp6'' then win_osTCP6Socks os accept
      else if mode = ''udp'' then win_osUDPSocks os accept
      else if mode = ''udp6'' then win_osUDP6Socks os accept
      else Returns (Inl WinUnknownMode))"

definition win_osPorts :: "win_os \<Rightarrow> gostring \<Rightarrow> AcceptFn \<Rightarrow> (win_error + u16 list) outcome" where
  "win_osPorts os mode accept =
     (case win_osSocks os mode accept of
        Panics \<Rightarrow> Panics | Blocks \<Rightarrow> Blocks
      | Returns (Inl err) \<Rightarrow> Returns (Inl err)
      | Returns (Inr socks) \<Rightarrow> Returns (Inr (ToPorts socks)))"

definition windows_api :: "win_os \<Rightarrow> win_error os_api" where
  "windows_api os =
     \<lparr>osTCPSocks = win_osTCPSocks os, osTCP6Socks = win_osTCP6Socks os, osUDPSocks = win_osUDPSocks os,
      osUDP6Socks = win_osUDP6Socks os, osSocks = win_osSocks os, osPorts = win_osPorts os\<rparr>"

section \<open>Process names\<close>

definition StringFromNullTerminated :: "gostring \<Rightarrow> gostring" where
  "StringFromNullTerminated b =
     (case List.find (\<lambda>i. b ! i = byte 0) [0..<length b] of
        None \<Rightarrow> []
      | Some n \<Rightarrow> if n < 1 then [] else take n b)"

text \<open>
  A snapshot of the processes: what the calls that walk through it answer, one after the
  other.  The walk ends at the first error, at the latest where the list ends.
\<close>

datatype snap_error = SnapErrno u32 | NoMoreFiles | InvalidHandle

record snap_call =
  snap_callErr :: u32
  snap_r1 :: "64 word"
  snap_pid :: u32
  snap_exe :: gostring

definition CreateToolhelp32Snapshot :: "u32 \<Rightarrow> 64 word \<Rightarrow> snap_error + 64 word" where
  "CreateToolhelp32Snapshot err r =
     (if err \<noteq> 0 then Inl (SnapErrno err)
      else if r = - 1 then Inl InvalidHandle
      else Inr r)"

definition Process32First :: "snap_call \<Rightarrow> snap_error option" where
  "Process32First c =
     (if snap_callErr c \<noteq> 0 then Some (SnapErrno (snap_callErr c))
      else if snap_r1 c = 0 then Some NoMoreFiles else None)"

definition Process32Next :: "snap_call \<Rightarrow> snap_error option" where
  "Process32Next c =
     (if snap_callErr c \<noteq> 0 then Some (SnapErrno (snap_callErr c))
      else if snap_r1 c = 0 then Some NoMoreFiles else None)"

text \<open>The loop compares the entry read last and then reads the next one.\<close>

fun ProcPIDToName_loop :: "snap_call \<Rightarrow> snap_call list \<Rightarrow> u32 \<Rightarrow> gostring" where
  "ProcPIDToName_loop entry rest pid =
     (if snap_pid entry = pid then StringFromNullTerminated (snap_exe entry)
      else case rest of
        [] \<Rightarrow> []
      | c # cs \<Rightarrow> if Process32Next c \<noteq> None then [] else ProcPIDToName_loop c cs pid)"

definition ProcPIDToName :: "snap_call list \<Rightarrow> u32 \<Rightarrow> gostring" where
  "ProcPIDToName snp pid =
     (case snp of
        [] \<Rightarrow> []
      | c # cs \<Rightarrow> if Process32First c \<noteq> None then [] else ProcPIDToName_loop c cs pid)"

definition sockProcess :: "snap_call list \<Rightarrow> u32 \<Rightarrow> Process option" where
  "sockProcess snp pid =
     (if pid < 1 then None else Some \<lparr>pr_Pid = uint pid, pr_Name = ProcPIDToName snp pid\<rparr>)"

section \<open>The interface\<close>

lemma accept_loop_eq:
  "accept_loop ent accept sktab ss = sktab @ filter accept (map (toSockTabEntry \<circ> ent) ss)"
  by (induction ss arbitrary: sktab) (simp_all add: Let_def)

lemma getSocks_filtered:
  "getSocks tbl rows ent NoopFilter = Returns (Inr es) \<Longrightarrow>
   getSocks tbl rows ent accept = Returns (Inr (filter accept es))"
  by (auto simp: getSocks_def accept_loop_eq NoopFilter_def filter_map comp_def split: outcome.splits sum.splits)

lemmas win_socks_defs = win_osTCPSocks_def win_osTCP6Socks_def win_osUDPSocks_def win_osUDP6Socks_def

lemmas win_table_defs = getTCPTable_def GetExtendedUDPTable_def GetTCPTable_def GetTCP6Table_def GetUDPTableOwnerPID_def
  GetUDP6TableOwnerPID_def MibTCPTable_Rows_def MibTCP6Table_Rows_def MibUDP4Table_Rows_def MibUDP6Table_Rows_def

lemma win_osSocks_filtered:
  "win_osSocks os mode NoopFilter = Returns (Inr es) \<Longrightarrow> win_osSocks os mode accept = Returns (Inr (filter accept es))"
  by (auto simp: win_osSocks_def win_socks_defs split: if_splits intro: getSocks_filtered)

interpretation windows: socket_tables "windows_api os" for os
proof unfold_locales
  fix mode es
  assume "osSocks (windows_api os) mode NoopFilter = Returns (Inr es)"
  then have m: "win_osSocks os mode NoopFilter = Returns (Inr es)" by (simp add: windows_api_def)
  then show "osSocks (windows_api os) mode accept = Returns (Inr (filter accept es))" for accept
    by (simp add: windows_api_def win_osSocks_filtered)
  show "\<exists>ps. osPorts (windows_api os) mode NoopFilter = Returns (Inr ps) \<and> set ps = SockPort ` set es"
    using m by (simp add: windows_api_def win_osPorts_def set_ToPorts)
qed (auto simp: windows_api_def win_osSocks_def win_osPorts_def all_modes_def)

section \<open>Decoding\<close>

text \<open>The layouts of the documentation, as bytes: ports in network order with two unused bytes.\<close>

definition be16 :: "u16 \<Rightarrow> gostring" where
  "be16 p = [byte (unat p div 256), byte (unat p mod 256)]"

definition sock_bytes :: "SockAddr \<Rightarrow> gostring" where
  "sock_bytes a = sa_IP a @ be16 (sa_Port a) @ [byte 0, byte 0]"

definition sock6_bytes :: "u32 \<Rightarrow> SockAddr \<Rightarrow> gostring" where
  "sock6_bytes scope a = sa_IP a @ le32 (unat scope) @ be16 (sa_Port a) @ [byte 0, byte 0]"

definition tcp_row_bytes :: "SockTabEntry \<Rightarrow> gostring" where
  "tcp_row_bytes e = le32 (unat (ste_State e)) @ sock_bytes (ste_LocalAddr e) @ sock_bytes (ste_RemoteAddr e) @
     le32 (unat (ste_UID e)) @ le32 0"

definition tcp6_row_bytes :: "SockTabEntry \<Rightarrow> gostring" where
  "tcp6_row_bytes e = sock6_bytes 0 (ste_LocalAddr e) @ sock6_bytes 0 (ste_RemoteAddr e) @
     le32 (unat (ste_State e)) @ le32 (unat (ste_UID e)) @ le32 0"

definition udp_row_bytes :: "SockTabEntry \<Rightarrow> gostring" where
  "udp_row_bytes e = sock_bytes (ste_LocalAddr e) @ le32 (unat (ste_UID e))"

definition udp6_row_bytes :: "SockTabEntry \<Rightarrow> gostring" where
  "udp6_row_bytes e = sock6_bytes 0 (ste_LocalAddr e) @ le32 (unat (ste_UID e))"

definition table_bytes :: "gostring list \<Rightarrow> gostring" where
  "table_bytes rows = le32 (length rows) @ concat rows"

definition win_entry :: "nat \<Rightarrow> SockTabEntry \<Rightarrow> bool" where
  "win_entry k e \<longleftrightarrow> length (sa_IP (ste_LocalAddr e)) = k \<and> length (sa_IP (ste_RemoteAddr e)) = k \<and>
     ste_ino e = [] \<and> ste_Process e = None"

definition win_udp_entry :: "nat \<Rightarrow> SockTabEntry \<Rightarrow> bool" where
  "win_udp_entry k e \<longleftrightarrow> length (sa_IP (ste_LocalAddr e)) = k \<and> ste_RemoteAddr e = \<lparr>sa_IP = IPv4zero, sa_Port = 0\<rparr> \<and>
     ste_State e = win_Close \<and> ste_ino e = [] \<and> ste_Process e = None"

lemma length_parts [simp]: "length (be16 p) = 2" "length (sock_bytes a) = length (sa_IP a) + 4"
    "length (sock6_bytes s a) = length (sa_IP a) + 8"
  by (simp_all add: be16_def sock_bytes_def sock6_bytes_def)

lemma mem32_drop: "mem32 b i = mem32 (drop i b) 0"
  by (simp add: mem32_def)

lemma mem32_le32: "mem32 (le32 (unat w) @ s) 0 = (w :: u32)"
proof -
  have "unat w < 2 ^ LENGTH(32)" by (rule unsigned_less)
  then show ?thesis by (simp add: mem32_def le32_value_le32)
qed

lemma unat_mem32:
  assumes "length s = 4"
  shows "le32 (unat (mem32 (s @ t) 0)) = s"
proof -
  obtain a b c d where s: "s = [a, b, c, d]" using assms by (auto simp: numeral_eq_Suc length_Suc_conv)
  have "unat (mem32 (s @ t) 0) = le32_value (s @ t)"
    using le32_value_lt [of a b c d t] by (simp add: mem32_def s unsigned_of_nat take_bit_nat_eq_self)
  then show ?thesis using le32_le32_value [of a b c d t] by (simp add: s)
qed

lemma memtohs_be16: "memtohs (mem32 (be16 p @ [x, y] @ s) 0) = p"
proof -
  have "unat p < 2 ^ LENGTH(16)" by (rule unsigned_less)
  then have "code (byte (unat p div 256)) = unat p div 256" by simp
  moreover have "code (byte (unat p mod 256)) = unat p mod 256" by simp
  ultimately have c: "code (byte (unat p div 256)) * 256 + code (byte (unat p mod 256)) = unat p"
    by (simp only: div_mult_mod_eq)
  have b: "le32 (unat (mem32 (be16 p @ [x, y] @ s) 0)) = [byte (unat p div 256), byte (unat p mod 256), x, y]"
    using unat_mem32 [of "be16 p @ [x, y]" s] by (simp add: be16_def)
  show ?thesis unfolding memtohs_def Let_def b by (simp only: nth_Cons_0 nth_Cons_Suc One_nat_def c) simp
qed

lemma mem_WinSock_bytes:
  assumes "length (sa_IP a) = 4"
  shows "WinSock_Sock (mem_WinSock (sock_bytes a @ s) 0) = a"
proof -
  have "mem32 (sock_bytes a @ s) 4 = mem32 (be16 (sa_Port a) @ [byte 0, byte 0] @ s) 0"
    using assms by (subst mem32_drop) (simp add: sock_bytes_def)
  moreover have "le32 (unat (mem32 (sock_bytes a @ s) 0)) = sa_IP a"
    using unat_mem32 [OF assms] by (simp add: sock_bytes_def)
  ultimately show ?thesis using memtohs_be16 [of "sa_Port a" "byte 0" "byte 0" s]
    by (cases a) (simp add: WinSock_Sock_def mem_WinSock_def memToIPv4_def)
qed

lemma mem_WinSock6_bytes:
  assumes "length (sa_IP a) = 16"
  shows "WinSock6_Sock (mem_WinSock6 (sock6_bytes sc a @ s) 0) = a"
proof -
  have "mem32 (sock6_bytes sc a @ s) 20 = mem32 (be16 (sa_Port a) @ [byte 0, byte 0] @ s) 0"
    using assms by (subst mem32_drop) (simp add: sock6_bytes_def)
  then show ?thesis using memtohs_be16 [of "sa_Port a" "byte 0" "byte 0" s] assms
    by (cases a) (simp add: WinSock6_Sock_def mem_WinSock6_def memToIPv6_def sock6_bytes_def)
qed

lemma mem_WinSock_drop: "mem_WinSock b i = mem_WinSock (drop i b) 0" "mem_WinSock6 b i = mem_WinSock6 (drop i b) 0"
  by (simp_all add: mem_WinSock_def mem_WinSock6_def mem32_def add.commute)

lemma state_word: "ucast (mem32 (le32 (unat (st :: u8)) @ s) 0) = st"
proof -
  have l: "unat st < 2 ^ LENGTH(8)" by (rule unsigned_less)
  then have "unat st < 4294967296" by simp
  then have "mem32 (le32 (unat st) @ s) 0 = of_nat (unat st)" by (simp add: mem32_def le32_value_le32)
  with l show ?thesis by (simp add: ucast_up_ucast_id is_up)
qed

lemma tcp_row_decodes:
  assumes "win_entry 4 e"
  shows "toSockTabEntry (tcp_ent (mem_MibTCPRow (tcp_row_bytes e))) = e"
proof -
  have l: "length (sa_IP (ste_LocalAddr e)) = 4" "length (sa_IP (ste_RemoteAddr e)) = 4"
    using assms by (simp_all add: win_entry_def)
  have "drop 4 (tcp_row_bytes e) = sock_bytes (ste_LocalAddr e) @ sock_bytes (ste_RemoteAddr e) @ le32 (unat (ste_UID e)) @ le32 0"
    "drop 12 (tcp_row_bytes e) = sock_bytes (ste_RemoteAddr e) @ le32 (unat (ste_UID e)) @ le32 0"
    "drop 20 (tcp_row_bytes e) = le32 (unat (ste_UID e)) @ le32 0"
    using l by (simp_all add: tcp_row_bytes_def)
  then show ?thesis using assms l
    by (cases e) (simp add: toSockTabEntry_def tcp_ent_def mem_MibTCPRow_def mem_WinSock_drop [of _ 4] mem_WinSock_drop [of _ 12]
        mem32_drop [of _ 20] mem32_le32 mem_WinSock_bytes win_entry_def state_word tcp_row_bytes_def)
qed

lemma tcp6_row_decodes:
  assumes "win_entry 16 e"
  shows "toSockTabEntry (tcp6_ent (mem_MibTCP6Row (tcp6_row_bytes e))) = e"
proof -
  have l: "length (sa_IP (ste_LocalAddr e)) = 16" "length (sa_IP (ste_RemoteAddr e)) = 16"
    using assms by (simp_all add: win_entry_def)
  have "drop 24 (tcp6_row_bytes e) = sock6_bytes 0 (ste_RemoteAddr e) @ le32 (unat (ste_State e)) @ le32 (unat (ste_UID e)) @ le32 0"
    "drop 48 (tcp6_row_bytes e) = le32 (unat (ste_State e)) @ le32 (unat (ste_UID e)) @ le32 0"
    "drop 52 (tcp6_row_bytes e) = le32 (unat (ste_UID e)) @ le32 0"
    using l by (simp_all add: tcp6_row_bytes_def)
  then show ?thesis using assms l
    by (cases e) (simp add: toSockTabEntry_def tcp6_ent_def mem_MibTCP6Row_def mem_WinSock_drop(2) [of _ 24]
        mem32_drop [of _ 48] mem32_drop [of _ 52] mem32_le32 mem_WinSock6_bytes win_entry_def state_word tcp6_row_bytes_def)
qed

lemma udp_row_decodes:
  assumes "win_udp_entry 4 e"
  shows "toSockTabEntry (udp_ent (mem_MibUDP4Row (udp_row_bytes e))) = e"
proof -
  have l: "length (sa_IP (ste_LocalAddr e)) = 4" using assms by (simp add: win_udp_entry_def)
  then have "drop 8 (udp_row_bytes e) = le32 (unat (ste_UID e)) @ []" by (simp add: udp_row_bytes_def)
  then show ?thesis using assms l
    by (cases e) (simp add: toSockTabEntry_def udp_ent_def mem_MibUDP4Row_def mem32_drop [of _ 8]
        mem32_le32 [where s = "[]", simplified] mem_WinSock_bytes win_udp_entry_def udp_row_bytes_def)
qed

lemma udp6_row_decodes:
  assumes "win_udp_entry 16 e"
  shows "toSockTabEntry (udp6_ent (mem_MibUDP6Row (udp6_row_bytes e))) = e"
proof -
  have l: "length (sa_IP (ste_LocalAddr e)) = 16" using assms by (simp add: win_udp_entry_def)
  then have "drop 24 (udp6_row_bytes e) = le32 (unat (ste_UID e)) @ []" by (simp add: udp6_row_bytes_def)
  then show ?thesis using assms l
    by (cases e) (simp add: toSockTabEntry_def udp6_ent_def mem_MibUDP6Row_def mem32_drop [of _ 24]
        mem32_le32 [where s = "[]", simplified] mem_WinSock6_bytes win_udp_entry_def udp6_row_bytes_def)
qed

lemma nth_row:
  "i < length xs \<Longrightarrow> list_all (\<lambda>x. length x = w) xs \<Longrightarrow> take w (drop (i * w) (concat xs @ ys)) = xs ! i"
proof (induction xs arbitrary: i)
  case Nil
  then show ?case by simp
next
  case (Cons x xs)
  then show ?case by (cases i) simp_all
qed

lemma length_rows: "list_all (\<lambda>x. length x = w) xs \<Longrightarrow> length (concat xs) = length xs * w"
  by (induction xs) auto

lemma getSocks_table:
  assumes "list_all (\<lambda>e. length (enc e) = width \<and> toSockTabEntry (ent (row (enc e))) = e) es" "length es < 2 ^ 32"
    "tbl = Returns (Inr (table_bytes (map enc es) @ spare))"
  shows "getSocks tbl (Rows width row) ent accept = Returns (Inr (filter accept es))"
proof -
  let ?b = "table_bytes (map enc es) @ spare"
  have w: "list_all (\<lambda>x. length x = width) (map enc es)" using assms(1) by (simp add: list_all_iff)
  have n: "unat (mem32 ?b 0) = length es"
    using assms(2) by (simp add: mem32_def table_bytes_def le32_value_le32 unsigned_of_nat take_bit_nat_eq_self)
  have l: "4 + length es * width \<le> length ?b" using length_rows [OF w] by (simp add: table_bytes_def)
  have "take width (drop (4 + i * width) ?b) = enc (es ! i)" if "i < length es" for i
    using nth_row [OF _ w, of i spare] that by (simp add: table_bytes_def)
  then have "map (\<lambda>i. row (take width (drop (4 + i * width) ?b))) [0..<length es] = map (row \<circ> enc) es"
    by (intro nth_equalityI) simp_all
  then have "Rows width row ?b = Returns (map (row \<circ> enc) es)"
    using l by (simp add: Rows_def n Let_def del: length_append append_assoc)
  moreover have "map (toSockTabEntry \<circ> ent \<circ> (row \<circ> enc)) es = es"
    using assms(1) by (auto simp: list_all_iff intro: map_idI)
  ultimately show ?thesis using assms(3) by (simp add: getSocks_def accept_loop_eq comp_assoc)
qed

text \<open>
  The documented behaviour of the calls: asked with no buffer they fail for want of one and
  give its size; asked with one of that size they fill it with a count and the rows.
\<close>

definition answers :: "(u32 \<Rightarrow> bool \<Rightarrow> win_call) \<Rightarrow> gostring \<Rightarrow> bool" where
  "answers sys b \<longleftrightarrow>
     (\<forall>order. raw_error (sys 0 order) = Some errInsuffBuff \<and> call_size (sys 0 order) = of_nat (length b)) \<and>
     raw_error (sys (of_nat (length b)) True) = None \<and> call_buf (sys (of_nat (length b)) True) = b"

lemma get_table_answers:
  assumes "answers sys b" "b \<noteq> []" "length b < 2 ^ 32"
  shows "get_table sys order True = Returns (Inr b)"
proof -
  have n: "unat (of_nat (length b) :: u32) = length b"
    using assms(3) by (simp add: unsigned_of_nat take_bit_nat_eq_self)
  then show ?thesis using assms(1,2) by (simp add: get_table_def answers_def Let_def)
qed

lemma win_table_ok:
  assumes "answers sys (table_bytes (map enc es))" "length (table_bytes (map enc es)) < 2 ^ 32" "0 < width"
    "list_all (\<lambda>e. length (enc e) = width \<and> toSockTabEntry (ent (row (enc e))) = e) es"
  shows "getSocks (get_table sys order True) (Rows width row) ent accept = Returns (Inr (filter accept es))"
proof (rule getSocks_table [where enc = enc and es = es and spare = "[]" and ent = ent and row = row and width = width])
  show "list_all (\<lambda>e. length (enc e) = width \<and> toSockTabEntry (ent (row (enc e))) = e) es" by (rule assms(4))
  have "list_all (\<lambda>x. length x = width) (map enc es)" using assms(4) by (simp add: list_all_iff)
  then have "length es * width \<le> length (table_bytes (map enc es))"
    by (simp add: table_bytes_def length_rows)
  moreover have "length es \<le> length es * width" using assms(3) by simp
  ultimately show "length es < 2 ^ 32" using assms(2) by linarith
  have "table_bytes (map enc es) \<noteq> []" by (simp add: table_bytes_def le32_def)
  then show "get_table sys order True = Returns (Inr (table_bytes (map enc es) @ []))"
    using get_table_answers [OF assms(1) _ assms(2)] by simp
qed

section \<open>Properties\<close>

text \<open>C24: On Windows the four socket tables are read back as the system lays them out: the casts of
  the buffer give exactly the sockets of the table, with addresses, ports in network order,
  states and process ids, and the filter picks from them.\<close>

theorem windows_tables_read:
  assumes "answers (procGetTCPTable2 os) (table_bytes (map tcp_row_bytes es))" "list_all (win_entry 4) es"
    "answers (procGetTCP6Table2 os) (table_bytes (map tcp6_row_bytes es6))" "list_all (win_entry 16) es6"
    "answers (procGetUDPTable os) (table_bytes (map udp_row_bytes us))" "list_all (win_udp_entry 4) us"
    "answers (procGetUDP6Table os) (table_bytes (map udp6_row_bytes us6))" "list_all (win_udp_entry 16) us6"
    "\<forall>b\<in>{table_bytes (map tcp_row_bytes es), table_bytes (map tcp6_row_bytes es6),
         table_bytes (map udp_row_bytes us), table_bytes (map udp6_row_bytes us6)}. length b < 2 ^ 32"
  shows "win_osTCPSocks os accept = Returns (Inr (filter accept es)) \<and>
    win_osTCP6Socks os accept = Returns (Inr (filter accept es6)) \<and>
    win_osUDPSocks os accept = Returns (Inr (filter accept us)) \<and>
    win_osUDP6Socks os accept = Returns (Inr (filter accept us6))"
proof -
  note d = win_socks_defs win_table_defs
  have "win_osTCPSocks os accept = Returns (Inr (filter accept es))"
    unfolding d using assms(2,9) tcp_row_decodes
    by (intro win_table_ok [OF assms(1)]) (auto simp: list_all_iff win_entry_def tcp_row_bytes_def)
  moreover have "win_osTCP6Socks os accept = Returns (Inr (filter accept es6))"
    unfolding d using assms(4,9) tcp6_row_decodes
    by (intro win_table_ok [OF assms(3)]) (auto simp: list_all_iff win_entry_def tcp6_row_bytes_def)
  moreover have "win_osUDPSocks os accept = Returns (Inr (filter accept us))"
    unfolding d using assms(6,9) udp_row_decodes
    by (intro win_table_ok [OF assms(5)]) (auto simp: list_all_iff win_udp_entry_def udp_row_bytes_def)
  moreover have "win_osUDP6Socks os accept = Returns (Inr (filter accept us6))"
    unfolding d using assms(8,9) udp6_row_decodes
    by (intro win_table_ok [OF assms(7)]) (auto simp: list_all_iff win_udp_entry_def udp6_row_bytes_def)
  ultimately show ?thesis by simp
qed

text \<open>A system with one TCP socket, for the witness.\<close>

definition win_demo_sock :: SockTabEntry where
  "win_demo_sock = \<lparr>ste_ino = [], ste_LocalAddr = \<lparr>sa_IP = [byte 127, byte 0, byte 0, byte 1], sa_Port = 80\<rparr>,
     ste_RemoteAddr = \<lparr>sa_IP = [byte 0, byte 0, byte 0, byte 0], sa_Port = 0\<rparr>, ste_State = win_Listen, ste_UID = 7,
     ste_Process = None\<rparr>"

definition win_answer :: "gostring \<Rightarrow> u32 \<Rightarrow> bool \<Rightarrow> win_call" where
  "win_answer b n order =
     (if n = 0 then \<lparr>callErr = 0, r1 = errInsuffBuff, call_size = of_nat (length b), call_buf = []\<rparr>
      else \<lparr>callErr = 0, r1 = 0, call_size = n, call_buf = b\<rparr>)"

definition win_demo :: win_os where
  "win_demo = \<lparr>procGetTCPTable2 = win_answer (table_bytes (map tcp_row_bytes [win_demo_sock])),
     procGetTCP6Table2 = win_answer (table_bytes (map tcp6_row_bytes [])),
     procGetUDPTable = win_answer (table_bytes (map udp_row_bytes [])),
     procGetUDP6Table = win_answer (table_bytes (map udp6_row_bytes []))\<rparr>"

lemma win_answer_answers: "0 < length b \<Longrightarrow> length b < 2 ^ 32 \<Longrightarrow> answers (win_answer b) b"
  using unsigned_of_nat [of "length b", where ?'b = 32 and ?'a = nat]
  by (auto simp: answers_def win_answer_def raw_error_def errInsuffBuff_def take_bit_nat_eq_self)

lemma windows_tables_read_witness: "win_osTCPSocks win_demo NoopFilter = Returns (Inr [win_demo_sock])"
proof -
  have "length (table_bytes (map tcp_row_bytes [win_demo_sock])) = 32"
    by (simp add: table_bytes_def tcp_row_bytes_def win_demo_sock_def)
  moreover have "length (table_bytes (map f [])) = 4" for f :: "SockTabEntry \<Rightarrow> gostring"
    by (simp add: table_bytes_def)
  ultimately have "win_osTCPSocks win_demo NoopFilter = Returns (Inr (filter NoopFilter [win_demo_sock]))"
    using windows_tables_read [of win_demo "[win_demo_sock]" "[]" "[]" "[]" NoopFilter]
    by (simp add: win_demo_def win_answer_answers win_entry_def win_demo_sock_def)
  then show ?thesis by (simp add: NoopFilter_def)
qed

text \<open>When the call for the size succeeds with size zero, the code takes the address of the first
  byte of an empty buffer.\<close>

lemma windows_empty_size_panics:
  "raw_error (sys 0 o1) = None \<Longrightarrow> call_size (sys 0 o1) = 0 \<Longrightarrow> get_table sys o1 o2 = Panics"
  by (simp add: get_table_def Let_def)

end
