(* ===== verification/WinCalls.thy ===== *)
theory WinCalls
  imports NetstatWindows
begin

text \<open>
  How \<open>netstat/netstat_windows.go\<close> calls the system: the arguments of each call, and the
  layout of the entry the walk through a snapshot of the processes fills in.  The system is an
  argument: a function from the procedure, the number of arguments and the arguments.
\<close>

unbundle bit_operations_syntax

section \<open>Calls for the socket tables\<close>

datatype win_proc =
    PGetTcpTable2 | PGetTcp6Table2 | PGetExtendedUdpTable
  | PCreateToolhelp32Snapshot | PProcess32First | PProcess32Next

text \<open>An argument: a number, the nil pointer, or the address of the table, the size, the entry.\<close>

datatype sys_arg = Val "64 word" | NilPtr | TablePtr | SizePtr | EntryPtr

text \<open>The size the caller's variable holds before the call comes last.\<close>

type_synonym table_sys = "win_proc \<Rightarrow> nat \<Rightarrow> sys_arg list \<Rightarrow> u32 \<Rightarrow> win_call"

definition oint :: "bool \<Rightarrow> sys_arg" where
  "oint order = Val (if order then 1 else 0)"

definition rawGetTCPTable :: "table_sys \<Rightarrow> win_proc \<Rightarrow> sys_arg \<Rightarrow> u32 \<Rightarrow> bool \<Rightarrow> win_call" where
  "rawGetTCPTable sys proc tab n order = sys proc 3 [tab, SizePtr, oint order] n"

definition UDPTableBasic :: "64 word" where "UDPTableBasic = 0"
definition UDPTableOwnerPID :: "64 word" where "UDPTableOwnerPID = 1"
definition UDPTableOwnerModule :: "64 word" where "UDPTableOwnerModule = 2"

definition AF_INET :: u32 where "AF_INET = 2"
definition AF_INET6 :: u32 where "AF_INET6 = 23"

definition getExtendedUDPTable :: "table_sys \<Rightarrow> sys_arg \<Rightarrow> u32 \<Rightarrow> bool \<Rightarrow> u32 \<Rightarrow> 64 word \<Rightarrow> win_call" where
  "getExtendedUDPTable sys tab n order af cl =
     sys PGetExtendedUdpTable 6 [tab, SizePtr, oint order, Val (ucast af), Val cl, Val 0] n"

text \<open>
  The four tables over one system.  The size is 0 in the call that asks for it, with a nil
  table, and not in the other.
\<close>

definition table_ptr :: "u32 \<Rightarrow> sys_arg" where
  "table_ptr n = (if n = 0 then NilPtr else TablePtr)"

definition win_os_of :: "table_sys \<Rightarrow> win_os" where
  "win_os_of sys =
     \<lparr>procGetTCPTable2 = (\<lambda>n. rawGetTCPTable sys PGetTcpTable2 (table_ptr n) n),
      procGetTCP6Table2 = (\<lambda>n. rawGetTCPTable sys PGetTcp6Table2 (table_ptr n) n),
      procGetUDPTable = (\<lambda>n order. getExtendedUDPTable sys (table_ptr n) n order AF_INET UDPTableOwnerPID),
      procGetUDP6Table = (\<lambda>n order. getExtendedUDPTable sys (table_ptr n) n order AF_INET6 UDPTableOwnerPID)\<rparr>"

text \<open>The calls in the order of \<open>getTCPTable\<close> and \<open>GetExtendedUDPTable\<close>, pointers included.\<close>

definition two_calls :: "win_call \<Rightarrow> (u32 \<Rightarrow> win_call) \<Rightarrow> (win_error + gostring) outcome" where
  "two_calls c call =
     (if raw_error c \<noteq> None \<and> raw_error c \<noteq> Some errInsuffBuff then Returns (Inl (Errno (the (raw_error c))))
      else let n = unat (call_size c) in
        if n = 0 then Panics
        else let c' = call (call_size c) in
          case raw_error c' of
            Some e \<Rightarrow> Returns (Inl (Errno e))
          | None \<Rightarrow> Returns (Inr (take n (call_buf c' @ replicate n (byte 0)))))"

lemma get_table_two_calls:
  assumes "\<And>order. sys 0 order = first order" "\<And>n order. n \<noteq> 0 \<Longrightarrow> sys n order = later n order"
  shows "get_table sys o1 o2 = two_calls (first o1) (\<lambda>n. later n o2)"
proof (cases "call_size (first o1) = 0")
  case True
  then show ?thesis by (simp add: get_table_def two_calls_def assms(1))
next
  case False
  then show ?thesis using assms(2) [OF False] by (simp add: get_table_def two_calls_def assms(1) Let_def unat_eq_zero)
qed

lemma tables_by_calls:
  "GetTCPTable (win_os_of sys) order =
     two_calls (rawGetTCPTable sys PGetTcpTable2 NilPtr 0 False) (\<lambda>n. rawGetTCPTable sys PGetTcpTable2 TablePtr n True)"
  "GetTCP6Table (win_os_of sys) order =
     two_calls (rawGetTCPTable sys PGetTcp6Table2 NilPtr 0 False) (\<lambda>n. rawGetTCPTable sys PGetTcp6Table2 TablePtr n True)"
  "GetUDPTableOwnerPID (win_os_of sys) order =
     two_calls (getExtendedUDPTable sys NilPtr 0 True AF_INET UDPTableOwnerPID)
       (\<lambda>n. getExtendedUDPTable sys TablePtr n True AF_INET UDPTableOwnerPID)"
  "GetUDP6TableOwnerPID (win_os_of sys) order =
     two_calls (getExtendedUDPTable sys NilPtr 0 True AF_INET6 UDPTableOwnerPID)
       (\<lambda>n. getExtendedUDPTable sys TablePtr n True AF_INET6 UDPTableOwnerPID)"
  unfolding win_table_defs win_os_of_def
  by (rule get_table_two_calls; simp add: table_ptr_def)+

section \<open>The walk through a snapshot\<close>

definition MaxPath :: nat where "MaxPath = 260"

definition Th32csSnapProcess :: u32 where "Th32csSnapProcess = 2"

record Processentry32 =
  pe_Size :: u32
  pe_CntUsage :: u32
  pe_Th32ProcessID :: u32
  pe_Th32DefaultHeapID :: "64 word"
  pe_Th32ModuleID :: u32
  pe_CntThreads :: u32
  pe_Th32ParentProcessID :: u32
  pe_PriClassBase :: u32
  pe_Flags :: u32
  pe_ExeFile :: gostring

text \<open>
  The layout on amd64: the address-sized field is aligned to eight bytes, so four bytes are
  unused before it; 304 bytes in all.
\<close>

definition SizeofProcessentry32 :: u32 where "SizeofProcessentry32 = 304"

definition mem64 :: "gostring \<Rightarrow> nat \<Rightarrow> 64 word" where
  "mem64 b i = ucast (mem32 b i) OR push_bit 32 (ucast (mem32 b (i + 4)))"

definition le64 :: "64 word \<Rightarrow> gostring" where
  "le64 w = le32 (unat (ucast w :: u32)) @ le32 (unat (ucast (drop_bit 32 w) :: u32))"

definition mem_Processentry32 :: "gostring \<Rightarrow> Processentry32" where
  "mem_Processentry32 b =
     \<lparr>pe_Size = mem32 b 0, pe_CntUsage = mem32 b 4, pe_Th32ProcessID = mem32 b 8, pe_Th32DefaultHeapID = mem64 b 16,
      pe_Th32ModuleID = mem32 b 24, pe_CntThreads = mem32 b 28, pe_Th32ParentProcessID = mem32 b 32,
      pe_PriClassBase = mem32 b 36, pe_Flags = mem32 b 40, pe_ExeFile = take MaxPath (drop 44 b)\<rparr>"

definition Processentry32_bytes :: "Processentry32 \<Rightarrow> gostring" where
  "Processentry32_bytes pe =
     le32 (unat (pe_Size pe)) @ le32 (unat (pe_CntUsage pe)) @ le32 (unat (pe_Th32ProcessID pe)) @ le32 0 @
     le64 (pe_Th32DefaultHeapID pe) @ le32 (unat (pe_Th32ModuleID pe)) @ le32 (unat (pe_CntThreads pe)) @
     le32 (unat (pe_Th32ParentProcessID pe)) @ le32 (unat (pe_PriClassBase pe)) @ le32 (unat (pe_Flags pe)) @
     pe_ExeFile pe"

text \<open>
  A call through the handle of a snapshot: its error, its result, and the entry it leaves in
  memory, of which the caller has set the size.
\<close>

type_synonym snap_sys = "win_proc \<Rightarrow> nat \<Rightarrow> sys_arg list \<Rightarrow> u32 \<times> 64 word"

record snap_answer =
  sa_callErr :: u32
  sa_r1 :: "64 word"
  sa_entry :: gostring

definition snap_call_of :: "snap_answer \<Rightarrow> snap_call" where
  "snap_call_of a =
     \<lparr>snap_callErr = sa_callErr a, snap_r1 = sa_r1 a,
      snap_pid = pe_Th32ProcessID (mem_Processentry32 (sa_entry a)),
      snap_exe = pe_ExeFile (mem_Processentry32 (sa_entry a))\<rparr>"

definition TakeSnapshot :: "snap_sys \<Rightarrow> u32 \<Rightarrow> u32 \<Rightarrow> snap_error + 64 word" where
  "TakeSnapshot sys flags pid =
     (case sys PCreateToolhelp32Snapshot 2 [Val (ucast flags), Val (ucast pid), Val 0] of
        (err, r) \<Rightarrow> CreateToolhelp32Snapshot err r)"

definition SnapshotName :: "snap_answer list \<Rightarrow> u32 \<Rightarrow> gostring" where
  "SnapshotName walk pid = ProcPIDToName (map snap_call_of walk) pid"

section \<open>Reading an entry back\<close>

lemma mem32_le32_at: "length p = i \<Longrightarrow> mem32 (p @ le32 (unat w) @ s) i = (w :: u32)"
  by (subst mem32_drop) (simp add: mem32_le32)

lemma mem64_le64: "length p = i \<Longrightarrow> mem64 (p @ le64 w @ s) i = w"
proof -
  assume p: "length p = i"
  have "mem32 (p @ le64 w @ s) i = ucast w"
    using mem32_le32_at [OF p, of "ucast w" "le32 (unat (ucast (drop_bit 32 w) :: u32)) @ s"] by (simp add: le64_def)
  moreover have "mem32 (p @ le64 w @ s) (i + 4) = ucast (drop_bit 32 w)"
    using mem32_le32_at [of "p @ le32 (unat (ucast w :: u32))" "i + 4" "ucast (drop_bit 32 w)" s] p
    by (simp add: le64_def)
  ultimately show ?thesis unfolding mem64_def
    by (simp only:) (intro bit_word_eqI, auto simp: bit_simps)
qed

lemma mem_Processentry32_bytes:
  assumes "length (pe_ExeFile pe) = MaxPath"
  shows "mem_Processentry32 (Processentry32_bytes pe) = pe"
proof -
  define a where "a = le32 (unat (pe_Size pe)) @ le32 (unat (pe_CntUsage pe))"
  define b where "b = a @ le32 (unat (pe_Th32ProcessID pe)) @ le32 0"
  define c where "c = b @ le64 (pe_Th32DefaultHeapID pe)"
  define d where "d = c @ le32 (unat (pe_Th32ModuleID pe)) @ le32 (unat (pe_CntThreads pe))"
  define e where "e = d @ le32 (unat (pe_Th32ParentProcessID pe)) @ le32 (unat (pe_PriClassBase pe))"
  define f where "f = e @ le32 (unat (pe_Flags pe))"
  have len: "length a = 8" "length b = 16" "length c = 24" "length d = 32" "length e = 40" "length f = 44"
    by (simp_all add: a_def b_def c_def d_def e_def f_def le64_def)
  let ?m = "Processentry32_bytes pe"
  note defs = Processentry32_bytes_def f_def e_def d_def c_def b_def a_def
  have "mem32 ?m 0 = pe_Size pe" using mem32_le32_at [of "[]" 0 "pe_Size pe"] by (simp add: Processentry32_bytes_def)
  moreover have "mem32 ?m 4 = pe_CntUsage pe"
    using mem32_le32_at [of "le32 (unat (pe_Size pe))" 4 "pe_CntUsage pe"] by (simp add: Processentry32_bytes_def)
  moreover have "mem32 ?m 8 = pe_Th32ProcessID pe"
    using mem32_le32_at [OF len(1), of "pe_Th32ProcessID pe"] by (simp add: Processentry32_bytes_def a_def)
  moreover have "mem64 ?m 16 = pe_Th32DefaultHeapID pe"
    using mem64_le64 [OF len(2), of "pe_Th32DefaultHeapID pe"] by (simp add: Processentry32_bytes_def b_def a_def)
  moreover have "mem32 ?m 24 = pe_Th32ModuleID pe"
    using mem32_le32_at [OF len(3), of "pe_Th32ModuleID pe"] by (simp add: Processentry32_bytes_def c_def b_def a_def)
  moreover have "mem32 ?m 28 = pe_CntThreads pe"
    using mem32_le32_at [of "c @ le32 (unat (pe_Th32ModuleID pe))" 28 "pe_CntThreads pe"] len(3)
    by (simp add: Processentry32_bytes_def c_def b_def a_def)
  moreover have "mem32 ?m 32 = pe_Th32ParentProcessID pe"
    using mem32_le32_at [OF len(4), of "pe_Th32ParentProcessID pe"]
    by (simp add: Processentry32_bytes_def d_def c_def b_def a_def)
  moreover have "mem32 ?m 36 = pe_PriClassBase pe"
    using mem32_le32_at [of "d @ le32 (unat (pe_Th32ParentProcessID pe))" 36 "pe_PriClassBase pe"] len(4)
    by (simp add: Processentry32_bytes_def d_def c_def b_def a_def)
  moreover have "mem32 ?m 40 = pe_Flags pe"
    using mem32_le32_at [OF len(5), of "pe_Flags pe"]
    by (simp add: Processentry32_bytes_def e_def d_def c_def b_def a_def)
  moreover have "drop 44 ?m = pe_ExeFile pe"
  proof -
    have "?m = f @ pe_ExeFile pe" by (simp add: defs)
    then show ?thesis using len(6) by simp
  qed
  ultimately show ?thesis using assms by (cases pe) (simp add: mem_Processentry32_def)
qed

lemma length_Processentry32_bytes:
  "length (pe_ExeFile pe) = MaxPath \<Longrightarrow> length (Processentry32_bytes pe) = unat SizeofProcessentry32"
  by (simp add: Processentry32_bytes_def le64_def MaxPath_def SizeofProcessentry32_def)

text \<open>A name in its field: the bytes up to the first zero.\<close>

definition name_field :: "gostring \<Rightarrow> gostring" where
  "name_field name = name @ replicate (MaxPath - length name) (byte 0)"

definition exe_name :: "gostring \<Rightarrow> bool" where
  "exe_name name \<longleftrightarrow> byte 0 \<notin> set name \<and> length name < MaxPath"

lemma find_first:
  assumes "n < m" "P n" "\<And>i. i < n \<Longrightarrow> \<not> P i"
  shows "List.find P [0..<m] = Some n"
  using assms by (auto simp: find_Some_iff intro!: exI [of _ n])

lemma String_name_field:
  assumes "exe_name name"
  shows "StringFromNullTerminated (name_field name) = name"
proof -
  have l: "length name < MaxPath" "byte 0 \<notin> set name" using assms by (simp_all add: exe_name_def)
  have "List.find (\<lambda>i. name_field name ! i = byte 0) [0..<length (name_field name)] = Some (length name)"
  proof (rule find_first)
    show "length name < length (name_field name)" "name_field name ! length name = byte 0"
      using l(1) by (simp_all add: name_field_def nth_append)
    show "name_field name ! i \<noteq> byte 0" if "i < length name" for i
      using that l(2) by (metis name_field_def nth_append nth_mem)
  qed
  then show ?thesis by (cases name) (simp_all add: StringFromNullTerminated_def name_field_def)
qed

section \<open>Names of processes\<close>

text \<open>
  The documented behaviour of a walk: each call that succeeds leaves an entry as the system
  lays it out, and the call after the last one fails.
\<close>

definition entry_answer :: "Processentry32 \<Rightarrow> snap_answer" where
  "entry_answer pe = \<lparr>sa_callErr = 0, sa_r1 = 1, sa_entry = Processentry32_bytes pe\<rparr>"

definition process_entry :: "Processentry32 \<Rightarrow> u32 \<Rightarrow> gostring \<Rightarrow> Processentry32" where
  "process_entry pe pid name = pe\<lparr>pe_Th32ProcessID := pid, pe_ExeFile := name_field name\<rparr>"

definition walk_of :: "Processentry32 \<Rightarrow> (u32 \<times> gostring) list \<Rightarrow> snap_answer list" where
  "walk_of pe ps = map (\<lambda>(pid, name). entry_answer (process_entry pe pid name)) ps @
     [\<lparr>sa_callErr = 0, sa_r1 = 0, sa_entry = []\<rparr>]"

lemma snap_call_of_entry:
  assumes "exe_name name"
  shows "snap_call_of (entry_answer (process_entry pe pid name)) =
    \<lparr>snap_callErr = 0, snap_r1 = 1, snap_pid = pid, snap_exe = name_field name\<rparr>"
proof -
  have "length (pe_ExeFile (process_entry pe pid name)) = MaxPath"
    using assms by (simp add: process_entry_def name_field_def exe_name_def)
  from mem_Processentry32_bytes [OF this] show ?thesis
    by (simp add: snap_call_of_def entry_answer_def process_entry_def)
qed

lemma snap_call_of_fail: "snap_callErr (snap_call_of \<lparr>sa_callErr = 0, sa_r1 = 0, sa_entry = e\<rparr>) = 0"
    "snap_r1 (snap_call_of \<lparr>sa_callErr = 0, sa_r1 = 0, sa_entry = e\<rparr>) = 0"
  by (simp_all add: snap_call_of_def)

lemma ProcPIDToName_loop_walk:
  "list_all (\<lambda>(i, n). exe_name n) ((pid0, name0) # ps) \<Longrightarrow>
   ProcPIDToName_loop (snap_call_of (entry_answer (process_entry pe pid0 name0))) (map snap_call_of (walk_of pe ps)) pid =
     (case map_of ((pid0, name0) # ps) pid of None \<Rightarrow> [] | Some name \<Rightarrow> name)"
proof (induction ps arbitrary: pid0 name0)
  case Nil
  then show ?case
    by (auto simp: walk_of_def snap_call_of_entry String_name_field Process32Next_def snap_call_of_fail)
next
  case (Cons p ps)
  obtain i n where p: "p = (i, n)" by (cases p)
  have w: "map snap_call_of (walk_of pe ((i, n) # ps)) =
      snap_call_of (entry_answer (process_entry pe i n)) # map snap_call_of (walk_of pe ps)"
    by (simp add: walk_of_def)
  have ok: "exe_name name0" "exe_name n" "list_all (\<lambda>(i, n). exe_name n) ((i, n) # ps)"
    using Cons.prems by (simp_all add: p)
  show ?case using Cons.IH [OF ok(3)] ok(1,2)
    by (auto simp: w p snap_call_of_entry String_name_field Process32Next_def)
qed

text \<open>On Windows the name of a process is found: over a snapshot whose entries are laid out as
  the system does, the walk returns the name of the first process with the identifier asked for,
  up to its terminating zero, and the empty name when there is none.\<close>

theorem windows_names_found:
  assumes "list_all (\<lambda>(i, n). exe_name n) ps"
  shows "SnapshotName (walk_of pe ps) pid = (case map_of ps pid of None \<Rightarrow> [] | Some name \<Rightarrow> name)"
proof (cases ps)
  case Nil
  then show ?thesis
    by (simp add: SnapshotName_def ProcPIDToName_def walk_of_def Process32First_def snap_call_of_def)
next
  case (Cons p qs)
  obtain i n where p: "p = (i, n)" by (cases p)
  have w: "map snap_call_of (walk_of pe ((i, n) # qs)) =
      snap_call_of (entry_answer (process_entry pe i n)) # map snap_call_of (walk_of pe qs)"
    by (simp add: walk_of_def)
  have "exe_name n" using assms by (simp add: Cons p)
  then have "Process32First (snap_call_of (entry_answer (process_entry pe i n))) = None"
    by (simp add: snap_call_of_entry Process32First_def)
  then show ?thesis using ProcPIDToName_loop_walk [of i n qs pe pid] assms
    by (simp add: SnapshotName_def ProcPIDToName_def w Cons p)
qed

definition blank_entry :: Processentry32 where
  "blank_entry = \<lparr>pe_Size = SizeofProcessentry32, pe_CntUsage = 0, pe_Th32ProcessID = 0, pe_Th32DefaultHeapID = 0,
     pe_Th32ModuleID = 0, pe_CntThreads = 1, pe_Th32ParentProcessID = 0, pe_PriClassBase = 8, pe_Flags = 0,
     pe_ExeFile = name_field []\<rparr>"

lemma windows_names_found_witness:
  "SnapshotName (walk_of blank_entry [(4, ''System''), (712, ''aero.exe'')]) 712 = ''aero.exe''"
  by (subst windows_names_found) (auto simp: exe_name_def MaxPath_def char_of_def)

end
