(* ===== verification/Spec2Isabelle.thy ===== *)
theory Spec2Isabelle
  imports Session ServerSpec ServerPipes Mux Confirmed Pipe Tunnel Pools ConsoleLog ProcInfo WinCalls Ema
begin

text \<open>
  AeRO, a reverse proxy in Go: a verification development.

  The program.  A server (\<open>src/server\<close>) listens for clients; a client (\<open>src/client\<close>) behind a
  firewall logs in over a stream of a \<open>yamux\<close> session and registers proxies.  For each proxy the
  server opens a listener; when a user connects to it, the server takes a pipe (a stream the
  client opened in advance) from the pool of that client's manager, writes a work request on it
  and joins it with the user's connection; the client reads the request, dials the local
  address and joins its end.  Control messages run over the first stream
  (\<open>src/util/message\<close>).  Ports come from \<open>src/netstat\<close>, which also reads the system's socket
  tables.

  The theories, in the order of their imports.
  \<^item> \<open>Prelude\<close>: bytes, integers, outcomes (returns, panics, blocks), ranges over maps, the
    collection \<open>inv_intros\<close>.  \<open>GoStrings\<close>, \<open>GoUtf8\<close>, \<open>GoIO\<close>, \<open>GoJson\<close>, \<open>GoJsonLaws\<close>, \<open>GoChan\<close>,
    \<open>GoText\<close>, \<open>GoBytes\<close>, \<open>GoNet\<close>: the parts of Go and of its library that the program uses, with
    their laws: splitting and joining, UTF-8, readers cut into chunks, JSON of flat structs
    (decoding inverts encoding), buffered channels, the line scanner with its limit of 65536
    bytes, little-endian words, the text of IP addresses.
  \<^item> \<open>Message\<close>, \<open>MessageLaws\<close>: \<open>util/message/message.go\<close>; one record per message struct, a
    datatype for the interface, \<open>Write\<close>, \<open>Read\<close>, \<open>Get\<close>, \<open>Send\<close>.  Round trip, truncation,
    prefix-freeness.
  \<^item> \<open>Util\<close>, \<open>Uid\<close>, \<open>Ema\<close>: \<open>util/util.go\<close>, \<open>util/uid.go\<close>, \<open>util/ema.go\<close>; the random source is
    the sequence of its draws, floating point is correctly rounded rational arithmetic.
  \<^item> \<open>PortAlloc\<close>: the range, the random pool and the two searches of \<open>netstat/netstat.go\<close>.
  \<^item> \<open>ServerProxy\<close>, \<open>Manager\<close>, \<open>ManagerLaws\<close>: \<open>server/proxy.go\<close>, \<open>server/manager.go\<close>; every
    operation of a manager, its invariant \<open>mgr_inv\<close> and its preservation.  \<open>ProxyServe\<close>:
    \<open>Proxy.handle\<close> with its three attempts.
  \<^item> \<open>Machine\<close>, \<open>ManagerRun\<close>, \<open>ManagerRunLaws\<close>: the goroutines around one manager as a function
    from events and states to states; a schedule is any list of events.  The locale
    \<open>invariant_system\<close> carries reachability, and \<open>simulation\<close> extends it by a specification; their
    interpretations give the safety and refinement theorems.  \<open>ManagerOrder\<close>: an account of every
    request on its way through the goroutines, from which the order of the answers follows, a
    schedule in which the table of proxies is about to be read and written at once, and one after
    which a failed write has silenced a manager that stays registered.
  \<^item> \<open>Server\<close>: \<open>server/server.go\<close>; logins, ids, streams, done managers, queries, and \<open>server_inv\<close>.
    \<open>ServerRun\<close>: its goroutines interleaved, each login one statement at a time and each pipe from
    its lookup to its test to its send: what always holds of the map of managers, that a login and
    a pipe left alone are \<open>HandleStream\<close>, and two schedules that go wrong.  \<open>ServerPipes\<close>: with the
    history of the pools, where every stream of a pipe request goes, and a schedule in which one
    is lost.  \<open>ServerSpec\<close>: a registry of sessions with bounded queues of pipes, and the
    interpretation of the locale \<open>simulation\<close> by which the goroutines implement it.
    \<open>Mux\<close>: \<open>server/mux.go\<close>; balancers, the choice of a port, the two routings.
  \<^item> \<open>Client\<close>, \<open>AgentRun\<close>: \<open>client/client.go\<close>, \<open>client/agent.go\<close> and the target list of
    \<open>client/main.go\<close>; the operations, the retry loop with what each session leaves behind, and
    the agent's goroutines interleaved.
  \<^item> \<open>Session\<close> and this theory: a message written by one side and read by the other, and the two
    properties that span client and server, from a login to the first pipe and from a
    registration to the target.  \<open>Confirmed\<close>: all goroutines of a manager and of an agent at once:
    where the agent's marks of started proxies come from.
  \<^item> \<open>Pipe\<close>: \<open>util/pipe/pipe.go\<close>; \<open>Join\<close> as an inductive step relation over its two copying
    goroutines, and the wrapper that closes once.  \<open>Tunnel\<close>: the join of the server and the join
    of the client with the pipe between them: what the user sends reaches the target.
    \<open>Pools\<close>: \<open>util/pool\<close> and the compressing wrappers; the locale \<open>item_pool\<close> is the contract of a pool, interpreted on the buffers and on
    the codecs, and the copying goroutines never mix their data though they share buffers.
    \<open>RotatingFile\<close>: \<open>util/zlog/writer.go\<close>; the rotation refines a list of segments.
  \<^item> \<open>Netstat\<close>: the common part of \<open>netstat/netstat.go\<close>, and the locale \<open>socket_tables\<close>: what the
    queries rely on from an operating system.  \<open>NetstatLinux\<close>, \<open>NetstatLinuxLaws\<close>, \<open>ProcInfo\<close>:
    \<open>netstat_linux.go\<close>; \<open>NetstatWindows\<close>: \<open>netstat_windows.go\<close>; both interpret the locale on
    their models.  \<open>WinCalls\<close>: what is passed to the calls of Windows, and the walk through a
    snapshot of the processes.  \<open>NetstatCmd\<close>: the command \<open>netstat/cmd/main.go\<close>.
  \<^item> \<open>GoFlag\<close>, \<open>Commands\<close>: package \<open>flag\<close>, and the commands \<open>server/main.go\<close> and
    \<open>client/main.go\<close> from their arguments on.  \<open>ConsoleLog\<close>: what the commands set in package
    zerolog, and the formatting functions they give it.

  How the model reads.  A Go struct is a record, an interface value of known types a datatype, a
  map a partial function and a range over it the list of its keys in some order, an argument.
  Strings are byte lists, fixed-width integers words.  An operation that can panic or block has
  an \<open>outcome\<close>; an error is a value of a sum or option.  What the program does to the outside is a
  list of effects; what the outside answers (listening, dialling, writing, the clock, the
  system calls, the bitmap package) is an argument, with its documented behaviour as a named
  hypothesis where a theorem needs it (\<open>listens_on_request\<close>, \<open>bitmap_array\<close>, \<open>answers\<close>,
  \<open>readable\<close>).  Mutual exclusion by locks appears as atomic steps.

  Loops.  Structural recursion or a measure everywhere, except the two loops that need not end,
  \<open>genId\<close> and \<open>RandStr\<close>: they are partial functions, and theorems say when they return.
  There is no fuel apart from \<open>close_steps\<close>, whose eight steps are shown to be all of \<open>Close\<close>.

  Not modelled.  The network under the accept loops: what \<open>net\<close> and \<open>yamux\<close> give is an argument;
  what \<open>fiber\<close> does with a request before and after the handlers; what \<open>zerolog\<close> does with a log
  call beside calling the program's formatting functions, so log calls have no effect in the
  model; the tests.  Memory races are beyond a model with atomic steps, except that \<open>ServerRun\<close>
  separates filling the buffer of \<open>RandStr8Base62\<close> from copying it and that \<open>proxies_race\<close> shows
  where an unguarded range and a deletion meet; what Go's runtime does then is not modelled.  The proxies of an agent are a copy of those of its
  client, written back by \<open>agent_over\<close> when the agent is gone; the program shares them throughout.

  Granularity.  \<open>Close\<close> of a manager is split into its statements in \<open>ManagerRun\<close>.  In the model of
  the whole server (\<open>ServerRun\<close>, \<open>mgr_op_step\<close>) it is one step: of what it does, the other
  goroutines of that model see only the flag and the closing of the pool, and a goroutine that
  sends between the two does what one that sends before \<open>Close\<close> does.  The manager of a pipe
  request is a pointer there; when it has left the map, the model keeps no state of it and
  allows the goroutine every end the code has.
\<close>

section \<open>Client and server together\<close>

text \<open>C1: From a login to the first pipe.  A client that knows the authentication code and has a
  legal tag logs in: the server files one new manager under an unused id, the client takes that
  id from the response, and when it then opens a pipe the server puts the stream into the pool
  of that manager, whose pool was empty, and into no other; each message may be cut up by the
  network behind its first two bytes.\<close>

theorem session_established:
  assumes "server_inv srv" "ccfg_AuthCode (cl_Config c) = cfg_AuthCode (config srv)"
    "CheckLegal (ccfg_Tag (cl_Config c))" "modest (login_request goos c)"
    "managers srv (drawn_key src (rand_pos srv + n)) = None"
    "delivers up (wire (login_request goos c))"
  shows "\<exists>key srv'. HandleStream src now k up srv = Some ([SendMsg (login_reply key)], srv') \<and>
    managers srv key = None \<and> managers srv' = (managers srv)(key \<mapsto> NewManager key k (login_of goos c) now) \<and>
    (\<forall>down. delivers down (wire (login_reply key)) \<longrightarrow>
       Login goos None down c = ((None, c\<lparr>cl_ClientId := key\<rparr>), wire (login_request goos c), False)) \<and>
    NewPipeConn (Some l) None (c\<lparr>cl_ClientId := key\<rparr>) = (Some l, wire (pipe_call key), False) \<and>
    (\<forall>up'. delivers up' (wire (pipe_call key)) \<longrightarrow>
       (\<exists>m srv''. HandleStream src now' l up' srv' = Some ([], srv'') \<and>
          managers srv'' = (managers srv')(key \<mapsto> m) \<and> ch_buf (pipeConnPool m) = [l]))"
proof -
  have req: "fst (message_Get up) = Inr (MLoginRequest (login_of goos c))"
    using modest_Get [OF assms(4,6)] by (simp add: login_of)
  have "login_AuthCode (login_of goos c) = cfg_AuthCode (config srv)" "CheckLegal (login_Tag (login_of goos c))"
    using assms(2,3) by (simp_all add: login_of_def login_request_def)
  then have "CheckLogin (config srv) (login_of goos c) = None" by (simp add: CheckLogin_def)
  from HandleStream_login [OF assms(1) this req assms(5)] obtain key srv' where
    H: "HandleStream src now k up srv = Some ([SendMsg (login_reply key)], srv')"
      "managers srv key = None" "managers srv' = (managers srv)(key \<mapsto> NewManager key k (login_of goos c) now)"
      "server_inv srv'"
    unfolding login_reply_def by blast
  have mgr: "managers srv' key = Some (NewManager key k (login_of goos c) now)" by (simp add: H(3))
  then have key: "length key = 8" "set key \<subseteq> set base62"
    using server_inv_listed [OF H(4)] by (simp_all add: listed_def)
  have "Login goos None down c = ((None, c\<lparr>cl_ClientId := key\<rparr>), wire (login_request goos c), False)"
    if "delivers down (wire (login_reply key))" for down
    using Login_reply [OF assms(4) modest_key(1) [OF key] that] .
  moreover have "NewPipeConn (Some l) None (c\<lparr>cl_ClientId := key\<rparr>) = (Some l, wire (pipe_call key), False)"
    using NewPipeConn_call [of "c\<lparr>cl_ClientId := key\<rparr>" l] modest_key(2) [OF key] by simp
  moreover have "\<exists>m srv''. HandleStream src now' l up' srv' = Some ([], srv'') \<and>
      managers srv'' = (managers srv')(key \<mapsto> m) \<and> ch_buf (pipeConnPool m) = [l]"
    if "delivers up' (wire (pipe_call key))" for up'
    by (rule exI, rule exI, intro conjI, rule first_pipe [OF H(4) mgr that], simp, simp)
  ultimately show ?thesis using H by blast
qed

definition demo_client :: client where
  "demo_client = NewClient (demo_config 60)"

lemma demo_client_modest: "modest (login_request ''linux'' demo_client)"
proof -
  have "ValidString ''pw''" "ValidString ''host''" "ValidString ''linux''" "ValidString ''t''"
    by (rule ValidString_ascii; fastforce)+
  then show ?thesis
    by (simp add: modest_def login_request_def demo_client_def NewClient_def demo_config_def message_strings_def
        List.map_filter_def)
qed

lemma delivers_whole: "2 \<le> length s \<Longrightarrow> delivers \<lparr>chunks = [s], final_err = EOF\<rparr> s"
  by (simp add: delivers_def header_whole_def content_def)

lemma session_established_witness:
  "\<exists>key srv'. HandleStream (\<lambda>_. 0) 7 1 \<lparr>chunks = [wire (login_request ''linux'' demo_client)], final_err = EOF\<rparr> demo_server =
     Some ([SendMsg (login_reply key)], srv') \<and> managers srv' key \<noteq> None"
proof -
  have "2 \<le> length (wire (login_request ''linux'' demo_client))"
    by (simp add: length_wire login_of)
  moreover have "ccfg_AuthCode (cl_Config demo_client) = cfg_AuthCode (config demo_server)"
    "CheckLegal (ccfg_Tag (cl_Config demo_client))"
    by (simp_all add: demo_client_def NewClient_def demo_config_def demo_server_def CheckLegal_eq legal_char_def)
  ultimately show ?thesis
    using session_established [OF server_inv_demo _ _ demo_client_modest _ delivers_whole, where src = "\<lambda>_. 0" and n = 0
        and now = 7 and k = 1]
    by (fastforce simp: demo_server_def)
qed

text \<open>C2: From a registration to the target.  When the server confirms a client's proxy, it files the
  proxy with the client's local address; and when it then serves a user's connection on it, what
  it sends on the pipe makes the client, once it has the confirmation, join the pipe with that
  local address, provided this can be dialled.\<close>

theorem tunnel_reaches_target:
  assumes "modest (registration p)" "delivers up (wire (registration p))"
    "handle_message os ks now (registration p) (m, prts) = Returns (Some (MProxyResponse resp), (m1, prts1), eff)"
    "proxyResp_Result resp = ''ok''"
    "Proxies mc (cpx_Name p) = Proxies m1 (cpx_Name p)" "Proxies mc (cpx_Name p) = Some sp"
    "Proxy_handle w sp u mc = Returns (Serving l sent, shut, m3)" "modest (conn_request sp u)" "delivers down sent"
    "dial (cpx_LocalAddr p)"
  shows "fst (message_Get up) = Inr (registration p) \<and> px_Remote sp = cpx_LocalAddr p \<and>
    (\<exists>a1 a2 a3. Agent_RegisterProxy p None (a, before) = (None, a1, before @ wire (registration p)) \<and>
       agent_handle t (MProxyResponse resp) a1 = ([], a2) \<and>
       awaitWork (Some l) down dial copied a2 = (Joined (cpx_LocalAddr p), True, a3))"
proof -
  define a1 where "a1 = a\<lparr>ag_Proxies := (ag_Proxies a)(cpx_Name p \<mapsto> p)\<rparr>"
  define a2 where "a2 = a1\<lparr>ag_Proxies := (ag_Proxies a1)(cpx_Name p \<mapsto> Proxy_Start p)\<rparr>"
  obtain sp' where sp': "Proxies m1 (cpx_Name p) = Some sp'" "px_Name sp' = cpx_Name p" "px_Remote sp' = cpx_LocalAddr p"
    "proxyResp_Name resp = cpx_Name p"
    using handle_registration [OF assms(3,4)] by blast
  then have sp: "px_Name sp = cpx_Name p" "px_Remote sp = cpx_LocalAddr p" using assms(5,6) by simp_all
  have "Agent_RegisterProxy p None (a, before) = (None, a1, before @ wire (registration p))"
    using RegisterProxy_sent [OF assms(1)] by (simp add: a1_def)
  moreover have "agent_handle t (MProxyResponse resp) a1 = ([], a2)"
    using confirm_starts [OF assms(4) sp'(4), of a1 t] by (simp add: a1_def a2_def)
  moreover have "\<exists>a3. awaitWork (Some l) down dial copied a2 = (Joined (cpx_LocalAddr (Proxy_Start p)), True, a3)"
    using assms(8,9) handle_sent [OF assms(7)] sp(1) assms(10)
    by (intro work_joined) (auto simp: a2_def Proxy_Start_def)
  ultimately show ?thesis using sp(2) modest_Get [OF assms(1,2)] by (auto simp: Proxy_Start_def)
qed

text \<open>The witness: a proxy whose first pipe is broken and whose second one serves.\<close>

definition demo_target :: cproxy where
  "demo_target = target_proxy (''web'', ''h:1'', ''80'')"

definition demo_os :: os_answers where
  "demo_os = \<lparr>os_probe = (\<lambda>_ _. True), os_listen = (\<lambda>port. Inr (Some port))\<rparr>"

lemma demo_target_modest: "modest (registration demo_target)"
proof -
  have "ValidString ''web''" "ValidString ''h:1''" "ValidString ''80''" "ValidString ''tcp''"
    by (rule ValidString_ascii; fastforce)+
  then show ?thesis
    by (simp add: modest_def registration_def demo_target_def target_proxy_def message_strings_def List.map_filter_def)
qed

lemma demo_registered:
  "\<exists>resp m1 prts1 eff. handle_message demo_os [] 0 (registration demo_target) (two_pipes, demo_ports False) =
      Returns (Some (MProxyResponse resp), (m1, prts1), eff) \<and> proxyResp_Result resp = ''ok''"
proof -
  have "strconv_Atoi ''80'' = Some 80"
    by (simp add: strconv_Atoi_def strconv_ParseInt_def digit_val_def)
  moreover have "FindAvailablePort (\<lambda>_ _. True) 80 (demo_ports False) = Returns (80, demo_ports False)"
    by (simp add: FindAvailablePort_def demo_ports_def listen_ok_def)
  ultimately show ?thesis
    by (simp add: handle_message_def registration_def demo_target_def target_proxy_def RegisterProxy_def demo_os_def
        NewProxy_def Let_def)
qed

lemma two_pipes_any: "\<exists>sent m'. Proxy_handle first_broken sp demo_user (two_pipes\<lparr>Proxies := ps\<rparr>) = Returns (Serving 6 sent, [5], m')"
  by (simp add: Proxy_handle_def handle_loop.simps first_broken_def two_pipes_def ReqPipeConn_def SendMassage_def
      SendMassage_send_def IsClosed_def NewManager_def chan_send_def make_chan_def PopPipeConn_recv_def chan_recv_def
      message_Send_def message_Write_def conn_request_def)

lemma tunnel_reaches_target_witness:
  "\<exists>sp a1 a2 a3 resp. px_Remote sp = ''h:1'' \<and>
     Agent_RegisterProxy demo_target None (demo_agent, []) = (None, a1, wire (registration demo_target)) \<and>
     agent_handle 0 (MProxyResponse resp) a1 = ([], a2) \<and>
     awaitWork (Some 6) \<lparr>chunks = [wire (conn_request sp demo_user)], final_err = EOF\<rparr> (\<lambda>_. True) (0, 0) a2 = (Joined ''h:1'', True, a3)"
proof -
  obtain resp m1 prts1 eff where r: "handle_message demo_os [] 0 (registration demo_target) (two_pipes, demo_ports False) =
      Returns (Some (MProxyResponse resp), (m1, prts1), eff)" "proxyResp_Result resp = ''ok''"
    using demo_registered by blast
  obtain sp where sp: "Proxies m1 (cpx_Name demo_target) = Some sp" "px_Name sp = cpx_Name demo_target"
    using handle_registration [OF r] by metis
  let ?m2 = "two_pipes\<lparr>Proxies := Proxies m1\<rparr>"
  obtain sent m3 where h: "Proxy_handle first_broken sp demo_user ?m2 = Returns (Serving 6 sent, [5], m3)"
    using two_pipes_any by blast
  have "ValidString ''web''" "ValidString ''10.0.0.1''" "ValidString ''999''" "ValidString ''10.0.0.2''" "ValidString ''80''"
    by (rule ValidString_ascii; fastforce)+
  then have "modest (conn_request sp demo_user)"
    using sp(2) by (simp add: modest_def conn_request_def demo_user_def message_strings_def List.map_filter_def
        demo_target_def target_proxy_def)
  moreover have "delivers \<lparr>chunks = [wire (registration demo_target)], final_err = EOF\<rparr> (wire (registration demo_target))"
    "delivers \<lparr>chunks = [wire (conn_request sp demo_user)], final_err = EOF\<rparr> sent"
    using handle_sent [OF h] by (auto intro!: delivers_whole simp: length_wire registration_def conn_request_def)
  ultimately show ?thesis
    using tunnel_reaches_target [where p = demo_target and sp = sp and w = first_broken and u = demo_user and mc = ?m2
        and a = demo_agent and before = "[]" and t = 0 and dial = "\<lambda>_. True" and copied = "(0, 0)" and l = 6,
        OF demo_target_modest _ r _ _ h] sp(1)
    by (fastforce simp: demo_target_def target_proxy_def)
qed

end
